(* ===== verification/Rip_Prelude.thy ===== *)
theory Rip_Prelude
  imports Main "HOL-Library.Word" "HOL-Library.Multiset"
begin

text \<open>
  Shared vocabulary of the development: the machine types of the C sources, the byte order
  conversions of \<^verbatim>\<open>arpa/inet.h\<close> on the little-endian hosts the daemon is built for, the two
  GCC bit-counting builtins, and the generic list and word facts the components use.

  C values are modelled at their width: \<open>uint8_t\<close>, \<open>uint16_t\<close>, \<open>uint32_t\<close> and
  \<open>uint64_t\<close> are words. An \<open>in_addr\<close> is the \<open>uint32_t\<close> its \<open>s_addr\<close> holds, i.e. the four
  bytes of the address in network order read by a little-endian host. Undefined behaviour of
  a builtin is the value \<open>None\<close>.
\<close>

unbundle bit_operations_syntax

named_theorems byteorder \<open>facts on htons, htonl, ntohs and ntohl\<close>

type_synonym u8 = "8 word"
type_synonym u16 = "16 word"
type_synonym u32 = "32 word"
type_synonym u64 = "64 word"
type_synonym in_addr = u32

section \<open>Byte order\<close>

definition htons :: "u16 \<Rightarrow> u16" where
  "htons x = push_bit 8 x OR drop_bit 8 x"

definition htonl :: "u32 \<Rightarrow> u32" where
  "htonl x = push_bit 24 x OR (push_bit 8 x AND 0xFF0000)
     OR (drop_bit 8 x AND 0xFF00) OR drop_bit 24 x"

abbreviation ntohs :: "u16 \<Rightarrow> u16" where
  "ntohs \<equiv> htons"

abbreviation ntohl :: "u32 \<Rightarrow> u32" where
  "ntohl \<equiv> htonl"

section \<open>Bit counting: the builtins of GCC\<close>

text \<open>
  \<^verbatim>\<open>__builtin_clz\<close> and \<^verbatim>\<open>__builtin_ctz\<close> are undefined on 0.
\<close>

fun clz_from :: "nat \<Rightarrow> u32 \<Rightarrow> nat" where
  "clz_from 0 x = 0"
| "clz_from (Suc k) x = (if bit x k then 0 else Suc (clz_from k x))"

definition builtin_clz :: "u32 \<Rightarrow> nat option" where
  "builtin_clz x = (if x = 0 then None else Some (clz_from 32 x))"

fun ctz_from :: "nat \<Rightarrow> nat \<Rightarrow> u32 \<Rightarrow> nat" where
  "ctz_from 0 i x = 0"
| "ctz_from (Suc k) i x = (if bit x i then 0 else Suc (ctz_from k (Suc i) x))"

definition builtin_ctz :: "u32 \<Rightarrow> nat option" where
  "builtin_ctz x = (if x = 0 then None else Some (ctz_from 32 0 x))"

section \<open>Decimal output\<close>

text \<open>
  The \<^verbatim>\<open>%d\<close> conversion of \<^verbatim>\<open>fprintf\<close> and the dotted-quad text of \<^verbatim>\<open>inet_ntop(AF_INET, ...)\<close>,
  which prints the four bytes of the address in memory order.
\<close>

fun show_nat :: "nat \<Rightarrow> string" where
  "show_nat n = (if n < 10 then [char_of (48 + n)]
     else show_nat (n div 10) @ [char_of (48 + n mod 10)])"

declare show_nat.simps [simp del]

definition show_int :: "int \<Rightarrow> string" where
  "show_int i = (if i < 0 then ''-'' @ show_nat (nat (- i)) else show_nat (nat i))"

definition byte_of :: "nat \<Rightarrow> u32 \<Rightarrow> nat" where
  "byte_of k a = unat (drop_bit (8 * k) a AND 0xFF)"

definition inet_ntop :: "in_addr \<Rightarrow> string" where
  "inet_ntop a = show_nat (byte_of 0 a) @ ''.'' @ show_nat (byte_of 1 a) @ ''.''
     @ show_nat (byte_of 2 a) @ ''.'' @ show_nat (byte_of 3 a)"

section \<open>Byte order facts\<close>

lemma bit_htons: "bit (htons x) n \<longleftrightarrow> n < 16 \<and> bit x (if n < 8 then n + 8 else n - 8)"
  by (auto simp: htons_def bit_simps ac_simps dest: bit_imp_le_length)

lemma htons_htons [simp, byteorder]: "htons (htons x) = x"
  by (rule bit_word_eqI) (auto simp: bit_htons)

lemma bit_htonl:
  "bit (htonl x) n \<longleftrightarrow> n < 32 \<and> bit x (if n < 8 then n + 24 else if n < 16 then n + 8
     else if n < 24 then n - 8 else n - 24)"
proof -
  have m1: "bit (0xFF00 :: u32) k \<longleftrightarrow> 8 \<le> k \<and> k < 16" for k
  proof -
    have "(0xFF00 :: u32) = push_bit 8 (mask 8)" by (simp add: mask_eq_exp_minus_1)
    then show ?thesis by (simp only: bit_push_bit_iff bit_mask_iff) auto
  qed
  have m2: "bit (0xFF0000 :: u32) k \<longleftrightarrow> 16 \<le> k \<and> k < 24" for k
  proof -
    have "(0xFF0000 :: u32) = push_bit 16 (mask 8)" by (simp add: mask_eq_exp_minus_1)
    then show ?thesis by (simp only: bit_push_bit_iff bit_mask_iff) auto
  qed
  show ?thesis
    by (auto simp: htonl_def bit_simps m1 m2 ac_simps simp del: bit_numeral_word_iff
        dest: bit_imp_le_length)
qed

lemma htonl_htonl [simp, byteorder]: "htonl (htonl x) = x"
  by (rule bit_word_eqI) (auto simp: bit_htonl)

lemma htons_inj [simp, byteorder]: "htons x = htons y \<longleftrightarrow> x = y"
  by (metis htons_htons)

lemma htonl_inj [simp, byteorder]: "htonl x = htonl y \<longleftrightarrow> x = y"
  by (metis htonl_htonl)

lemma htonl_swap [byteorder]: "htonl x = y \<longleftrightarrow> x = htonl y"
  by (metis htonl_htonl)

lemma htonl_minus_one [simp, byteorder]: "htonl (- 1) = - 1"
  by (rule bit_word_eqI) (auto simp: bit_htonl)

lemma not_eq_zero_iff: "NOT x = 0 \<longleftrightarrow> x = - 1" for x :: "'a::len word"
  by (metis bit.compl_one bit.double_compl)

lemma htonl_and [byteorder]: "htonl (x AND y) = htonl x AND htonl y"
  by (rule bit_word_eqI) (auto simp: bit_htonl bit_simps)

lemma htonl_not [byteorder]: "htonl (NOT x) = NOT (htonl x)"
  by (rule bit_word_eqI) (auto simp: bit_htonl bit_simps)

text \<open>
  A value that fits in one byte travels in the most significant byte: the order of such
  values survives the swap, and their low bytes become zero.
\<close>

lemma bit_small: "x < 2 ^ k \<Longrightarrow> k \<le> n \<Longrightarrow> \<not> bit (x :: u32) n" for x :: u32
  by (metis bit_take_bit_iff leD less_mask_eq take_bit_eq_mask)

lemma htonl_byte: "x < 256 \<Longrightarrow> htonl x = push_bit 24 x"
proof (rule bit_word_eqI)
  fix n assume x: "x < 256" and n: "n < LENGTH(32)"
  have "\<not> bit x k" if "8 \<le> k" for k
    using bit_small [of x 8 k] x that by simp
  then show "bit (htonl x) n = bit (push_bit 24 x) n"
    using n by (auto simp: bit_htonl bit_simps)
qed

lemma unat_htonl_byte: "x < 256 \<Longrightarrow> unat (htonl x) = unat x * 2 ^ 24"
proof -
  assume x: "x < 256"
  then have "unat x < 256" by (simp add: word_less_nat_alt)
  then have "unat (push_bit 24 x) = unat x * 2 ^ 24"
    by (simp only: unsigned_push_bit_eq) (simp add: take_bit_eq_mod push_bit_eq_mult)
  with x show ?thesis by (simp add: htonl_byte)
qed

lemma htonl_less_byte [byteorder]: "x < 256 \<Longrightarrow> y < 256 \<Longrightarrow> htonl x < htonl y \<longleftrightarrow> x < y"
  by (simp add: word_less_nat_alt unat_htonl_byte)

lemma htonl_low_byte [byteorder]: "x < 2 ^ 24 \<Longrightarrow> (ucast (htonl x) :: u8) = 0"
proof (rule bit_word_eqI)
  fix n assume x: "x < 2 ^ 24" and n: "n < LENGTH(8)"
  have "\<not> bit x (n + 24)"
    using bit_small [of x 24 "n + 24"] x by simp
  then show "bit (ucast (htonl x) :: u8) n = bit (0 :: u8) n"
    using n by (simp add: bit_htonl bit_simps)
qed

section \<open>Leading and trailing zeros\<close>

lemma clz_from_zeros: "k - clz_from k x \<le> i \<Longrightarrow> i < k \<Longrightarrow> \<not> bit x i"
  by (induction k) (auto simp: less_Suc_eq Suc_diff_le split: if_splits)

lemma clz_from_one: "clz_from k x < k \<Longrightarrow> bit x (k - Suc (clz_from k x))"
  by (induction k) (auto split: if_splits)

lemma clz_from_le: "clz_from k x \<le> k"
  by (induction k) auto

lemma ctz_from_zeros: "i \<le> j \<Longrightarrow> j < i + ctz_from k i x \<Longrightarrow> \<not> bit x j"
proof (induction k arbitrary: i)
  case (Suc k)
  then show ?case
    using Suc.IH [of "Suc i"] by (cases "i = j") (auto split: if_splits)
qed simp

lemma ctz_from_one: "ctz_from k i x < k \<Longrightarrow> bit x (i + ctz_from k i x)"
  by (induction k arbitrary: i) (auto split: if_splits, metis add_Suc)

lemma ctz_from_le: "ctz_from k i x \<le> k"
  by (induction k arbitrary: i) auto

end
