(* ===== verification/Rip_Common.thy ===== *)
theory Rip_Common
  imports Rip_Prelude "HOL-Library.Monad_Syntax"
begin

text \<open>
  Model of \<^verbatim>\<open>rip_common.h\<close> and \<^verbatim>\<open>rip_common.c\<close>: the wire and table records, the byte order
  conversion of an entry, netmask and address validation, and the textual dump of a route.

  \<^verbatim>\<open>get_prefix_len\<close> and \<^verbatim>\<open>prefix_len_to_subnet\<close> contain operations that C leaves undefined for
  some arguments (\<^verbatim>\<open>__builtin_clz(0)\<close>, a shift by 32); the model returns \<open>None\<close> there. The
  properties say on which arguments the functions are defined and that they are inverse to
  each other on the masks a RIP entry may carry.
\<close>

section \<open>Data\<close>

record rip_header =
  command :: u8
  version :: u8

record rip2_entry =
  routing_family_id :: u16
  route_tag :: u16
  ip_address :: in_addr
  subnet_mask :: in_addr
  next_hop :: in_addr
  metric :: u32

record timespec =
  tv_sec :: int
  tv_nsec :: int

record rip_route_description =
  entry :: rip2_entry
  if_index :: u32
  changed :: bool
  is_local :: bool
  in_routing_table :: bool
  timeout_cnt :: int
  gc_started_at :: timespec

record rip_socket =
  sock_fd :: int
  if_name :: string
  sock_if_index :: int

record rip_ifc =
  socket_rx :: rip_socket
  socket_tx :: rip_socket

text \<open>The value \<^verbatim>\<open>MEMSET_ZERO\<close> gives a route description: every byte zero.\<close>

definition zero_entry :: rip2_entry where
  "zero_entry = \<lparr>routing_family_id = 0, route_tag = 0, ip_address = 0, subnet_mask = 0,
     next_hop = 0, metric = 0\<rparr>"

definition zero_route :: rip_route_description where
  "zero_route = \<lparr>entry = zero_entry, if_index = 0, changed = False, is_local = False,
     in_routing_table = False, timeout_cnt = 0, gc_started_at = \<lparr>tv_sec = 0, tv_nsec = 0\<rparr>\<rparr>"

text \<open>The sizes the C code takes with \<^verbatim>\<open>sizeof\<close>; the first two are asserted statically.\<close>

definition sizeof_rip_header :: nat where "sizeof_rip_header = 4"
definition sizeof_rip2_entry :: nat where "sizeof_rip2_entry = 20"
definition msg_buffer_entries :: nat where "msg_buffer_entries = 500"

section \<open>Operations\<close>

definition get_prefix_len :: "in_addr \<Rightarrow> nat option" where
  "get_prefix_len mask_n =
     (let host_mask = ntohl mask_n; inverted_mask = NOT host_mask
      in builtin_clz inverted_mask)"

definition prefix_len_to_subnet :: "nat \<Rightarrow> in_addr \<Rightarrow> (int \<times> in_addr) option" where
  "prefix_len_to_subnet prefix_len out =
     (if prefix_len > 32 then Some (1, out)
      else if 32 - prefix_len \<ge> 32 then None
      else let mask = push_bit (32 - prefix_len) (0xFFFFFFFF :: u32) AND 0xFFFFFFFF
           in Some (0, htonl mask))"

definition rip2_entry_ntoh :: "rip2_entry \<Rightarrow> rip2_entry" where
  "rip2_entry_ntoh r2e = r2e\<lparr>routing_family_id := ntohs (routing_family_id r2e),
     route_tag := ntohs (route_tag r2e), metric := ntohl (metric r2e)\<rparr>"

definition rip2_entry_hton :: "rip2_entry \<Rightarrow> rip2_entry" where
  "rip2_entry_hton r2e = r2e\<lparr>routing_family_id := htons (routing_family_id r2e),
     route_tag := htons (route_tag r2e), metric := htonl (metric r2e)\<rparr>"

definition is_unicast_address :: "in_addr \<Rightarrow> bool" where
  "is_unicast_address address_n =
     (let address = ntohl address_n; msb = (ucast (drop_bit 24 address) :: u8)
      in if msb = 0 then False
         else if msb = 127 then False
         else if msb \<ge> 224 then False
         else True)"

definition is_net_mask_valid :: "in_addr \<Rightarrow> bool option" where
  "is_net_mask_valid net_mask_n =
     (let net_mask = ntohl net_mask_n in
      if net_mask = 0 \<or> net_mask = 0xFFFFFFFF then Some False
      else do {
        trailing_zeros \<leftarrow> builtin_ctz net_mask;
        let net_mask_flipped = NOT net_mask;
        leading_ones \<leftarrow> builtin_clz net_mask_flipped;
        Some (leading_ones + trailing_zeros = 32)
      })"

text \<open>
  The two print functions return the text they write. The metric is an unsigned 32-bit
  value handed to a signed conversion. The interface name comes from \<^verbatim>\<open>if_indextoname\<close>, a
  parameter; the text of a failing lookup is \<open>error\<close>.
\<close>

definition rip2_entry_print :: "rip2_entry \<Rightarrow> string option" where
  "rip2_entry_print e0 = do {
     let e = rip2_entry_ntoh e0;
     prefix_len \<leftarrow> get_prefix_len (subnet_mask e);
     Some (''rfamily_id '' @ show_nat (unat (routing_family_id e)) @ '', ''
       @ ''rtag '' @ show_nat (unat (route_tag e)) @ '', ''
       @ ''network '' @ inet_ntop (ip_address e) @ ''/'' @ show_nat prefix_len @ '', ''
       @ ''nh '' @ inet_ntop (next_hop e) @ '', ''
       @ ''metric '' @ show_int (sint (metric e)))
   }"

definition rip_route_description_print ::
  "(u32 \<Rightarrow> string option) \<Rightarrow> rip_route_description \<Rightarrow> string option" where
  "rip_route_description_print if_indextoname descr = do {
     let name = (case if_indextoname (if_index descr) of None \<Rightarrow> ''error'' | Some s \<Rightarrow> s);
     text \<leftarrow> rip2_entry_print (entry descr);
     Some (''ifi '' @ show_int (sint (if_index descr)) @ '', dev '' @ name @ '', '' @ text
       @ [char_of (10::nat)])
   }"

section \<open>Byte order of an entry\<close>

lemma rip2_entry_ntoh_sel [simp]:
  "ip_address (rip2_entry_ntoh e) = ip_address e" "subnet_mask (rip2_entry_ntoh e) = subnet_mask e"
  "next_hop (rip2_entry_ntoh e) = next_hop e" "metric (rip2_entry_ntoh e) = ntohl (metric e)"
  by (simp_all add: rip2_entry_ntoh_def)

lemma rip2_entry_hton_sel [simp]:
  "ip_address (rip2_entry_hton e) = ip_address e" "subnet_mask (rip2_entry_hton e) = subnet_mask e"
  "next_hop (rip2_entry_hton e) = next_hop e" "metric (rip2_entry_hton e) = htonl (metric e)"
  by (simp_all add: rip2_entry_hton_def)

lemma ntoh_hton [simp]: "rip2_entry_ntoh (rip2_entry_hton e) = e"
  by (simp add: rip2_entry_ntoh_def rip2_entry_hton_def)

lemma hton_ntoh [simp]: "rip2_entry_hton (rip2_entry_ntoh e) = e"
  by (simp add: rip2_entry_ntoh_def rip2_entry_hton_def)

section \<open>Netmasks\<close>

lemma mask_all_ones: "(0xFFFFFFFF :: u32) = - 1"
  by simp

text \<open>The mask of prefix length \<open>p\<close> in host order: ones from bit \<open>32 - p\<close> on.\<close>

definition host_mask :: "nat \<Rightarrow> u32" where
  "host_mask p = push_bit (32 - p) (- 1)"

lemma bit_host_mask [simp]: "bit (host_mask p) i \<longleftrightarrow> 32 - p \<le> i \<and> i < 32"
  by (auto simp: host_mask_def bit_simps)

lemma host_mask_bounds: "host_mask 0 = 0" "host_mask 32 = - 1"
  by (rule bit_word_eqI, simp)+

lemma prefix_len_to_subnet_defined:
  assumes "1 \<le> p" "p \<le> 32"
  shows "prefix_len_to_subnet p out = Some (0, htonl (host_mask p))"
  using assms by (simp add: prefix_len_to_subnet_def mask_all_ones host_mask_def)

lemma clz_from_eqI:
  assumes "l \<le> k" and "\<And>i. k - l \<le> i \<Longrightarrow> i < k \<Longrightarrow> \<not> bit x i" and "l < k \<Longrightarrow> bit x (k - Suc l)"
  shows "clz_from k x = l"
proof (rule linorder_cases [of "clz_from k x" l])
  assume lt: "clz_from k x < l"
  with assms(1) have "bit x (k - Suc (clz_from k x))" by (intro clz_from_one) simp
  moreover have "k - l \<le> k - Suc (clz_from k x)" "k - Suc (clz_from k x) < k"
    using lt assms(1) by auto
  ultimately show ?thesis using assms(2) by blast
next
  assume gt: "l < clz_from k x"
  then have lk: "l < k" using clz_from_le [of k x] by simp
  have "\<not> bit x (k - Suc l)"
    by (rule clz_from_zeros [of k]) (use gt lk clz_from_le [of k x] in auto)
  with assms(3) lk show ?thesis by simp
qed

lemma ctz_from_eqI:
  assumes "t \<le> k" and "\<And>j. i \<le> j \<Longrightarrow> j < i + t \<Longrightarrow> \<not> bit x j" and "t < k \<Longrightarrow> bit x (i + t)"
  shows "ctz_from k i x = t"
proof (rule linorder_cases [of "ctz_from k i x" t])
  assume lt: "ctz_from k i x < t"
  with assms(1) have "bit x (i + ctz_from k i x)" by (intro ctz_from_one) simp
  with assms(2) [of "i + ctz_from k i x"] lt show ?thesis by simp
next
  assume gt: "t < ctz_from k i x"
  then have "t < k" using ctz_from_le [of k i x] by simp
  with assms(3) ctz_from_zeros [of i "i + t" k x] gt show ?thesis by simp
qed

lemma clz_not_host_mask:
  assumes "p \<le> 31" shows "builtin_clz (NOT (host_mask p)) = Some p"
proof -
  have "bit (NOT (host_mask p)) (31 - p)"
    using assms by (auto simp: bit_not_iff)
  then have "NOT (host_mask p) \<noteq> 0" by (metis bit_0_eq bot_apply bot_bool_def)
  moreover have "clz_from 32 (NOT (host_mask p)) = p"
    by (rule clz_from_eqI) (use assms in \<open>auto simp: bit_not_iff bit_host_mask\<close>)
  ultimately show ?thesis by (simp add: builtin_clz_def)
qed

lemma ctz_host_mask:
  assumes "1 \<le> p" "p \<le> 32" shows "builtin_ctz (host_mask p) = Some (32 - p)"
proof -
  have "bit (host_mask p) 31" using assms by (simp add: bit_host_mask)
  then have "host_mask p \<noteq> 0" by (metis bit_0_eq bot_apply bot_bool_def)
  moreover have "ctz_from 32 0 (host_mask p) = 32 - p"
    by (rule ctz_from_eqI) (use assms in \<open>auto simp: bit_host_mask\<close>)
  ultimately show ?thesis by (simp add: builtin_ctz_def)
qed

lemma host_mask_not_trivial:
  assumes "Suc 0 \<le> p" "p \<le> 31" shows "host_mask p \<noteq> 0" "host_mask p \<noteq> - 1"
proof -
  show "host_mask p \<noteq> 0"
    using ctz_host_mask [of p] assms by (auto simp: builtin_ctz_def split: if_splits)
  show "host_mask p \<noteq> - 1"
  proof
    assume "host_mask p = - 1"
    then have "bit (host_mask p) 0" by simp
    with assms show False by (simp add: bit_host_mask)
  qed
qed

lemma contiguous_mask:
  assumes l: "clz_from 32 (NOT m) = l" and t: "ctz_from 32 0 m = t" and lt: "l + t = 32"
  shows "m = host_mask l"
proof (rule bit_word_eqI)
  fix i assume i: "i < LENGTH(32)"
  show "bit m i = bit (host_mask l) i"
  proof (cases "i < t")
    case True
    then have "\<not> bit m i" using ctz_from_zeros [of 0 i 32 m] t by simp
    with True lt show ?thesis by (auto simp: bit_host_mask)
  next
    case False
    then have "\<not> bit (NOT m) i" using clz_from_zeros [of 32 "NOT m" i] l lt i by simp
    with False lt i show ?thesis by (auto simp: bit_host_mask bit_not_iff)
  qed
qed

lemma is_net_mask_valid_total:
  "is_net_mask_valid m = Some (\<exists>p. 1 \<le> p \<and> p \<le> 31 \<and> ntohl m = host_mask p)"
proof (cases "ntohl m = 0 \<or> ntohl m = - 1")
  case True
  then show ?thesis
    by (auto simp: is_net_mask_valid_def Let_def mask_all_ones
        dest: host_mask_not_trivial(1) host_mask_not_trivial(2) [symmetric])
next
  case False
  then have nz: "ntohl m \<noteq> 0" "NOT (ntohl m) \<noteq> 0"
    by (auto simp: bit.compl_eq_compl_iff [of _ "- 1", simplified, symmetric])
  let ?l = "clz_from 32 (NOT (ntohl m))" and ?t = "ctz_from 32 0 (ntohl m)"
  have eq: "is_net_mask_valid m = Some (?l + ?t = 32)"
    using False nz
    by (simp add: is_net_mask_valid_def Let_def builtin_ctz_def builtin_clz_def mask_all_ones)
  have "?l + ?t = 32 \<longleftrightarrow> (\<exists>p. 1 \<le> p \<and> p \<le> 31 \<and> ntohl m = host_mask p)"
  proof
    assume s: "?l + ?t = 32"
    then have m: "ntohl m = host_mask ?l" by (rule contiguous_mask [OF refl refl])
    have "?l \<noteq> 0" "?l \<noteq> 32" using m False host_mask_bounds by metis+
    then have "1 \<le> ?l" "?l \<le> 31" using clz_from_le [of 32 "NOT (ntohl m)"] by auto
    with m show "\<exists>p. 1 \<le> p \<and> p \<le> 31 \<and> ntohl m = host_mask p" by blast
  next
    assume "\<exists>p. 1 \<le> p \<and> p \<le> 31 \<and> ntohl m = host_mask p"
    then obtain p where "1 \<le> p" "p \<le> 31" and m: "ntohl m = host_mask p" by blast
    then show "?l + ?t = 32"
      using clz_not_host_mask [of p] ctz_host_mask [of p] nz unfolding m
      by (simp add: builtin_clz_def builtin_ctz_def)
  qed
  with eq show ?thesis by simp
qed

lemma get_prefix_len_host_mask: "p \<le> 31 \<Longrightarrow> get_prefix_len (htonl (host_mask p)) = Some p"
  by (simp add: get_prefix_len_def clz_not_host_mask)

lemma get_prefix_len_None: "get_prefix_len m = None \<longleftrightarrow> m = 0xFFFFFFFF"
  by (simp add: get_prefix_len_def builtin_clz_def not_eq_zero_iff htonl_swap mask_all_ones)

lemma entry_print_None: "rip2_entry_print e = None \<longleftrightarrow> subnet_mask e = 0xFFFFFFFF"
  unfolding get_prefix_len_None [symmetric]
  by (simp add: rip2_entry_print_def Let_def bind_eq_None_conv)

lemma route_print_None:
  "rip_route_description_print names r = None \<longleftrightarrow> subnet_mask (entry r) = 0xFFFFFFFF"
  unfolding entry_print_None [symmetric]
  by (simp add: rip_route_description_print_def Let_def bind_eq_None_conv)

lemma valid_mask_printable:
  assumes "is_net_mask_valid m = Some True"
  shows "get_prefix_len m \<noteq> None"
proof -
  from assms obtain p where "p \<le> 31" "m = htonl (host_mask p)"
    by (auto simp: is_net_mask_valid_total htonl_swap)
  then show ?thesis by (simp add: get_prefix_len_host_mask)
qed

section \<open>Properties\<close>

text \<open>
  C40: netmask round trip. For every prefix length from 1 to 31, \<^verbatim>\<open>prefix_len_to_subnet\<close>
  succeeds, \<^verbatim>\<open>get_prefix_len\<close> reads the same length back from the mask it wrote, and
  \<^verbatim>\<open>is_net_mask_valid\<close> accepts that mask.
\<close>

theorem prefix_mask_roundtrip:
  assumes "1 \<le> p" and "p \<le> 31"
  shows "\<exists>m. prefix_len_to_subnet p out = Some (0, m) \<and> get_prefix_len m = Some p \<and>
    is_net_mask_valid m = Some True"
  using assms
  by (auto simp: prefix_len_to_subnet_defined get_prefix_len_host_mask is_net_mask_valid_total)

theorem prefix_mask_roundtrip_witness:
  "\<exists>m. prefix_len_to_subnet 24 0 = Some (0, m) \<and> get_prefix_len m = Some 24 \<and>
    is_net_mask_valid m = Some True"
  using prefix_mask_roundtrip [of 24 0] by simp

text \<open>
  \<^verbatim>\<open>is_net_mask_valid\<close> never reaches an undefined builtin call, and it accepts exactly the
  contiguous masks of prefix lengths 1 to 31, i.e. those that \<^verbatim>\<open>prefix_len_to_subnet\<close> makes.
\<close>

lemma net_mask_valid_characterised:
  "is_net_mask_valid m =
     Some (\<exists>p\<in>{1..31}. prefix_len_to_subnet p 0 = Some (0, m))"
proof -
  have "prefix_len_to_subnet p 0 = Some (0, m) \<longleftrightarrow> ntohl m = host_mask p" if "p \<in> {1..31}" for p
    using that by (auto simp: prefix_len_to_subnet_defined htonl_swap)
  then show ?thesis by (auto simp: is_net_mask_valid_total)
qed

end
