(* ===== verification/Hashmap.thy ===== *)
theory Hashmap
  imports Rip_Prelude "HOL-Library.Monad_Syntax"
begin

text \<open>
  Model of \<^verbatim>\<open>utils/hashmap.c\<close>, the open addressed Robin Hood hash map that holds the routes of
  the database and the events of the dispatcher.

  A map is the record of the C struct. The bucket array is a list of buckets; an item is a
  value of the element type \<open>'a\<close> and \<open>elzero\<close> is the item whose \<open>elsize\<close> bytes are all zero,
  which \<^verbatim>\<open>memset\<close> writes. A pointer into the map is the index of its bucket. The scratch
  buffers \<^verbatim>\<open>spare\<close> and \<^verbatim>\<open>edata\<close> are values: the item a call returns through \<^verbatim>\<open>spare\<close> is
  the returned value. \<^verbatim>\<open>malloc\<close> is a parameter that says for a size whether the allocation succeeds.

  A bucket's distance \<^verbatim>\<open>dib\<close> is a 16-bit field, so its increments are taken modulo
  \<open>2 ^ 16\<close>. A \<^verbatim>\<open>while(1)\<close> loop of the C code is a \<^theory_text>\<open>partial_function\<close> whose value \<open>None\<close>
  means that it does not return; that the loops do return is proved in \<open>Hashmap_Robin\<close>.

  The load factor is 60 percent and the shrink threshold 10 percent. C computes both
  thresholds in floating point from a power of two, where truncation agrees with the integer
  quotients below (neither product is ever an integer). Sizes are natural numbers: the byte
  count of an array stays far below \<open>2 ^ 64\<close> for every array that can be allocated.
\<close>

section \<open>State\<close>

record 'a bucket =
  b_hash :: u64
  b_dib :: nat
  b_item :: 'a

record 'a hashmap =
  elsize :: nat
  cap :: nat
  seed0 :: u64
  seed1 :: u64
  hm_hash :: "'a \<Rightarrow> u64 \<Rightarrow> u64 \<Rightarrow> u64"
  hm_compare :: "('a \<Rightarrow> 'a \<Rightarrow> int) option"
  bucketsz :: nat
  nbuckets :: nat
  hm_count :: nat
  hm_mask :: nat
  growat :: nat
  shrinkat :: nat
  loadfactor :: nat
  growpower :: nat
  oom :: bool
  buckets :: "'a bucket list"
  elzero :: 'a

definition sizeof_bucket :: nat where "sizeof_bucket = 8"
definition sizeof_hashmap :: nat where "sizeof_hashmap = 168"

section \<open>Helpers\<close>

definition bucket_at :: "'a hashmap \<Rightarrow> nat \<Rightarrow> 'a bucket" where
  "bucket_at m index = buckets m ! index"

definition clip_hash :: "u64 \<Rightarrow> u64" where
  "clip_hash hash = hash AND 0xFFFFFFFFFFFF"

definition get_hash :: "'a hashmap \<Rightarrow> 'a \<Rightarrow> u64" where
  "get_hash m key = clip_hash (hm_hash m key (seed0 m) (seed1 m))"

text \<open>The two index computations: a hash masked to an index, and the cyclic successor.\<close>

definition hash_index :: "nat \<Rightarrow> u64 \<Rightarrow> nat" where
  "hash_index mk hash = unat (hash AND word_of_nat mk)"

definition next_index :: "nat \<Rightarrow> nat \<Rightarrow> nat" where
  "next_index mk i = (i + 1) AND mk"

definition items_match :: "'a hashmap \<Rightarrow> 'a \<Rightarrow> 'a \<Rightarrow> bool" where
  "items_match m a b = (case hm_compare m of None \<Rightarrow> True | Some compare \<Rightarrow> compare a b = 0)"

definition bump_dib :: "'a bucket \<Rightarrow> 'a bucket" where
  "bump_dib b = b\<lparr>b_dib := (b_dib b + 1) mod 2 ^ 16\<rparr>"

definition empty_bucket :: "'a \<Rightarrow> 'a bucket" where
  "empty_bucket z = \<lparr>b_hash = 0, b_dib = 0, b_item = z\<rparr>"

section \<open>Construction\<close>

function round_cap :: "nat \<Rightarrow> nat \<Rightarrow> nat" where
  "round_cap ncap cp = (if 0 < ncap \<and> ncap < cp then round_cap (ncap * 2) cp else ncap)"
  by pat_completeness auto
termination
  by (relation "measure (\<lambda>(n, c). c - n)") auto

lemma and_7_mod: "(n::nat) AND 7 = n mod 8"
proof -
  have "(7::nat) = mask 3" by (simp add: mask_eq_exp_minus_1)
  then show ?thesis by (simp only: take_bit_eq_mask [symmetric]) (simp add: take_bit_eq_mod)
qed

function pad_bucketsz :: "nat \<Rightarrow> nat" where
  "pad_bucketsz b = (if b AND 7 \<noteq> 0 then pad_bucketsz (b + 1) else b)"
  by pat_completeness auto
termination
proof (relation "measure (\<lambda>b. (8 - b mod 8) mod 8)")
  fix b :: nat assume "b AND 7 \<noteq> 0"
  then have "b mod 8 \<noteq> 0" by (simp add: and_7_mod)
  then have "(8 - (b + 1) mod 8) mod 8 < (8 - b mod 8) mod 8"
    by (auto simp: mod_Suc)
  then show "(b + 1, b) \<in> measure (\<lambda>b. (8 - b mod 8) mod 8)" by simp
qed simp

declare round_cap.simps [simp del] pad_bucketsz.simps [simp del]

definition hashmap_new_with_allocator ::
  "(nat \<Rightarrow> bool) \<Rightarrow> nat \<Rightarrow> nat \<Rightarrow> u64 \<Rightarrow> u64 \<Rightarrow> ('a \<Rightarrow> u64 \<Rightarrow> u64 \<Rightarrow> u64) \<Rightarrow>
   ('a \<Rightarrow> 'a \<Rightarrow> int) option \<Rightarrow> 'a \<Rightarrow> 'a hashmap option" where
  "hashmap_new_with_allocator malloc elsz cp s0 s1 hash compare zero =
     (let ncap = 16;
          cp = (if cp < ncap then ncap else round_cap ncap cp);
          bsz = pad_bucketsz (sizeof_bucket + elsz);
          size = sizeof_hashmap + bsz * 2
      in if \<not> malloc size then None
         else if \<not> malloc (bsz * cp) then None
         else Some \<lparr>elsize = elsz, cap = cp, seed0 = s0, seed1 = s1, hm_hash = hash,
           hm_compare = compare, bucketsz = bsz, nbuckets = cp, hm_count = 0, hm_mask = cp - 1,
           growat = cp * 60 div 100, shrinkat = cp * 10 div 100, loadfactor = 60, growpower = 1,
           oom = False, buckets = replicate cp (empty_bucket zero), elzero = zero\<rparr>)"

definition hashmap_new ::
  "(nat \<Rightarrow> bool) \<Rightarrow> nat \<Rightarrow> nat \<Rightarrow> u64 \<Rightarrow> u64 \<Rightarrow> ('a \<Rightarrow> u64 \<Rightarrow> u64 \<Rightarrow> u64) \<Rightarrow>
   ('a \<Rightarrow> 'a \<Rightarrow> int) option \<Rightarrow> 'a \<Rightarrow> 'a hashmap option" where
  "hashmap_new malloc elsz cp s0 s1 hash compare zero =
     hashmap_new_with_allocator malloc elsz cp s0 s1 hash compare zero"

section \<open>Resizing\<close>

text \<open>The inner loop: place one entry of the old table into the new one.\<close>

partial_function (option) resize_place ::
  "nat \<Rightarrow> 'a bucket list \<Rightarrow> nat \<Rightarrow> 'a bucket \<Rightarrow> 'a bucket list option" where
  "resize_place mk bs j e =
     (let bucket = bs ! j in
      if b_dib bucket = 0 then Some (bs[j := e])
      else if b_dib bucket < b_dib e
        then resize_place mk (bs[j := e]) (next_index mk j) (bump_dib bucket)
      else resize_place mk bs (next_index mk j) (bump_dib e))"

text \<open>The outer loop over the old buckets.\<close>

fun resize_all :: "nat \<Rightarrow> 'a bucket list \<Rightarrow> 'a bucket list \<Rightarrow> 'a bucket list option" where
  "resize_all mk bs2 [] = Some bs2"
| "resize_all mk bs2 (e # es) =
     (if b_dib e = 0 then resize_all mk bs2 es
      else do {
        bs \<leftarrow> resize_place mk bs2 (hash_index mk (b_hash e)) (e\<lparr>b_dib := 1\<rparr>);
        resize_all mk bs es
      })"

definition resize0 :: "(nat \<Rightarrow> bool) \<Rightarrow> 'a hashmap \<Rightarrow> nat \<Rightarrow> ('a hashmap \<times> bool) option" where
  "resize0 malloc m new_cap =
     (case hashmap_new_with_allocator malloc (elsize m) new_cap (seed0 m) (seed1 m)
             (hm_hash m) (hm_compare m) (elzero m) of
        None \<Rightarrow> Some (m, False)
      | Some m2 \<Rightarrow> do {
          bs \<leftarrow> resize_all (hm_mask m2) (buckets m2) (buckets m);
          Some (m\<lparr>buckets := bs, nbuckets := nbuckets m2, hm_mask := hm_mask m2,
                  growat := growat m2, shrinkat := shrinkat m2\<rparr>, True)
        })"

definition resize :: "(nat \<Rightarrow> bool) \<Rightarrow> 'a hashmap \<Rightarrow> nat \<Rightarrow> ('a hashmap \<times> bool) option" where
  "resize malloc m new_cap = resize0 malloc m new_cap"

section \<open>Insertion\<close>

partial_function (option) set_loop ::
  "'a hashmap \<Rightarrow> nat \<Rightarrow> 'a bucket \<Rightarrow> ('a hashmap \<times> 'a option) option" where
  "set_loop m i e =
     (let bucket = bucket_at m i in
      if b_dib bucket = 0
        then Some (m\<lparr>buckets := (buckets m)[i := e], hm_count := hm_count m + 1\<rparr>, None)
      else if b_hash e = b_hash bucket \<and> items_match m (b_item e) (b_item bucket)
        then Some (m\<lparr>buckets := (buckets m)[i := bucket\<lparr>b_item := b_item e\<rparr>]\<rparr>,
                   Some (b_item bucket))
      else if b_dib bucket < b_dib e
        then set_loop (m\<lparr>buckets := (buckets m)[i := e]\<rparr>) (next_index (hm_mask m) i)
               (bump_dib bucket)
      else set_loop m (next_index (hm_mask m) i) (bump_dib e))"

text \<open>The result is the new map and the replaced item, if any.\<close>

definition hashmap_set_with_hash ::
  "(nat \<Rightarrow> bool) \<Rightarrow> 'a hashmap \<Rightarrow> 'a \<Rightarrow> u64 \<Rightarrow> ('a hashmap \<times> 'a option) option" where
  "hashmap_set_with_hash malloc m0 item hash0 =
     (let hash = clip_hash hash0;
          m = m0\<lparr>oom := False\<rparr>
      in do {
        (m, resized) \<leftarrow> (if hm_count m \<ge> growat m
                         then resize malloc m (nbuckets m * 2 ^ growpower m)
                         else Some (m, True));
        if \<not> resized then Some (m\<lparr>oom := True\<rparr>, None)
        else set_loop m (hash_index (hm_mask m) hash)
               \<lparr>b_hash = hash, b_dib = 1, b_item = item\<rparr>
      })"

definition hashmap_set ::
  "(nat \<Rightarrow> bool) \<Rightarrow> 'a hashmap \<Rightarrow> 'a \<Rightarrow> ('a hashmap \<times> 'a option) option" where
  "hashmap_set malloc m item = hashmap_set_with_hash malloc m item (get_hash m item)"

section \<open>Lookup\<close>

partial_function (option) get_loop ::
  "'a hashmap \<Rightarrow> 'a \<Rightarrow> u64 \<Rightarrow> nat \<Rightarrow> nat option option" where
  "get_loop m key hash i =
     (let bucket = bucket_at m i in
      if b_dib bucket = 0 then Some None
      else if b_hash bucket = hash \<and> items_match m key (b_item bucket) then Some (Some i)
      else get_loop m key hash (next_index (hm_mask m) i))"

text \<open>The index of the bucket found, or \<open>None\<close> for a null pointer.\<close>

definition hashmap_get_with_hash :: "'a hashmap \<Rightarrow> 'a \<Rightarrow> u64 \<Rightarrow> nat option option" where
  "hashmap_get_with_hash m key hash0 =
     (let hash = clip_hash hash0 in get_loop m key hash (hash_index (hm_mask m) hash))"

definition hashmap_get :: "'a hashmap \<Rightarrow> 'a \<Rightarrow> nat option option" where
  "hashmap_get m key = hashmap_get_with_hash m key (get_hash m key)"

section \<open>Deletion\<close>

text \<open>The backward shift that closes the gap left at \<open>prev\<close>.\<close>

partial_function (option) shift_loop ::
  "nat \<Rightarrow> 'a bucket list \<Rightarrow> nat \<Rightarrow> 'a bucket list option" where
  "shift_loop mk bs prev =
     (let i = next_index mk prev; bucket = bs ! i in
      if b_dib bucket \<le> 1 then Some (bs[prev := (bs ! prev)\<lparr>b_dib := 0\<rparr>])
      else shift_loop mk (bs[prev := bucket\<lparr>b_dib := b_dib bucket - 1\<rparr>]) i)"

partial_function (option) delete_loop ::
  "(nat \<Rightarrow> bool) \<Rightarrow> 'a hashmap \<Rightarrow> 'a \<Rightarrow> u64 \<Rightarrow> nat \<Rightarrow> ('a hashmap \<times> 'a option) option" where
  "delete_loop malloc m key hash i =
     (let bucket = bucket_at m i in
      if b_dib bucket = 0 then Some (m, None)
      else if b_hash bucket = hash \<and> items_match m key (b_item bucket) then do {
        bs \<leftarrow> shift_loop (hm_mask m) ((buckets m)[i := bucket\<lparr>b_dib := 0\<rparr>]) i;
        let m1 = m\<lparr>buckets := bs, hm_count := hm_count m - 1\<rparr>;
        if nbuckets m1 > cap m1 \<and> hm_count m1 \<le> shrinkat m1 then do {
          (m2, ok) \<leftarrow> resize malloc m1 (nbuckets m1 div 2);
          Some (m2, Some (b_item bucket))
        }
        else Some (m1, Some (b_item bucket))
      }
      else delete_loop malloc m key hash (next_index (hm_mask m) i))"

definition hashmap_delete_with_hash ::
  "(nat \<Rightarrow> bool) \<Rightarrow> 'a hashmap \<Rightarrow> 'a \<Rightarrow> u64 \<Rightarrow> ('a hashmap \<times> 'a option) option" where
  "hashmap_delete_with_hash malloc m0 key hash0 =
     (let hash = clip_hash hash0; m = m0\<lparr>oom := False\<rparr>
      in delete_loop malloc m key hash (hash_index (hm_mask m) hash))"

definition hashmap_delete ::
  "(nat \<Rightarrow> bool) \<Rightarrow> 'a hashmap \<Rightarrow> 'a \<Rightarrow> ('a hashmap \<times> 'a option) option" where
  "hashmap_delete malloc m key = hashmap_delete_with_hash malloc m key (get_hash m key)"

section \<open>Iteration\<close>

text \<open>
  The cursor after the call, and the index of the bucket retrieved (\<open>None\<close>: the end).
\<close>

function hashmap_iter :: "'a hashmap \<Rightarrow> nat \<Rightarrow> nat \<times> nat option" where
  "hashmap_iter m i =
     (if i \<ge> nbuckets m then (i, None)
      else if b_dib (bucket_at m i) = 0 then hashmap_iter m (i + 1)
      else (i + 1, Some i))"
  by pat_completeness auto
termination
  by (relation "measure (\<lambda>(m, i). nbuckets m - i)") auto

declare hashmap_iter.simps [simp del]

definition hashmap_count :: "'a hashmap \<Rightarrow> nat" where
  "hashmap_count m = hm_count m"

definition hashmap_oom :: "'a hashmap \<Rightarrow> bool" where
  "hashmap_oom m = oom m"

text \<open>Reading and writing the item behind a pointer handed out by \<^verbatim>\<open>hashmap_get\<close> or \<^verbatim>\<open>hashmap_iter\<close>.\<close>

definition item_at :: "'a hashmap \<Rightarrow> nat \<Rightarrow> 'a" where
  "item_at m i = b_item (bucket_at m i)"

definition modify_at :: "'a hashmap \<Rightarrow> nat \<Rightarrow> ('a \<Rightarrow> 'a) \<Rightarrow> 'a hashmap" where
  "modify_at m i f =
     m\<lparr>buckets := (buckets m)[i := (bucket_at m i)\<lparr>b_item := f (item_at m i)\<rparr>]\<rparr>"

end
