(* ===== verification/Hashmap_Robin.thy ===== *)
theory Hashmap_Robin
  imports Hashmap
begin

text \<open>
  Correctness of the hash map. The Robin Hood invariant \<open>robin\<close> says that every occupied
  bucket stands where its hash and its distance put it and that the distance grows by at most
  one from a bucket to its successor; with distinct keys and one empty bucket it makes every
  probe sequence end at the right place. From it follow, for every operation: the loops
  return, the invariant is kept, and the table acts as a finite map from keys to items.

  The key of an item is given by a function \<open>key\<close>: the comparison of the map is zero exactly on
  items with equal keys. The distance field has 16 bits, so the insertion laws are stated for
  tables with fewer than \<open>2 ^ 16 - 1\<close> items; a distance never exceeds the item count.
\<close>

section \<open>Index arithmetic\<close>

lemma next_index_mod:
  assumes "n = 2 ^ k" shows "next_index (n - 1) i = (i + 1) mod n"
proof -
  have "n - 1 = mask k" using assms by (simp add: mask_eq_exp_minus_1)
  then show ?thesis
    using assms by (simp only: next_index_def take_bit_eq_mask [symmetric] take_bit_eq_mod)
qed

lemma hash_index_mod:
  assumes "n = 2 ^ k" shows "hash_index (n - 1) h = unat h mod n"
proof -
  have "(word_of_nat (n - 1) :: u64) = mask k"
    using assms by (metis mask_eq_exp_minus_1 of_nat_mask_eq)
  then have "hash_index (n - 1) h = unat (take_bit k h)"
    by (simp add: hash_index_def take_bit_eq_mask)
  also have "\<dots> = take_bit k (unat h)" by (simp add: unsigned_take_bit_eq)
  finally show ?thesis using assms by (simp add: take_bit_eq_mod)
qed

lemma mod_lt: "i < n \<Longrightarrow> x mod n < n" for n :: nat
  by (rule mod_less_divisor) auto

lemma Suc_mod_cancel: "Suc a mod n = Suc b mod n \<Longrightarrow> a mod n = b mod n"
  by (simp add: mod_Suc split: if_splits)

lemma cyc_cancel: "(a + s) mod n = (a + t) mod n \<Longrightarrow> s mod n = t mod n" for n :: nat
  by (induction a) (auto dest: Suc_mod_cancel)

lemma cyc_pred_unique: "i < n \<Longrightarrow> j < n \<Longrightarrow> (j + 1) mod n = (i + 1) mod n \<Longrightarrow> j = i" for n :: nat
  using Suc_mod_cancel [of j n i] by simp

lemma cyc_neq: "2 \<le> n \<Longrightarrow> i < n \<Longrightarrow> (i + 1) mod n \<noteq> i" for n :: nat
  by (auto simp: mod_Suc split: if_splits)

lemma cyc_step: "(h + d) mod n = (i + 1) mod n \<Longrightarrow> (h + (d + 1)) mod n = ((i + 1) mod n + 1) mod n"
  for n :: nat
  by (simp add: mod_Suc_eq) (metis mod_Suc_eq)

lemma cyc_shift: "((i + 1) mod n + s) mod n = (i + Suc s) mod n" for n :: nat
  by (simp add: mod_add_left_eq)

lemma cyc_reach: "i < n \<Longrightarrow> z < n \<Longrightarrow> \<exists>u<n. (i + u) mod n = z" for n :: nat
proof -
  assume "i < n" "z < n"
  then have "(i + (z + n - i) mod n) mod n = z"
    by (simp add: mod_add_right_eq)
  moreover have "(z + n - i) mod n < n" using \<open>i < n\<close> by simp
  ultimately show ?thesis by blast
qed

section \<open>The invariant of a bucket array\<close>

abbreviation dib_at :: "'a bucket list \<Rightarrow> nat \<Rightarrow> nat" where
  "dib_at bs i \<equiv> b_dib (bs ! i)"

definition items :: "'a bucket list \<Rightarrow> 'a list" where
  "items bs = map b_item (filter (\<lambda>b. b_dib b \<noteq> 0) bs)"

definition in_place :: "('a \<Rightarrow> u64) \<Rightarrow> nat \<Rightarrow> 'a bucket \<Rightarrow> nat \<Rightarrow> bool" where
  "in_place hs n b i \<longleftrightarrow> 0 < b_dib b \<and> (unat (b_hash b) + b_dib b) mod n = (i + 1) mod n \<and>
     b_hash b = hs (b_item b)"

definition robin :: "('a \<Rightarrow> u64) \<Rightarrow> 'a bucket list \<Rightarrow> bool" where
  "robin hs bs \<longleftrightarrow> (\<forall>i<length bs.
     (dib_at bs i \<noteq> 0 \<longrightarrow> in_place hs (length bs) (bs ! i) i) \<and>
     dib_at bs ((i + 1) mod length bs) \<le> dib_at bs i + 1)"

lemma robin_in_place: "robin hs bs \<Longrightarrow> i < length bs \<Longrightarrow> dib_at bs i \<noteq> 0 \<Longrightarrow>
  in_place hs (length bs) (bs ! i) i"
  by (simp add: robin_def)

lemma robin_step: "robin hs bs \<Longrightarrow> i < length bs \<Longrightarrow>
  dib_at bs ((i + 1) mod length bs) \<le> dib_at bs i + 1"
  by (simp add: robin_def)

lemma robin_chain:
  assumes "robin hs bs" "i < length bs"
  shows "dib_at bs ((i + t) mod length bs) \<le> dib_at bs i + t"
proof (induction t)
  case (Suc t)
  have "(i + t) mod length bs < length bs" using assms(2) by (rule mod_lt)
  from robin_step [OF assms(1) this] Suc.IH show ?case
    by (simp add: mod_Suc_eq)
qed (use assms in simp)

lemma length_items: "length (items bs) = card {i. i < length bs \<and> dib_at bs i \<noteq> 0}"
  by (simp add: items_def length_filter_conv_card)

lemma robin_dib_less:
  assumes "robin hs bs" "i < length bs" "z < length bs" "dib_at bs z = 0"
  shows "dib_at bs i < length bs"
proof -
  from cyc_reach [OF assms(3,2)] obtain u where "u < length bs" "(z + u) mod length bs = i"
    by blast
  with robin_chain [OF assms(1,3), of u] assms(4) show ?thesis by simp
qed

text \<open>A distance is at most the number of items.\<close>

lemma robin_dib_le_items:
  assumes r: "robin hs bs" and i: "i < length bs" and z: "z < length bs" "dib_at bs z = 0"
  shows "dib_at bs i \<le> length (items bs)"
proof -
  let ?n = "length bs" and ?d = "dib_at bs i"
  let ?f = "\<lambda>s. (i + ?n - s) mod ?n"
  have dn: "?d < ?n" by (rule robin_dib_less [OF assms])
  have "?f ` {..<?d} \<subseteq> {j. j < ?n \<and> dib_at bs j \<noteq> 0}"
  proof clarify
    fix s assume s: "s < ?d"
    have j: "?f s < ?n" using i by (rule mod_lt)
    have "(?f s + s) mod ?n = i" using s dn i by (simp add: mod_add_left_eq)
    then have "?d \<le> dib_at bs (?f s) + s" using robin_chain [OF r j, of s] by simp
    with s j show "?f s < ?n \<and> dib_at bs (?f s) \<noteq> 0" by auto
  qed
  moreover have "inj_on ?f {..<?d}"
  proof (rule inj_onI)
    fix s t assume st: "s \<in> {..<?d}" "t \<in> {..<?d}" and eq: "?f s = ?f t"
    have "(?f s + s) mod ?n = i" "(?f t + t) mod ?n = i"
      using st dn i by (simp_all add: mod_add_left_eq)
    with eq have "(?f s + s) mod ?n = (?f s + t) mod ?n" by simp
    then have "s mod ?n = t mod ?n" by (rule cyc_cancel)
    with st dn show "s = t" by simp
  qed
  ultimately have "card {..<?d} \<le> card {j. j < ?n \<and> dib_at bs j \<noteq> 0}"
    by (intro card_inj_on_le [of ?f]) auto
  then show ?thesis by (simp add: length_items)
qed

section \<open>Updating one bucket\<close>

lemma mset_items_update:
  assumes "i < length bs"
  shows "mset (items (bs[i := e])) + (if dib_at bs i \<noteq> 0 then {#b_item (bs ! i)#} else {#}) =
    mset (items bs) + (if b_dib e \<noteq> 0 then {#b_item e#} else {#})"
proof -
  have split: "bs = take i bs @ bs ! i # drop (Suc i) bs"
    by (rule id_take_nth_drop [OF assms])
  have "items (bs[i := e]) = items (take i bs) @ items [e] @ items (drop (Suc i) bs)"
    using assms by (simp add: items_def upd_conv_take_nth_drop)
  moreover have "items bs = items (take i bs) @ items [bs ! i] @ items (drop (Suc i) bs)"
    by (subst split) (simp add: items_def)
  ultimately show ?thesis by (simp add: items_def)
qed

lemma items_fill:
  "i < length bs \<Longrightarrow> dib_at bs i = 0 \<Longrightarrow> b_dib e \<noteq> 0 \<Longrightarrow>
   mset (items (bs[i := e])) = add_mset (b_item e) (mset (items bs))"
  using mset_items_update [of i bs e] by simp

lemma items_swap:
  "i < length bs \<Longrightarrow> dib_at bs i \<noteq> 0 \<Longrightarrow> b_dib e \<noteq> 0 \<Longrightarrow>
   add_mset (b_item (bs ! i)) (mset (items (bs[i := e]))) = add_mset (b_item e) (mset (items bs))"
  using mset_items_update [of i bs e] by simp

lemma items_clear:
  "i < length bs \<Longrightarrow> dib_at bs i \<noteq> 0 \<Longrightarrow> b_dib e = 0 \<Longrightarrow>
   add_mset (b_item (bs ! i)) (mset (items (bs[i := e]))) = mset (items bs)"
  using mset_items_update [of i bs e] by simp

text \<open>
  An entry may be written over bucket \<open>i\<close> when it stands there by its own hash, has a larger
  distance than the bucket it displaces and at most one more than the predecessor's.
\<close>

definition fits :: "('a \<Rightarrow> u64) \<Rightarrow> 'a bucket list \<Rightarrow> nat \<Rightarrow> 'a bucket \<Rightarrow> bool" where
  "fits hs bs i e \<longleftrightarrow> in_place hs (length bs) e i \<and>
     (\<forall>j<length bs. (j + 1) mod length bs = i \<longrightarrow> b_dib e \<le> dib_at bs j + 1)"

lemma robin_update:
  assumes r: "robin hs bs" and n: "2 \<le> length bs" and i: "i < length bs"
    and e: "fits hs bs i e" and d: "dib_at bs i < b_dib e"
  shows "robin hs (bs[i := e])"
  unfolding robin_def
proof (intro allI impI conjI)
  fix x assume "x < length (bs[i := e])"
  then have x: "x < length bs" by simp
  let ?y = "(x + 1) mod length bs"
  have y: "?y < length bs" using x by (rule mod_lt)
  show "in_place hs (length (bs[i := e])) (bs[i := e] ! x) x" if "dib_at (bs[i := e]) x \<noteq> 0"
    using that x r e by (cases "x = i") (auto simp: fits_def robin_in_place)
  have step: "dib_at bs ?y \<le> dib_at bs x + 1" by (rule robin_step [OF r x])
  show "dib_at (bs[i := e]) ((x + 1) mod length (bs[i := e])) \<le> dib_at (bs[i := e]) x + 1"
  proof (cases "x = i")
    case True
    with cyc_neq [OF n i] step d i show ?thesis by simp
  next
    case False
    have "b_dib e \<le> dib_at bs x + 1" if "?y = i" using that e x by (simp add: fits_def)
    with False x y i step show ?thesis by (simp add: nth_list_update del: One_nat_def)
  qed
qed

text \<open>Walking on: the entry that continues fits the next bucket.\<close>

lemma bump_dib_Suc: "b_dib e + 1 < 2 ^ 16 \<Longrightarrow> bump_dib e = e\<lparr>b_dib := b_dib e + 1\<rparr>"
  by (simp add: bump_dib_def)

lemma in_place_bump:
  assumes "in_place hs n e i" and "b_dib e + 1 < 2 ^ 16"
  shows "in_place hs n (bump_dib e) ((i + 1) mod n)"
  using assms(1) unfolding bump_dib_Suc [OF assms(2)]
  by (auto simp: in_place_def simp del: One_nat_def intro: cyc_step)

lemma fits_bump:
  assumes "in_place hs (length bs) e i" "i < length bs" and "b_dib e + 1 < 2 ^ 16"
    and "b_dib e \<le> dib_at bs i"
  shows "fits hs bs ((i + 1) mod length bs) (bump_dib e)"
  unfolding fits_def
proof (intro conjI allI impI)
  show "in_place hs (length bs) (bump_dib e) ((i + 1) mod length bs)"
    using assms(1,3) by (rule in_place_bump)
  fix j assume "j < length bs" "(j + 1) mod length bs = (i + 1) mod length bs"
  then have "j = i" by (rule cyc_pred_unique [OF assms(2)])
  then show "b_dib (bump_dib e) \<le> dib_at bs j + 1"
    unfolding bump_dib_Suc [OF assms(3)] using assms(4) by simp
qed

section \<open>Placing an entry\<close>

lemma fits_pos: "fits hs bs i e \<Longrightarrow> 0 < b_dib e"
  by (simp add: fits_def in_place_def)

lemma bump_item [simp]: "b_item (bump_dib b) = b_item b"
  by (simp add: bump_dib_def)

text \<open>
  The state of a placing loop: entry \<open>e\<close> is looking for a bucket from index \<open>i\<close> on, and
  the next empty bucket is at most \<open>u\<close> steps away.
\<close>

definition probing :: "('a \<Rightarrow> u64) \<Rightarrow> nat \<Rightarrow> 'a bucket list \<Rightarrow> nat \<Rightarrow> 'a bucket \<Rightarrow> nat \<Rightarrow> bool" where
  "probing hs n bs i e u \<longleftrightarrow> length bs = n \<and> 2 \<le> n \<and> robin hs bs \<and> i < n \<and> fits hs bs i e \<and>
     length (items bs) + 1 < 2 ^ 16 \<and> (\<exists>v\<le>u. dib_at bs ((i + v) mod n) = 0)"

lemma probing_fill:
  assumes "probing hs n bs i e u" "dib_at bs i = 0"
  shows "robin hs (bs[i := e])" "mset (items (bs[i := e])) = add_mset (b_item e) (mset (items bs))"
  using assms fits_pos [of hs bs i e]
  by (auto simp: probing_def items_fill intro: robin_update)

lemma probing_0: "probing hs n bs i e 0 \<Longrightarrow> dib_at bs i = 0"
  by (auto simp: probing_def)

lemma probing_dib_le:
  assumes "probing hs n bs i e u" shows "dib_at bs i \<le> length (items bs)"
proof -
  from assms obtain v where "dib_at bs ((i + v) mod n) = 0" by (auto simp: probing_def)
  with assms mod_lt [of i n "i + v"] show ?thesis
    using robin_dib_le_items [of hs bs i "(i + v) mod n"] by (simp add: probing_def)
qed

text \<open>While bucket \<open>i\<close> is occupied, the empty one lies ahead of the next index.\<close>

lemma empty_ahead:
  assumes "\<exists>v\<le>Suc u. dib_at bs ((i + v) mod n) = 0" "i < n" "dib_at bs i \<noteq> 0"
  shows "\<exists>v\<le>u. dib_at bs (((i + 1) mod n + v) mod n) = 0"
proof -
  from assms(1) obtain v where v: "v \<le> Suc u" "dib_at bs ((i + v) mod n) = 0" by blast
  with assms(2,3) have "v \<noteq> 0" by (metis add.right_neutral mod_less)
  then obtain w where "v = Suc w" by (cases v) auto
  with v show ?thesis unfolding cyc_shift by auto
qed

lemma probing_swap:
  assumes p: "probing hs n bs i e (Suc u)" and occ: "dib_at bs i \<noteq> 0" and d: "dib_at bs i < b_dib e"
  shows "probing hs n (bs[i := e]) ((i + 1) mod n) (bump_dib (bs ! i)) u"
    and "add_mset (b_item (bs ! i)) (mset (items (bs[i := e]))) = add_mset (b_item e) (mset (items bs))"
proof -
  from p have len: "length bs = n" and n: "2 \<le> n" and r: "robin hs bs" and i: "i < n"
    and e: "fits hs bs i e" and c: "length (items bs) + 1 < 2 ^ 16"
    and z: "\<exists>v\<le>Suc u. dib_at bs ((i + v) mod n) = 0" by (simp_all add: probing_def)
  have c1: "dib_at bs i + 1 < 2 ^ 16" using probing_dib_le [OF p] c by linarith
  show sw: "add_mset (b_item (bs ! i)) (mset (items (bs[i := e]))) = add_mset (b_item e) (mset (items bs))"
    using items_swap [of i bs e] i len occ fits_pos [OF e] by simp
  have "in_place hs n (bs ! i) i" using robin_in_place [OF r] i len occ by simp
  then have f: "fits hs (bs[i := e]) ((i + 1) mod n) (bump_dib (bs ! i))"
    using fits_bump [of hs "bs[i := e]" "bs ! i" i] len i c1 d by simp
  obtain v where v: "v \<le> u" "dib_at bs (((i + 1) mod n + v) mod n) = 0"
    using empty_ahead [OF z i occ] by blast
  then have "dib_at (bs[i := e]) (((i + 1) mod n + v) mod n) = 0"
    using occ by (cases "((i + 1) mod n + v) mod n = i") auto
  with v(1) f show "probing hs n (bs[i := e]) ((i + 1) mod n) (bump_dib (bs ! i)) u"
    using robin_update [of hs bs i e] r n i e d len c mod_lt [OF i] arg_cong [OF sw, of size]
    by (auto simp: probing_def)
qed

lemma probing_walk:
  assumes p: "probing hs n bs i e (Suc u)" and occ: "dib_at bs i \<noteq> 0" and d: "\<not> dib_at bs i < b_dib e"
  shows "probing hs n bs ((i + 1) mod n) (bump_dib e) u"
proof -
  from p have len: "length bs = n" and i: "i < n" and e: "fits hs bs i e"
    and c: "length (items bs) + 1 < 2 ^ 16"
    and z: "\<exists>v\<le>Suc u. dib_at bs ((i + v) mod n) = 0" by (simp_all add: probing_def)
  have c1: "b_dib e + 1 < 2 ^ 16" using probing_dib_le [OF p] c d by linarith
  then have "fits hs bs ((i + 1) mod n) (bump_dib e)"
    using fits_bump [of hs bs e i] e i len d by (simp add: fits_def)
  with p empty_ahead [OF z i occ] mod_lt [OF i] show ?thesis by (simp add: probing_def)
qed

lemma resize_place_ok:
  assumes "probing hs n bs i e u" "n = 2 ^ k"
  shows "\<exists>bs'. resize_place (n - 1) bs i e = Some bs' \<and> length bs' = n \<and> robin hs bs' \<and>
    mset (items bs') = add_mset (b_item e) (mset (items bs))"
  using assms(1)
proof (induction u arbitrary: bs i e)
  case (0 bs i e)
  from probing_fill [OF 0 probing_0 [OF 0]] probing_0 [OF 0] 0 show ?case
    by (subst resize_place.simps) (simp add: probing_def)
next
  case (Suc u bs i e)
  have nxt: "next_index (n - 1) i = (i + 1) mod n" by (rule next_index_mod [OF assms(2)])
  consider (empty) "dib_at bs i = 0" | (swap) "dib_at bs i \<noteq> 0" "dib_at bs i < b_dib e"
    | (walk) "dib_at bs i \<noteq> 0" "\<not> dib_at bs i < b_dib e" by blast
  then show ?case
  proof cases
    case empty
    from probing_fill [OF Suc.prems empty] empty Suc.prems show ?thesis
      by (subst resize_place.simps) (simp add: probing_def)
  next
    case swap
    from Suc.IH [OF probing_swap(1) [OF Suc.prems swap]] probing_swap(2) [OF Suc.prems swap]
      swap nxt show ?thesis
      by (subst resize_place.simps) auto
  next
    case walk
    from Suc.IH [OF probing_walk [OF Suc.prems walk]] walk nxt show ?thesis
      by (subst resize_place.simps) simp
  qed
qed

section \<open>Keys\<close>

text \<open>\<open>keyed key m\<close>: the callbacks of \<open>m\<close> compare and hash items by their key.\<close>

definition keyed :: "('a \<Rightarrow> 'k) \<Rightarrow> 'a hashmap \<Rightarrow> bool" where
  "keyed key m \<longleftrightarrow> (\<forall>a b. items_match m a b \<longleftrightarrow> key a = key b) \<and>
     (\<forall>a b. key a = key b \<longrightarrow> get_hash m a = get_hash m b)"

lemma keyed_match: "keyed key m \<Longrightarrow> items_match m a b \<longleftrightarrow> key a = key b"
  unfolding keyed_def by blast

lemma keyed_hash: "keyed key m \<Longrightarrow> key a = key b \<Longrightarrow> get_hash m a = get_hash m b"
  unfolding keyed_def by blast

lemma keyed_update [simp]:
  "keyed key (m\<lparr>buckets := bs\<rparr>) = keyed key m" "keyed key (m\<lparr>hm_count := c\<rparr>) = keyed key m"
  "keyed key (m\<lparr>oom := b\<rparr>) = keyed key m" "keyed key (m\<lparr>nbuckets := n\<rparr>) = keyed key m"
  "keyed key (m\<lparr>hm_mask := k\<rparr>) = keyed key m" "keyed key (m\<lparr>growat := g\<rparr>) = keyed key m"
  "keyed key (m\<lparr>shrinkat := g\<rparr>) = keyed key m"
  by (simp_all add: keyed_def items_match_def get_hash_def)

lemma distinct_key_mset:
  "mset xs = mset ys \<Longrightarrow> distinct (map key xs) \<longleftrightarrow> distinct (map key ys)"
  by (metis mset_eq_imp_distinct_iff mset_map)

lemma occupied_in_items: "i < length bs \<Longrightarrow> dib_at bs i \<noteq> 0 \<Longrightarrow> b_item (bs ! i) \<in> set (items bs)"
  by (auto simp: items_def)

lemma in_items_index: "x \<in> set (items bs) \<Longrightarrow> \<exists>i<length bs. dib_at bs i \<noteq> 0 \<and> b_item (bs ! i) = x"
  by (auto simp: items_def in_set_conv_nth)

lemma unique_index:
  assumes d: "distinct (map key (items bs))" and i: "i < length bs" "dib_at bs i \<noteq> 0"
    and j: "j < length bs" "dib_at bs j \<noteq> 0" and eq: "key (b_item (bs ! i)) = key (b_item (bs ! j))"
  shows "i = j"
proof (rule ccontr)
  assume ne: "i \<noteq> j"
  let ?bs = "bs[i := (bs ! i)\<lparr>b_dib := 0\<rparr>]"
  have "mset (items bs) = mset (b_item (bs ! i) # items ?bs)"
    using items_clear [OF i, of "(bs ! i)\<lparr>b_dib := 0\<rparr>"] by simp
  with d have "distinct (map key (b_item (bs ! i) # items ?bs))" by (metis distinct_key_mset)
  moreover have "b_item (bs ! j) \<in> set (items ?bs)"
    using occupied_in_items [of j ?bs] j ne by simp
  ultimately show False using eq by auto
qed

section \<open>The insertion loop\<close>

text \<open>On a key that is not in the table the loop of \<^verbatim>\<open>hashmap_set\<close> is the loop of the resize.\<close>

lemma set_loop_absent:
  assumes "probing hs n (buckets m) i e u" "hm_mask m = n - 1" "n = 2 ^ k" "keyed key m"
    and "distinct (map key (b_item e # items (buckets m)))"
  shows "set_loop m i e = map_option (\<lambda>bs. (m\<lparr>buckets := bs, hm_count := hm_count m + 1\<rparr>, None))
    (resize_place (n - 1) (buckets m) i e)"
  using assms
proof (induction u arbitrary: m i e)
  case (0 m i e)
  with probing_0 [OF 0(1)] show ?case
    by (subst set_loop.simps, subst resize_place.simps) (simp add: bucket_at_def)
next
  case (Suc u m i e)
  let ?bs = "buckets m"
  note p = Suc.prems(1) and kd = Suc.prems(4) and d = Suc.prems(5)
  have i: "i < length ?bs" using p by (simp add: probing_def)
  have nxt: "next_index (n - 1) i = (i + 1) mod n" by (rule next_index_mod [OF Suc.prems(3)])
  have nomatch: "\<not> items_match m (b_item e) (b_item (?bs ! i))" if "dib_at ?bs i \<noteq> 0"
    using kd d occupied_in_items [OF i that] by (auto simp: keyed_def)
  consider (empty) "dib_at ?bs i = 0" | (swap) "dib_at ?bs i \<noteq> 0" "dib_at ?bs i < b_dib e"
    | (walk) "dib_at ?bs i \<noteq> 0" "\<not> dib_at ?bs i < b_dib e" by blast
  then show ?case
  proof cases
    case empty
    then show ?thesis
      by (subst set_loop.simps, subst resize_place.simps) (simp add: bucket_at_def)
  next
    case swap
    let ?m = "m\<lparr>buckets := ?bs[i := e]\<rparr>"
    have "mset (b_item (?bs ! i) # items (?bs[i := e])) = mset (b_item e # items ?bs)"
      using probing_swap(2) [OF p swap] by simp
    from distinct_key_mset [OF this, of key] d
    have "distinct (map key (b_item (bump_dib (?bs ! i)) # items (buckets ?m)))" by simp
    then show ?thesis
      using kd Suc.IH [of ?m "(i + 1) mod n" "bump_dib (?bs ! i)"] probing_swap(1) [OF p swap]
        Suc.prems(2,3) swap nomatch nxt
      by (subst set_loop.simps, subst resize_place.simps) (simp add: bucket_at_def)
  next
    case walk
    have "set_loop m ((i + 1) mod n) (bump_dib e) =
        map_option (\<lambda>bs. (m\<lparr>buckets := bs, hm_count := hm_count m + 1\<rparr>, None))
          (resize_place (n - 1) ?bs ((i + 1) mod n) (bump_dib e))"
      by (rule Suc.IH [OF probing_walk [OF p walk] Suc.prems(2-4)]) (use d in simp)
    with walk nomatch nxt Suc.prems(2) show ?thesis
      by (subst set_loop.simps, subst resize_place.simps) (simp add: bucket_at_def)
  qed
qed

section \<open>Probe paths\<close>

text \<open>\<open>clear_path m x i s\<close>: the \<open>s\<close> buckets from \<open>i\<close> on are occupied by other keys than \<open>x\<close>'s.\<close>

definition clear_path :: "'a hashmap \<Rightarrow> 'a \<Rightarrow> nat \<Rightarrow> nat \<Rightarrow> bool" where
  "clear_path m x i s \<longleftrightarrow> (\<forall>t. t < s \<longrightarrow>
     dib_at (buckets m) ((i + t) mod length (buckets m)) \<noteq> 0 \<and>
     \<not> items_match m x (b_item (buckets m ! ((i + t) mod length (buckets m)))))"

lemma clear_path_Suc:
  assumes "clear_path m x i (Suc s)" "i < length (buckets m)"
  shows "dib_at (buckets m) i \<noteq> 0" "\<not> items_match m x (b_item (buckets m ! i))"
    "clear_path m x ((i + 1) mod length (buckets m)) s"
proof -
  show "dib_at (buckets m) i \<noteq> 0" "\<not> items_match m x (b_item (buckets m ! i))"
    using assms by (auto simp: clear_path_def dest: spec [of _ 0])
  show "clear_path m x ((i + 1) mod length (buckets m)) s"
    unfolding clear_path_def
  proof (intro allI impI)
    fix t assume "t < s"
    then have "Suc t < Suc s" by simp
    with assms(1) show "dib_at (buckets m) (((i + 1) mod length (buckets m) + t) mod length (buckets m)) \<noteq> 0 \<and>
      \<not> items_match m x (b_item (buckets m ! (((i + 1) mod length (buckets m) + t) mod length (buckets m))))"
      unfolding clear_path_def cyc_shift by blast
  qed
qed

lemma get_loop_path:
  assumes "clear_path m x i s" "length (buckets m) = n" "n = 2 ^ k" "hm_mask m = n - 1" "i < n"
  shows "get_loop m x h i = get_loop m x h ((i + s) mod n)"
  using assms
proof (induction s arbitrary: i)
  case (Suc s)
  have i': "(i + 1) mod n < n" using Suc.prems(5) by (rule mod_lt)
  have "get_loop m x h i = get_loop m x h ((i + 1) mod n)"
    using clear_path_Suc [OF Suc.prems(1)] Suc.prems(2-5) next_index_mod [OF Suc.prems(3)]
    by (subst get_loop.simps) (simp add: bucket_at_def)
  also have "\<dots> = get_loop m x h (((i + 1) mod n + s) mod n)"
    using Suc.IH [of "(i + 1) mod n"] clear_path_Suc(3) [OF Suc.prems(1)] Suc.prems(2-5) i' by simp
  finally show ?case by (simp only: cyc_shift)
qed simp

lemma delete_loop_path:
  assumes "clear_path m x i s" "length (buckets m) = n" "n = 2 ^ k" "hm_mask m = n - 1" "i < n"
  shows "delete_loop ma m x h i = delete_loop ma m x h ((i + s) mod n)"
  using assms
proof (induction s arbitrary: i)
  case (Suc s)
  have i': "(i + 1) mod n < n" using Suc.prems(5) by (rule mod_lt)
  have "delete_loop ma m x h i = delete_loop ma m x h ((i + 1) mod n)"
    using clear_path_Suc [OF Suc.prems(1)] Suc.prems(2-5) next_index_mod [OF Suc.prems(3)]
    by (subst delete_loop.simps) (simp add: bucket_at_def)
  also have "\<dots> = delete_loop ma m x h (((i + 1) mod n + s) mod n)"
    using Suc.IH [of "(i + 1) mod n"] clear_path_Suc(3) [OF Suc.prems(1)] Suc.prems(2-5) i' by simp
  finally show ?case by (simp only: cyc_shift)
qed simp

lemma set_loop_path:
  assumes "clear_path m (b_item e) i s" "length (buckets m) = n" "n = 2 ^ k" "hm_mask m = n - 1"
    and "i < n" "\<And>t. t < s \<Longrightarrow> b_dib e + t \<le> dib_at (buckets m) ((i + t) mod n)"
    and "b_dib e + s < 2 ^ 16"
  shows "set_loop m i e = set_loop m ((i + s) mod n) (e\<lparr>b_dib := b_dib e + s\<rparr>)"
  using assms
proof (induction s arbitrary: i e)
  case (Suc s)
  have i': "(i + 1) mod n < n" using Suc.prems(5) by (rule mod_lt)
  have bump: "bump_dib e = e\<lparr>b_dib := b_dib e + 1\<rparr>"
    by (rule bump_dib_Suc) (use Suc.prems(7) in simp)
  have "\<not> dib_at (buckets m) i < b_dib e" using Suc.prems(5) Suc.prems(6) [of 0] by simp
  then have "set_loop m i e = set_loop m ((i + 1) mod n) (bump_dib e)"
    using clear_path_Suc [OF Suc.prems(1)] Suc.prems(2-5) next_index_mod [OF Suc.prems(3)]
    by (subst set_loop.simps) (simp add: bucket_at_def)
  also have "\<dots> = set_loop m (((i + 1) mod n + s) mod n) ((bump_dib e)\<lparr>b_dib := b_dib (bump_dib e) + s\<rparr>)"
  proof (rule Suc.IH)
    fix t assume "t < s"
    then show "b_dib (bump_dib e) + t \<le> dib_at (buckets m) (((i + 1) mod n + t) mod n)"
      using Suc.prems(6) [of "Suc t"] unfolding cyc_shift bump by simp
  qed (use clear_path_Suc(3) [OF Suc.prems(1)] Suc.prems i' in \<open>simp_all add: bump\<close>)
  finally show ?case unfolding cyc_shift bump by simp
qed simp

section \<open>Closing the gap after a deletion\<close>

text \<open>The array with a gap at \<open>q\<close>: the invariant holds for all other buckets.\<close>

definition gap :: "('a \<Rightarrow> u64) \<Rightarrow> 'a bucket list \<Rightarrow> nat \<Rightarrow> bool" where
  "gap hs bs q \<longleftrightarrow> q < length bs \<and> 2 \<le> length bs \<and>
     (\<forall>i<length bs. i \<noteq> q \<longrightarrow> dib_at bs i \<noteq> 0 \<longrightarrow> in_place hs (length bs) (bs ! i) i) \<and>
     (\<forall>i<length bs. i \<noteq> q \<longrightarrow> (i + 1) mod length bs \<noteq> q \<longrightarrow>
        dib_at bs ((i + 1) mod length bs) \<le> dib_at bs i + 1) \<and>
     (\<forall>j<length bs. (j + 1) mod length bs = q \<longrightarrow>
        dib_at bs ((q + 1) mod length bs) \<le> dib_at bs j + 2)"

abbreviation vacate :: "'a bucket list \<Rightarrow> nat \<Rightarrow> 'a bucket list" where
  "vacate bs q \<equiv> bs[q := (bs ! q)\<lparr>b_dib := 0\<rparr>]"

lemma gap_init:
  assumes r: "robin hs bs" and q: "q < length bs" and n: "2 \<le> length bs"
  shows "gap hs (vacate bs q) q"
proof -
  have ne: "(q + 1) mod length bs \<noteq> q" by (rule cyc_neq [OF n q])
  have far: "dib_at bs ((q + 1) mod length bs) \<le> dib_at bs j + 2"
    if "j < length bs" "(j + 1) mod length bs = q" for j
    using robin_step [OF r q] robin_step [OF r that(1), unfolded that(2)] by linarith
  have jq: "j \<noteq> q" if "(j + 1) mod length bs = q" for j using that ne by auto
  show ?thesis
    unfolding gap_def length_list_update
  proof (intro conjI allI impI)
    fix j assume j: "j < length bs" "(j + 1) mod length bs = q"
    have "vacate bs q ! ((q + 1) mod length bs) = bs ! ((q + 1) mod length bs)"
      using ne by (intro nth_list_update_neq) simp
    moreover have "vacate bs q ! j = bs ! j"
      using jq [OF j(2)] by (intro nth_list_update_neq) simp
    ultimately show "dib_at (vacate bs q) ((q + 1) mod length bs) \<le> dib_at (vacate bs q) j + 2"
      using far [OF j] by (simp only:)
  qed (use q n robin_in_place [OF r] robin_step [OF r] in \<open>simp_all del: One_nat_def\<close>)
qed

lemma gap_close:
  assumes g: "gap hs bs q" and d: "dib_at bs ((q + 1) mod length bs) \<le> 1"
  shows "robin hs (vacate bs q)"
proof -
  have q: "q < length bs" and n: "2 \<le> length bs" using g by (simp_all add: gap_def)
  have ne: "(q + 1) mod length bs \<noteq> q" by (rule cyc_neq [OF n q])
  have "dib_at (vacate bs q) ((i + 1) mod length bs) \<le> dib_at (vacate bs q) i + 1"
    if i: "i < length bs" for i
  proof -
    consider "i = q" | "(i + 1) mod length bs = q" | "i \<noteq> q" "(i + 1) mod length bs \<noteq> q" by blast
    then show ?thesis
    proof cases
      case 1
      then show ?thesis using d ne q by (simp add: nth_list_update del: One_nat_def)
    next
      case 2
      then show ?thesis using q by (simp add: nth_list_update del: One_nat_def)
    next
      case 3
      then show ?thesis using g i by (simp add: gap_def nth_list_update del: One_nat_def)
    qed
  qed
  with g show ?thesis by (auto simp: robin_def gap_def nth_list_update)
qed

lemma in_place_back:
  assumes "in_place hs n b ((q + 1) mod n)" "1 < b_dib b" "q < n"
  shows "in_place hs n (b\<lparr>b_dib := b_dib b - 1\<rparr>) q"
proof -
  have "(unat (b_hash b) + b_dib b) mod n = ((q + 1) mod n + 1) mod n"
    using assms(1) unfolding in_place_def by blast
  moreover have "unat (b_hash b) + b_dib b = Suc (unat (b_hash b) + (b_dib b - 1))"
    using assms(2) by simp
  ultimately have "Suc (unat (b_hash b) + (b_dib b - 1)) mod n = Suc ((q + 1) mod n) mod n"
    by (simp only: Suc_eq_plus1)
  from Suc_mod_cancel [OF this] assms show ?thesis by (auto simp: in_place_def)
qed

lemma gap_move:
  assumes g: "gap hs bs q" and d: "1 < dib_at bs ((q + 1) mod length bs)"
  defines "q' \<equiv> (q + 1) mod length bs"
  defines "bs' \<equiv> bs[q := (bs ! q')\<lparr>b_dib := dib_at bs q' - 1\<rparr>]"
  shows "gap hs bs' q'" and "mset (items (vacate bs' q')) = mset (items (vacate bs q))"
proof -
  let ?n = "length bs" and ?b = "(bs ! q')\<lparr>b_dib := dib_at bs q' - 1\<rparr>"
  have q: "q < ?n" and n: "2 \<le> ?n" using g by (simp_all add: gap_def)
  have ne: "q' \<noteq> q" unfolding q'_def by (rule cyc_neq [OF n q])
  have q': "q' < ?n" unfolding q'_def using q by (rule mod_lt)
  have d': "1 < dib_at bs q'" using d by (simp add: q'_def)
  have len: "length bs' = ?n" by (simp add: bs'_def)
  have at: "bs' ! i = (if i = q then ?b else bs ! i)" if "i < ?n" for i
    using that by (auto simp: bs'_def)
  have "in_place hs ?n (bs ! q') q'" using g q' ne d' by (simp add: gap_def)
  then have b: "in_place hs ?n ?b q" using in_place_back d' q unfolding q'_def by blast
  show "gap hs bs' q'"
    unfolding gap_def len
  proof (intro conjI allI impI)
    fix i assume i: "i < ?n" "i \<noteq> q'" "dib_at bs' i \<noteq> 0"
    then show "in_place hs ?n (bs' ! i) i" using g b by (auto simp: at gap_def split: if_splits)
  next
    fix i assume i: "i < ?n" "i \<noteq> q'" and s: "(i + 1) mod ?n \<noteq> q'"
    then have iq: "i \<noteq> q" by (auto simp: q'_def)
    have si: "(i + 1) mod ?n < ?n" using i(1) by (rule mod_lt)
    show "dib_at bs' ((i + 1) mod ?n) \<le> dib_at bs' i + 1"
    proof (cases "(i + 1) mod ?n = q")
      case True
      with g i(1) have "dib_at bs q' \<le> dib_at bs i + 2" by (simp add: gap_def q'_def)
      with True si i(1) iq show ?thesis by (simp add: at del: One_nat_def)
    next
      case False
      with g i(1) iq have "dib_at bs ((i + 1) mod ?n) \<le> dib_at bs i + 1" by (simp add: gap_def)
      with False si i(1) iq show ?thesis by (simp add: at del: One_nat_def)
    qed
  next
    fix j assume j: "j < ?n" "(j + 1) mod ?n = q'"
    then have "j = q" using cyc_pred_unique [OF q j(1)] by (simp add: q'_def)
    moreover have s: "(q' + 1) mod ?n < ?n" using q' by (rule mod_lt)
    moreover have "dib_at bs ((q' + 1) mod ?n) \<le> dib_at bs q' + 1" if "(q' + 1) mod ?n \<noteq> q"
      using g q' ne that by (simp add: gap_def)
    ultimately show "dib_at bs' ((q' + 1) mod ?n) \<le> dib_at bs' j + 2"
      using d' q by (auto simp: at simp del: One_nat_def)
  qed (use q' n in auto)
  have "mset (items bs') = add_mset (b_item (bs ! q')) (mset (items (vacate bs q)))"
    using items_fill [of q "vacate bs q" ?b] q d' by (simp add: bs'_def)
  moreover have "add_mset (b_item (bs' ! q')) (mset (items (vacate bs' q'))) = mset (items bs')"
    using items_clear [of q' bs' "(bs' ! q')\<lparr>b_dib := 0\<rparr>"] q' len at [OF q'] ne d' by simp
  ultimately show "mset (items (vacate bs' q')) = mset (items (vacate bs q))"
    using at [OF q'] ne by simp
qed

lemma shift_loop_ok:
  assumes "gap hs bs q" "length bs = n" "n = 2 ^ k"
    and "\<exists>v\<le>u. dib_at bs (((q + 1) mod n + v) mod n) = 0 \<and> ((q + 1) mod n + v) mod n \<noteq> q"
  shows "\<exists>bs'. shift_loop (n - 1) bs q = Some bs' \<and> length bs' = n \<and> robin hs bs' \<and>
    mset (items bs') = mset (items (vacate bs q))"
  using assms
proof (induction u arbitrary: bs q)
  case (0 bs q)
  then have "dib_at bs ((q + 1) mod n) = 0" by simp
  with gap_close [of hs bs q] 0(1,2) next_index_mod [OF 0(3), of q] show ?case
    by (subst shift_loop.simps) simp
next
  case (Suc u bs q)
  let ?q' = "(q + 1) mod n"
  have q: "q < n" using Suc.prems(1,2) by (simp add: gap_def)
  have nxt: "next_index (n - 1) q = ?q'" by (rule next_index_mod [OF Suc.prems(3)])
  show ?case
  proof (cases "dib_at bs ?q' \<le> 1")
    case True
    with gap_close [of hs bs q] Suc.prems(1,2) nxt show ?thesis
      by (subst shift_loop.simps) simp
  next
    case False
    let ?bs = "bs[q := (bs ! ?q')\<lparr>b_dib := dib_at bs ?q' - 1\<rparr>]"
    note mv = gap_move [OF Suc.prems(1), unfolded Suc.prems(2)]
    from Suc.prems(4) obtain v where v: "v \<le> Suc u" "dib_at bs ((?q' + v) mod n) = 0"
      and vq: "(?q' + v) mod n \<noteq> q" by blast
    have "v \<noteq> 0" using v(2) False mod_lt [OF q] by (metis add.right_neutral le_numeral_extra(3)
        mod_less not_one_le_zero zero_le_one le0)
    then obtain w where w: "v = Suc w" by (cases v) auto
    have "(?q' + v) mod n \<noteq> ?q'" using v(2) False by auto
    moreover have "dib_at ?bs ((?q' + v) mod n) = 0" using v(2) vq by simp
    moreover have "((?q' + 1) mod n + w) mod n = (?q' + v) mod n" unfolding w by (rule cyc_shift)
    ultimately have "\<exists>v\<le>u. dib_at ?bs (((?q' + 1) mod n + v) mod n) = 0 \<and>
        ((?q' + 1) mod n + v) mod n \<noteq> ?q'"
      using v(1) w by (intro exI [of _ w]) (simp del: One_nat_def)
    with Suc.IH [of ?bs ?q'] mv False Suc.prems(2,3)
    obtain bs' where "shift_loop (n - 1) ?bs ?q' = Some bs'" "length bs' = n" "robin hs bs'"
      "mset (items bs') = mset (items (vacate bs q))" by auto
    with False nxt show ?thesis by (subst shift_loop.simps) simp
  qed
qed

end
