(* ===== verification/Hashmap_Map.thy ===== *)
theory Hashmap_Map
  imports Hashmap_Robin
begin

text \<open>
  The hash map as a finite map. \<open>hm_inv\<close> is the invariant of the whole struct, \<open>hm_lookup\<close>
  its abstraction to a partial function from keys to items. Every operation of
  \<^verbatim>\<open>hashmap.c\<close> that the daemon uses is shown to return, to keep \<open>hm_inv\<close> and to refine the
  operation on partial functions; an allocation failure leaves the contents unchanged. The
  locale \<open>item_store\<close> is the contract the route database and the event dispatcher rely on.
\<close>

section \<open>Invariant and abstraction\<close>

definition hm_inv :: "('a \<Rightarrow> 'k) \<Rightarrow> 'a hashmap \<Rightarrow> bool" where
  "hm_inv key m \<longleftrightarrow> (\<exists>k\<ge>4. nbuckets m = 2 ^ k) \<and> (\<exists>c\<ge>4. cap m = 2 ^ c) \<and>
     length (buckets m) = nbuckets m \<and> hm_mask m = nbuckets m - 1 \<and>
     hm_count m = length (items (buckets m)) \<and> hm_count m < nbuckets m \<and>
     growat m < nbuckets m \<and> shrinkat m * 2 < nbuckets m \<and> 1 \<le> growpower m \<and>
     keyed key m \<and> robin (get_hash m) (buckets m) \<and> distinct (map key (items (buckets m)))"

definition hm_lookup :: "('a \<Rightarrow> 'k) \<Rightarrow> 'a hashmap \<Rightarrow> 'k \<rightharpoonup> 'a" where
  "hm_lookup key m = map_of (map (\<lambda>x. (key x, x)) (items (buckets m)))"

lemma lookup_items_Some:
  "distinct (map key xs) \<Longrightarrow> map_of (map (\<lambda>x. (key x, x)) xs) k = Some x \<longleftrightarrow> x \<in> set xs \<and> key x = k"
  by (subst map_of_eq_Some_iff) (auto simp: comp_def)

lemma hm_lookup_Some:
  "hm_inv key m \<Longrightarrow> hm_lookup key m k = Some x \<longleftrightarrow> x \<in> set (items (buckets m)) \<and> key x = k"
  by (simp add: hm_inv_def hm_lookup_def lookup_items_Some)

lemma hm_lookup_None:
  "hm_lookup key m k = None \<longleftrightarrow> k \<notin> key ` set (items (buckets m))"
  by (auto simp: hm_lookup_def map_of_eq_None_iff image_image)

lemma hm_lookup_eqI:
  assumes "hm_inv key m" and "\<And>k x. f k = Some x \<longleftrightarrow> x \<in> set (items (buckets m)) \<and> key x = k"
  shows "hm_lookup key m = f"
proof
  fix k
  show "hm_lookup key m k = f k"
    using hm_lookup_Some [OF assms(1), of k] assms(2) [of k]
    by (metis not_None_eq)
qed

lemma hm_inv_occupied:
  "hm_inv key m \<Longrightarrow> x \<in> set (items (buckets m)) \<Longrightarrow>
   \<exists>p<nbuckets m. dib_at (buckets m) p \<noteq> 0 \<and> b_item (buckets m ! p) = x"
  using in_items_index [of x "buckets m"] by (auto simp: hm_inv_def)

lemma exists_empty:
  assumes "length (items bs) < length bs"
  shows "\<exists>z<length bs. dib_at bs z = 0"
proof (rule ccontr)
  assume "\<not> ?thesis"
  then have "filter (\<lambda>b. b_dib b \<noteq> 0) bs = bs"
    by (auto simp: filter_id_conv in_set_conv_nth)
  with assms show False by (simp add: items_def)
qed

lemma empty_from:
  assumes "length (items bs) < length bs" "i < length bs"
  shows "\<exists>v. dib_at bs ((i + v) mod length bs) = 0"
proof -
  obtain z where z: "z < length bs" "dib_at bs z = 0" using exists_empty [OF assms(1)] by blast
  with cyc_reach [OF assms(2) z(1)] show ?thesis by auto
qed

section \<open>Construction\<close>

lemma round_cap_exact: "j \<le> k \<Longrightarrow> round_cap (2 ^ j) (2 ^ k) = 2 ^ k"
proof (induction "k - j" arbitrary: j)
  case 0
  then show ?case by (simp add: round_cap.simps)
next
  case (Suc d)
  then have "j < k" by simp
  with Suc.hyps(1) [of "Suc j"] Suc.hyps(2) show ?case
    by (subst round_cap.simps) (simp add: mult.commute)
qed

lemma round_cap_pow2: "4 \<le> j \<Longrightarrow> \<exists>k\<ge>4. round_cap (2 ^ j) c = 2 ^ k"
proof (induction "c - 2 ^ j" arbitrary: j rule: less_induct)
  case less
  show ?case
  proof (cases "2 ^ j < c")
    case True
    then have "c - 2 ^ Suc j < c - 2 ^ j" by (intro diff_less_mono2) auto
    from less.hyps [OF this] less.prems True show ?thesis
      by (subst round_cap.simps) (simp add: mult.commute)
  next
    case False
    with less.prems show ?thesis by (subst round_cap.simps) auto
  qed
qed

lemma hashmap_new_fields:
  assumes "hashmap_new_with_allocator ma es cp s0 s1 h c z = Some m"
  shows "\<exists>k\<ge>4. nbuckets m = 2 ^ k" "cap m = nbuckets m" "buckets m = replicate (nbuckets m) (empty_bucket z)"
    "hm_mask m = nbuckets m - 1" "hm_count m = 0" "growat m = nbuckets m * 60 div 100"
    "shrinkat m = nbuckets m * 10 div 100" "growpower m = 1" "seed0 m = s0" "seed1 m = s1"
    "hm_hash m = h" "hm_compare m = c" "elzero m = z" "oom m = False"
    "\<And>k. 4 \<le> k \<Longrightarrow> cp = 2 ^ k \<Longrightarrow> nbuckets m = 2 ^ k"
proof -
  have "(if cp < 16 then 16 else round_cap 16 cp) = (16::nat) \<or>
      (\<exists>k\<ge>4. (if cp < 16 then 16 else round_cap 16 cp) = (2::nat) ^ k)"
    using round_cap_pow2 [of 4 cp] by simp
  then show "\<exists>k\<ge>4. nbuckets m = 2 ^ k"
    using assms by (auto simp: hashmap_new_with_allocator_def Let_def split: if_splits intro: exI [of _ 4])
  show "nbuckets m = 2 ^ k" if k: "4 \<le> k" "cp = 2 ^ k" for k
  proof -
    have "(16::nat) \<le> 2 ^ k" using power_increasing [OF k(1), of "2::nat"] by simp
    then show ?thesis
      using assms k round_cap_exact [OF k(1)]
      by (auto simp: hashmap_new_with_allocator_def Let_def split: if_splits)
  qed
qed (use assms in \<open>auto simp: hashmap_new_with_allocator_def Let_def split: if_splits\<close>)

lemma items_replicate_empty [simp]: "items (replicate n (empty_bucket z)) = []"
  by (auto simp: items_def empty_bucket_def)

lemma robin_replicate_empty: "robin hs (replicate n (empty_bucket z))"
proof -
  have "(i + 1) mod n < n" if "i < n" for i using that by (rule mod_lt)
  then show ?thesis by (auto simp: robin_def empty_bucket_def)
qed

lemma hashmap_new_inv:
  assumes new: "hashmap_new_with_allocator ma es cp s0 s1 h (Some c) z = Some m"
    and cmp: "\<And>a b. c a b = 0 \<longleftrightarrow> key a = key b"
    and hash: "\<And>a b. key a = key b \<Longrightarrow> h a s0 s1 = h b s0 s1"
  shows "hm_inv key m" "hm_lookup key m = Map.empty"
proof -
  note f = hashmap_new_fields [OF new]
  obtain k where k: "4 \<le> k" "nbuckets m = 2 ^ k" using f(1) by blast
  then have thr: "nbuckets m * 60 div 100 < nbuckets m" "nbuckets m * 10 div 100 * 2 < nbuckets m"
    using power_increasing [OF k(1), of "2::nat"] by auto
  have "get_hash m a = get_hash m b" if "key a = key b" for a b
    using hash [OF that] by (simp add: get_hash_def f(9-11))
  moreover have "items_match m a b \<longleftrightarrow> key a = key b" for a b
    by (simp add: items_match_def f(12) cmp)
  ultimately have "keyed key m" unfolding keyed_def by blast
  with thr k show "hm_inv key m"
    by (auto simp: hm_inv_def robin_replicate_empty f(2-8))
  show "hm_lookup key m = Map.empty" using f by (simp add: hm_lookup_def)
qed

section \<open>Resizing\<close>

lemma resize_all_ok:
  assumes "length bs2 = n" "n = 2 ^ k" "2 \<le> n" "robin hs bs2"
    and "length (items bs2) + length (items es) < n"
    and "length (items bs2) + length (items es) < 2 ^ 16"
    and "\<And>e. e \<in> set es \<Longrightarrow> b_dib e \<noteq> 0 \<Longrightarrow> b_hash e = hs (b_item e)"
  shows "\<exists>bs. resize_all (n - 1) bs2 es = Some bs \<and> length bs = n \<and> robin hs bs \<and>
    mset (items bs) = mset (items bs2) + mset (items es)"
  using assms
proof (induction es arbitrary: bs2)
  case Nil
  then show ?case by (simp add: items_def)
next
  case (Cons e es)
  show ?case
  proof (cases "b_dib e = 0")
    case True
    then have "items (e # es) = items es" by (simp add: items_def)
    with Cons True show ?thesis by simp
  next
    case False
    let ?i = "unat (b_hash e) mod n" and ?e = "e\<lparr>b_dib := 1\<rparr>"
    have it: "items (e # es) = b_item e # items es" using False by (simp add: items_def)
    have i: "?i < n" using Cons.prems(3) by (intro mod_less_divisor) simp
    have hash: "b_hash e = hs (b_item e)" using Cons.prems(7) [of e] False by simp
    obtain v where v: "dib_at bs2 ((?i + v) mod n) = 0"
      using empty_from [of bs2 ?i] Cons.prems(1,5) i by auto
    have "in_place hs n ?e ?i" using hash by (simp add: in_place_def mod_Suc_eq)
    then have "probing hs n bs2 ?i ?e v"
      using Cons.prems(1,3,4,6) it i v by (auto simp: probing_def fits_def)
    from resize_place_ok [OF this Cons.prems(2)] obtain bs where
      bs: "resize_place (n - 1) bs2 ?i ?e = Some bs" "length bs = n" "robin hs bs"
        "mset (items bs) = add_mset (b_item e) (mset (items bs2))" by auto
    have sz: "length (items bs) = Suc (length (items bs2))"
      using arg_cong [OF bs(4), of size] by simp
    with Cons.IH [of bs] bs(2,3) Cons.prems(2-7) it obtain bs' where
      "resize_all (n - 1) bs es = Some bs'" "length bs' = n" "robin hs bs'"
      "mset (items bs') = mset (items bs) + mset (items es)" by auto
    with bs it False hash_index_mod [OF Cons.prems(2)] show ?thesis by simp
  qed
qed

lemma resize_ok:
  assumes inv: "hm_inv key m" and k: "4 \<le> k" "new_cap = 2 ^ k"
    and c: "hm_count m < new_cap" "hm_count m < 2 ^ 16"
  shows "(resize ma m new_cap = Some (m, False) \<and> \<not> (\<forall>n. ma n)) \<or>
    (\<exists>m'. resize ma m new_cap = Some (m', True) \<and> hm_inv key m' \<and> nbuckets m' = new_cap \<and>
      mset (items (buckets m')) = mset (items (buckets m)) \<and> oom m' = oom m \<and> hm_count m' = hm_count m \<and> get_hash m' = get_hash m)"
proof (cases "hashmap_new_with_allocator ma (elsize m) new_cap (seed0 m) (seed1 m)
    (hm_hash m) (hm_compare m) (elzero m)")
  case None
  then have "\<not> (\<forall>n. ma n)"
    by (auto simp: hashmap_new_with_allocator_def Let_def split: if_splits)
  with None show ?thesis by (simp add: resize_def resize0_def)
next
  case (Some m2)
  note f = hashmap_new_fields [OF Some]
  have n: "nbuckets m2 = new_cap" using f(15) k by simp
  have n16: "16 \<le> new_cap" using power_increasing [OF k(1), of "2::nat"] k(2) by simp
  have "\<exists>bs. resize_all (new_cap - 1) (buckets m2) (buckets m) = Some bs \<and> length bs = new_cap \<and>
      robin (get_hash m) bs \<and> mset (items bs) = mset (items (buckets m2)) + mset (items (buckets m))"
  proof (rule resize_all_ok [OF _ k(2)])
    fix e assume "e \<in> set (buckets m)" "b_dib e \<noteq> 0"
    then show "b_hash e = get_hash m (b_item e)"
      using inv by (auto simp: in_set_conv_nth hm_inv_def robin_def in_place_def)
  qed (use f n n16 c inv in \<open>auto simp: robin_replicate_empty hm_inv_def\<close>)
  then obtain bs where bs: "resize_all (new_cap - 1) (buckets m2) (buckets m) = Some bs"
    "length bs = new_cap" "robin (get_hash m) bs" "mset (items bs) = mset (items (buckets m))"
    using f by auto
  let ?m = "m\<lparr>buckets := bs, nbuckets := nbuckets m2, hm_mask := hm_mask m2,
    growat := growat m2, shrinkat := shrinkat m2\<rparr>"
  have "resize ma m new_cap = Some (?m, True)"
    using Some bs f n by (simp add: resize_def resize0_def)
  moreover have gh: "get_hash ?m = get_hash m" by (rule ext) (simp add: get_hash_def)
  moreover have "hm_inv key ?m"
  proof -
    have "length (items bs) = length (items (buckets m))" using bs(4) by (metis size_mset)
    moreover have "distinct (map key (items bs))"
      using inv distinct_key_mset [OF bs(4), of key] by (simp add: hm_inv_def)
    ultimately show ?thesis
      using inv bs f n n16 c(1) k gh by (auto simp: hm_inv_def)
  qed
  ultimately show ?thesis using n bs(4) by auto
qed

section \<open>Probing for a key\<close>

lemma clip_get_hash [simp]: "clip_hash (get_hash m x) = get_hash m x"
  by (simp add: get_hash_def clip_hash_def and.assoc)

lemma hm_invD:
  assumes "hm_inv key m"
  shows "\<exists>k\<ge>4. nbuckets m = 2 ^ k" "length (buckets m) = nbuckets m" "hm_mask m = nbuckets m - 1"
    "hm_count m = length (items (buckets m))" "hm_count m < nbuckets m"
    "keyed key m" "robin (get_hash m) (buckets m)" "distinct (map key (items (buckets m)))"
    "2 \<le> nbuckets m" "growat m < nbuckets m"
proof -
  show k: "\<exists>k\<ge>4. nbuckets m = 2 ^ k" using assms by (simp add: hm_inv_def)
  then obtain k where "4 \<le> k" "nbuckets m = 2 ^ k" by blast
  then show "2 \<le> nbuckets m" using power_increasing [of 4 k "2::nat"] by simp
qed (use assms in \<open>simp_all add: hm_inv_def\<close>)

text \<open>The home bucket of an item: where every probe for its key starts.\<close>

definition home :: "'a hashmap \<Rightarrow> 'a \<Rightarrow> nat" where
  "home m x = unat (get_hash m x) mod nbuckets m"

lemma home_less: "hm_inv key m \<Longrightarrow> home m x < nbuckets m"
  using hm_invD(9) [of key m] by (simp add: home_def)

lemma home_index: "hm_inv key m \<Longrightarrow> hash_index (hm_mask m) (get_hash m x) = home m x"
  using hm_invD(1,3) [of key m] hash_index_mod unfolding home_def by metis

text \<open>
  A stored key is reached from its home over occupied buckets with other keys, whose
  distances are at least that of the probing entry.
\<close>

lemma probe_present:
  assumes inv: "hm_inv key m" and p: "p < nbuckets m" "dib_at (buckets m) p \<noteq> 0"
    and k: "key (b_item (buckets m ! p)) = key x"
  defines "s \<equiv> dib_at (buckets m) p - 1"
  shows "(home m x + s) mod nbuckets m = p" "clear_path m x (home m x) s"
    "\<And>t. t < s \<Longrightarrow> 1 + t \<le> dib_at (buckets m) ((home m x + t) mod nbuckets m)"
    "b_hash (buckets m ! p) = get_hash m x"
proof -
  note I = hm_invD [OF inv]
  let ?bs = "buckets m" and ?n = "nbuckets m"
  have ip: "in_place (get_hash m) ?n (?bs ! p) p"
    using robin_in_place [OF I(7)] p I(2) by simp
  show h: "b_hash (?bs ! p) = get_hash m x"
    using ip keyed_hash [OF I(6) k] by (simp add: in_place_def)
  have "(unat (get_hash m x) + dib_at ?bs p) mod ?n = (p + 1) mod ?n"
    using ip unfolding in_place_def h by blast
  moreover have "unat (get_hash m x) + dib_at ?bs p = Suc (unat (get_hash m x) + s)"
    using p(2) by (simp add: s_def)
  ultimately have "Suc (unat (get_hash m x) + s) mod ?n = Suc p mod ?n" by simp
  from Suc_mod_cancel [OF this] p(1) show ps: "(home m x + s) mod ?n = p"
    by (simp add: home_def mod_add_left_eq)
  have far: "1 + t \<le> dib_at ?bs ((home m x + t) mod ?n) \<and> (home m x + t) mod ?n \<noteq> p" if t: "t < s" for t
  proof -
    let ?j = "(home m x + t) mod ?n"
    have j: "?j < ?n" using p(1) by (rule mod_lt)
    have "(?j + (s - t)) mod ?n = (home m x + t + (s - t)) mod ?n" by (rule mod_add_left_eq)
    also have "\<dots> = p" using ps t by simp
    finally have "(?j + (s - t)) mod ?n = p" .
    with robin_chain [OF I(7), of ?j "s - t"] j I(2) t
    have "1 + t \<le> dib_at ?bs ?j" by (simp add: s_def)
    moreover have "?j \<noteq> p"
    proof
      assume "?j = p"
      with ps have "t mod ?n = s mod ?n" using cyc_cancel [of "home m x" t ?n s] by simp
      moreover have "s < ?n"
        using robin_dib_less [OF I(7)] exists_empty [of ?bs] I(2,4,5) p(1) by (force simp: s_def)
      ultimately show False using t by simp
    qed
    ultimately show ?thesis by blast
  qed
  then show "\<And>t. t < s \<Longrightarrow> 1 + t \<le> dib_at ?bs ((home m x + t) mod ?n)" by blast
  have "\<not> items_match m x (b_item (?bs ! ((home m x + t) mod ?n)))" if t: "t < s" for t
  proof
    assume "items_match m x (b_item (?bs ! ((home m x + t) mod ?n)))"
    then have "key (b_item (?bs ! p)) = key (b_item (?bs ! ((home m x + t) mod ?n)))"
      using keyed_match [OF I(6)] k by simp
    then have "p = (home m x + t) mod ?n"
      using unique_index [OF I(8)] p far [OF t] mod_lt [OF p(1)] I(2) by auto
    with far [OF t] show False by simp
  qed
  with far I(2) show "clear_path m x (home m x) s" by (fastforce simp: clear_path_def)
qed

lemma probe_absent:
  assumes inv: "hm_inv key m" and k: "key x \<notin> key ` set (items (buckets m))"
  shows "\<exists>s. clear_path m x (home m x) s \<and> dib_at (buckets m) ((home m x + s) mod nbuckets m) = 0"
proof -
  note I = hm_invD [OF inv]
  let ?P = "\<lambda>s. dib_at (buckets m) ((home m x + s) mod nbuckets m) = 0"
  have "\<exists>s. ?P s" using empty_from [of "buckets m" "home m x"] home_less [OF inv, of x] I(2,4,5) by simp
  then obtain s where s: "?P s" "\<And>t. t < s \<Longrightarrow> \<not> ?P t" using exists_least_iff [of ?P] by blast
  have "\<not> items_match m x (b_item (buckets m ! ((home m x + t) mod nbuckets m)))" if "t < s" for t
    using occupied_in_items [of "(home m x + t) mod nbuckets m" "buckets m"] s(2) [OF that]
      mod_lt [OF home_less [OF inv]] I(2) k by (auto simp: keyed_match [OF I(6)])
  with s I(2) show ?thesis by (auto simp: clear_path_def)
qed

section \<open>Lookup\<close>

theorem hashmap_get_refines:
  assumes inv: "hm_inv key m"
  shows "\<exists>r. hashmap_get m x = Some r \<and> map_option (item_at m) r = hm_lookup key m (key x) \<and>
    (\<forall>i. r = Some i \<longrightarrow> i < nbuckets m \<and> dib_at (buckets m) i \<noteq> 0)"
proof -
  note I = hm_invD [OF inv]
  obtain k where n: "nbuckets m = 2 ^ k" using I(1) by blast
  have g: "hashmap_get m x = get_loop m x (get_hash m x) (home m x)"
    by (simp add: hashmap_get_def hashmap_get_with_hash_def home_index [OF inv])
  note walk = get_loop_path [OF _ I(2) n I(3) home_less [OF inv], of x]
  show ?thesis
  proof (cases "hm_lookup key m (key x)")
    case None
    then obtain s where s: "clear_path m x (home m x) s"
      "dib_at (buckets m) ((home m x + s) mod nbuckets m) = 0"
      using probe_absent [OF inv] by (auto simp: hm_lookup_None)
    have "hashmap_get m x = Some None"
      unfolding g walk [OF s(1)] by (subst get_loop.simps) (simp add: bucket_at_def s(2))
    with None show ?thesis by simp
  next
    case (Some y)
    then have "y \<in> set (items (buckets m))" "key y = key x"
      using hm_lookup_Some [OF inv] by auto
    then obtain p where p: "p < nbuckets m" "dib_at (buckets m) p \<noteq> 0"
      and y: "b_item (buckets m ! p) = y" "key (b_item (buckets m ! p)) = key x"
      using hm_inv_occupied [OF inv] by blast
    note pr = probe_present [OF inv p y(2)]
    have "items_match m x y" using keyed_match [OF I(6)] y by simp
    then have "hashmap_get m x = Some (Some p)"
      unfolding g walk [OF pr(2)] pr(1) using pr(4) p y
      by (subst get_loop.simps) (simp add: bucket_at_def)
    with Some p y show ?thesis by (simp add: item_at_def bucket_at_def)
  qed
qed

section \<open>Insertion\<close>

lemma get_hash_buckets [simp]:
  "get_hash (m\<lparr>buckets := bs\<rparr>) = get_hash m" "get_hash (m\<lparr>hm_count := c\<rparr>) = get_hash m"
  "get_hash (m\<lparr>oom := b\<rparr>) = get_hash m"
  by (simp_all add: get_hash_def fun_eq_iff)

lemma hm_inv_oom [simp]: "hm_inv key (m\<lparr>oom := b\<rparr>) = hm_inv key m"
  and hm_lookup_oom [simp]: "hm_lookup key (m\<lparr>oom := b\<rparr>) = hm_lookup key m"
  by (simp_all add: hm_inv_def hm_lookup_def)

text \<open>The insertion loop, once there is room for one more item.\<close>

lemma set_loop_new:
  assumes inv: "hm_inv key m" and new: "key x \<notin> key ` set (items (buckets m))"
    and room: "hm_count m + 1 < nbuckets m" and c: "hm_count m + 1 < 2 ^ 16"
  shows "\<exists>m'. set_loop m (home m x) \<lparr>b_hash = get_hash m x, b_dib = 1, b_item = x\<rparr> = Some (m', None) \<and>
    hm_inv key m' \<and> mset (items (buckets m')) = add_mset x (mset (items (buckets m))) \<and> oom m' = oom m"
proof -
  note I = hm_invD [OF inv]
  obtain k where n: "nbuckets m = 2 ^ k" using I(1) by blast
  let ?e = "\<lparr>b_hash = get_hash m x, b_dib = 1, b_item = x\<rparr>" and ?bs = "buckets m"
  have h: "home m x < nbuckets m" by (rule home_less [OF inv])
  obtain v where "dib_at ?bs ((home m x + v) mod nbuckets m) = 0"
    using empty_from [of ?bs "home m x"] h I(2,4,5) by auto
  moreover have "in_place (get_hash m) (nbuckets m) ?e (home m x)"
    by (simp add: in_place_def home_def mod_Suc_eq)
  ultimately have p: "probing (get_hash m) (nbuckets m) ?bs (home m x) ?e v"
    using I c h by (auto simp: probing_def fits_def)
  from resize_place_ok [OF p n] obtain bs where bs:
    "resize_place (nbuckets m - 1) ?bs (home m x) ?e = Some bs" "length bs = nbuckets m"
    "robin (get_hash m) bs" "mset (items bs) = mset (x # items ?bs)" by auto
  have d: "distinct (map key (x # items ?bs))" using I(8) new by simp
  let ?m = "m\<lparr>buckets := bs, hm_count := hm_count m + 1\<rparr>"
  have "set_loop m (home m x) ?e = Some (?m, None)"
    using set_loop_absent [OF p I(3) n I(6)] d bs(1) by simp
  moreover have "length (items bs) = Suc (length (items ?bs))"
    using arg_cong [OF bs(4), of size] by simp
  then have "hm_inv key ?m"
    using inv bs room d distinct_key_mset [OF bs(4), of key] I(4) by (simp add: hm_inv_def)
  ultimately show ?thesis using bs(4) by auto
qed

lemma set_loop_replace:
  assumes inv: "hm_inv key m" and c: "hm_count m < 2 ^ 16"
    and p: "p < nbuckets m" "dib_at (buckets m) p \<noteq> 0"
    and k: "key (b_item (buckets m ! p)) = key x"
  shows "set_loop m (home m x) \<lparr>b_hash = get_hash m x, b_dib = 1, b_item = x\<rparr> =
    Some (modify_at m p (\<lambda>_. x), Some (b_item (buckets m ! p)))"
proof -
  note I = hm_invD [OF inv] and pr = probe_present [OF inv p k]
  obtain kk where n: "nbuckets m = 2 ^ kk" using I(1) by blast
  let ?e = "\<lparr>b_hash = get_hash m x, b_dib = 1, b_item = x\<rparr>" and ?d = "dib_at (buckets m) p"
  obtain z where z: "z < nbuckets m" "dib_at (buckets m) z = 0"
    using exists_empty [of "buckets m"] I(2,4,5) by auto
  have "?d \<le> hm_count m"
    using robin_dib_le_items [OF I(7), of p z] p(1) z I(2,4) by simp
  then have "set_loop m (home m x) ?e =
      set_loop m ((home m x + (?d - 1)) mod nbuckets m) (?e\<lparr>b_dib := b_dib ?e + (?d - 1)\<rparr>)"
    using pr(2,3) c p(2)
    by (intro set_loop_path [OF _ I(2) n I(3) home_less [OF inv]]) auto
  also have "\<dots> = set_loop m p (?e\<lparr>b_dib := ?d\<rparr>)" using pr(1) p(2) by simp
  also have "\<dots> = Some (modify_at m p (\<lambda>_. x), Some (b_item (buckets m ! p)))"
    using p(2) pr(4) keyed_match [OF I(6)] k
    by (subst set_loop.simps) (simp add: bucket_at_def modify_at_def Let_def)
  finally show ?thesis .
qed

text \<open>Writing through a pointer into the table, without touching the key.\<close>

lemma modify_at_ok:
  assumes inv: "hm_inv key m" and i: "i < nbuckets m" "dib_at (buckets m) i \<noteq> 0"
    and k: "key (f (item_at m i)) = key (item_at m i)"
  shows "hm_inv key (modify_at m i f)"
    and "hm_lookup key (modify_at m i f) = (hm_lookup key m)(key (item_at m i) \<mapsto> f (item_at m i))"
proof -
  note I = hm_invD [OF inv]
  let ?bs = "buckets m" and ?x = "item_at m i"
  let ?b = "(?bs ! i)\<lparr>b_item := f ?x\<rparr>"
  have x: "b_item (?bs ! i) = ?x" by (simp add: item_at_def bucket_at_def)
  have bs: "buckets (modify_at m i f) = ?bs[i := ?b]" by (simp add: modify_at_def bucket_at_def)
  have ms: "add_mset ?x (mset (items (?bs[i := ?b]))) = add_mset (f ?x) (mset (items ?bs))"
    using items_swap [of i ?bs ?b] i I(2) x by simp
  have keys: "mset (map key (items (?bs[i := ?b]))) = mset (map key (items ?bs))"
    using arg_cong [OF ms, of "image_mset key"] k by simp
  have "in_place (get_hash m) (length ?bs) (?bs ! i) i" using robin_in_place [OF I(7)] i I(2) by simp
  then have "in_place (get_hash m) (length ?bs) ?b i"
    using keyed_hash [OF I(6) k] x by (auto simp: in_place_def)
  then have "robin (get_hash m) (?bs[i := ?b])"
    using I(2,7) i mod_lt [of _ "length ?bs"]
    by (auto simp: robin_def nth_list_update)
  moreover have "length (items (?bs[i := ?b])) = length (items ?bs)"
    using arg_cong [OF keys, of size] by simp
  moreover have "distinct (map key (items (?bs[i := ?b])))"
    using I(8) mset_eq_imp_distinct_iff [OF keys] by simp
  ultimately show inv': "hm_inv key (modify_at m i f)"
    using inv by (simp add: hm_inv_def modify_at_def bucket_at_def)
  have old: "?x \<in> set (items ?bs)" using occupied_in_items [of i ?bs] i I(2) x by simp
  have new: "f ?x \<in> set (items (?bs[i := ?b]))"
    using occupied_in_items [of i "?bs[i := ?b]"] i I(2) by simp
  show "hm_lookup key (modify_at m i f) = (hm_lookup key m)(key ?x \<mapsto> f ?x)"
  proof (rule hm_lookup_eqI [OF inv'], unfold bs)
    fix k y
    have "y \<in> set (items (?bs[i := ?b])) \<longleftrightarrow> y \<in> set (items ?bs)" if "key y \<noteq> key ?x"
    proof -
      have "insert ?x (set (items (?bs[i := ?b]))) = insert (f ?x) (set (items ?bs))"
        using arg_cong [OF ms, of set_mset] by simp
      moreover have "y \<noteq> ?x" "y \<noteq> f ?x" using that k by auto
      ultimately show ?thesis by blast
    qed
    moreover have "y = f ?x" if "y \<in> set (items (?bs[i := ?b]))" "key y = key ?x"
      using hm_invD(8) [OF inv', unfolded bs] new that k by (auto simp: distinct_map inj_on_def)
    ultimately show "((hm_lookup key m)(key ?x \<mapsto> f ?x)) k = Some y \<longleftrightarrow>
        y \<in> set (items (?bs[i := ?b])) \<and> key y = k"
      using new k hm_lookup_Some [OF inv, of k y] by auto
  qed
qed

text \<open>Growing before an insertion: there is room afterwards, or the allocation failed.\<close>

lemma grow_ok:
  fixes ma :: "nat \<Rightarrow> bool"
  assumes inv: "hm_inv key m" and c: "hm_count m + 1 < 2 ^ 16"
  defines "r \<equiv> (if hm_count m \<ge> growat m then resize ma m (nbuckets m * 2 ^ growpower m)
    else Some (m, True))"
  shows "(r = Some (m, False) \<and> growat m \<le> hm_count m \<and> \<not> (\<forall>n. ma n)) \<or>
    (\<exists>m'. r = Some (m', True) \<and> hm_inv key m' \<and> hm_count m' + 1 < nbuckets m' \<and>
      hm_count m' = hm_count m \<and> mset (items (buckets m')) = mset (items (buckets m)) \<and> oom m' = oom m \<and>
      get_hash m' = get_hash m)"
proof (cases "hm_count m \<ge> growat m")
  case False
  with inv hm_invD(10) [OF inv] show ?thesis by (auto simp: r_def)
next
  case True
  obtain k where k: "4 \<le> k" "nbuckets m = 2 ^ k" using hm_invD(1) [OF inv] by blast
  let ?nc = "nbuckets m * 2 ^ growpower m"
  have nc: "?nc = 2 ^ (k + growpower m)" using k(2) by (simp add: power_add)
  have g: "(2::nat) \<le> 2 ^ growpower m"
    using inv power_increasing [of 1 "growpower m" "2::nat"] by (simp add: hm_inv_def)
  then have "nbuckets m * 2 \<le> ?nc" by (rule mult_le_mono2)
  then have room: "hm_count m + 1 < ?nc" using hm_invD(5,9) [OF inv] by linarith
  from resize_ok [OF inv _ nc, of ma] k(1) room c True show ?thesis by (auto simp: r_def)
qed

lemma set_room_refines:
  assumes inv: "hm_inv key m" and c: "hm_count m + 1 < 2 ^ 16" and room: "hm_count m + 1 < nbuckets m"
  shows "\<exists>m'. set_loop m (home m x) \<lparr>b_hash = get_hash m x, b_dib = 1, b_item = x\<rparr> =
      Some (m', hm_lookup key m (key x)) \<and> hm_inv key m' \<and> oom m' = oom m \<and>
      hm_lookup key m' = (hm_lookup key m)(key x \<mapsto> x)"
proof (cases "hm_lookup key m (key x)")
  case None
  then have "key x \<notin> key ` set (items (buckets m))" by (simp add: hm_lookup_None)
  from set_loop_new [OF inv this room c] obtain m' where m':
    "set_loop m (home m x) \<lparr>b_hash = get_hash m x, b_dib = 1, b_item = x\<rparr> = Some (m', None)"
    "hm_inv key m'" "mset (items (buckets m')) = add_mset x (mset (items (buckets m)))" "oom m' = oom m"
    by blast
  have st: "set (items (buckets m')) = insert x (set (items (buckets m)))"
    using arg_cong [OF m'(3), of set_mset] by simp
  have fresh: "key y \<noteq> key x" if "y \<in> set (items (buckets m))" for y
    using that None unfolding hm_lookup_None by (metis image_eqI)
  have "hm_lookup key m' = (hm_lookup key m)(key x \<mapsto> x)"
    by (rule hm_lookup_eqI [OF m'(2)])
      (use fresh hm_lookup_Some [OF inv] st in \<open>auto dest: fresh\<close>)
  with m' None show ?thesis by auto
next
  case (Some y)
  then have "y \<in> set (items (buckets m))" "key y = key x" using hm_lookup_Some [OF inv] by auto
  then obtain p where p: "p < nbuckets m" "dib_at (buckets m) p \<noteq> 0"
    and y: "b_item (buckets m ! p) = y" "key (b_item (buckets m ! p)) = key x"
    using hm_inv_occupied [OF inv] by blast
  have it: "item_at m p = y" using y by (simp add: item_at_def bucket_at_def)
  have "key ((\<lambda>_. x) (item_at m p)) = key (item_at m p)" using y it by simp
  note md = modify_at_ok [OF inv p this]
  have "set_loop m (home m x) \<lparr>b_hash = get_hash m x, b_dib = 1, b_item = x\<rparr> =
      Some (modify_at m p (\<lambda>_. x), Some y)"
    using set_loop_replace [OF inv _ p y(2)] c y by simp
  with md Some it y show ?thesis by (simp add: modify_at_def)
qed

theorem hashmap_set_refines:
  assumes inv: "hm_inv key m" and c: "hm_count m + 1 < 2 ^ 16"
  shows "\<exists>m' old. hashmap_set ma m x = Some (m', old) \<and> hm_inv key m' \<and>
    (if oom m' then old = None \<and> hm_lookup key m' = hm_lookup key m \<and> growat m \<le> hm_count m \<and>
       \<not> (\<forall>n. ma n)
     else old = hm_lookup key m (key x) \<and> hm_lookup key m' = (hm_lookup key m)(key x \<mapsto> x))"
proof -
  let ?m0 = "m\<lparr>oom := False\<rparr>"
  have inv0: "hm_inv key ?m0" and c0: "hm_count ?m0 + 1 < 2 ^ 16" using inv c by simp_all
  let ?r = "if hm_count ?m0 \<ge> growat ?m0 then resize ma ?m0 (nbuckets ?m0 * 2 ^ growpower ?m0)
    else Some (?m0, True)"
  have s: "hashmap_set ma m x = (case ?r of None \<Rightarrow> None | Some (m1, ok) \<Rightarrow>
      if \<not> ok then Some (m1\<lparr>oom := True\<rparr>, None)
      else set_loop m1 (hash_index (hm_mask m1) (get_hash m x))
        \<lparr>b_hash = get_hash m x, b_dib = 1, b_item = x\<rparr>)"
    by (simp add: hashmap_set_def hashmap_set_with_hash_def Let_def split: option.splits)
  from grow_ok [OF inv0 c0, of ma] show ?thesis
  proof (elim disjE conjE exE)
    assume "?r = Some (?m0, False)" "growat ?m0 \<le> hm_count ?m0" "\<not> (\<forall>n. ma n)"
    then show ?thesis using inv s by simp
  next
    fix m1 assume r: "?r = Some (m1, True)" and inv1: "hm_inv key m1"
      and room: "hm_count m1 + 1 < nbuckets m1" and cnt: "hm_count m1 = hm_count ?m0"
      and ms: "mset (items (buckets m1)) = mset (items (buckets ?m0))" and om: "oom m1 = oom ?m0"
      and gh: "get_hash m1 = get_hash ?m0"
    have "set (items (buckets m1)) = set (items (buckets m))"
      using arg_cong [OF ms, of set_mset] by simp
    then have lk: "hm_lookup key m1 = hm_lookup key m"
      using hm_lookup_Some [OF inv] by (intro hm_lookup_eqI [OF inv1]) auto
    from set_room_refines [OF inv1 _ room, of x] c cnt lk om s r gh home_index [OF inv1, of x]
    show ?thesis by auto
  qed
qed

section \<open>Deletion\<close>

lemma same_items_lookup:
  assumes "hm_inv key m" "hm_inv key m'" "mset (items (buckets m')) = mset (items (buckets m))"
  shows "hm_lookup key m' = hm_lookup key m"
proof -
  have "set (items (buckets m')) = set (items (buckets m))"
    using arg_cong [OF assms(3), of set_mset] by simp
  then show ?thesis using hm_lookup_Some [OF assms(1)] by (intro hm_lookup_eqI [OF assms(2)]) auto
qed

text \<open>Closing the gap at an occupied bucket removes exactly its item.\<close>

lemma close_gap_ok:
  assumes inv: "hm_inv key m" and p: "p < nbuckets m" "dib_at (buckets m) p \<noteq> 0"
  defines "x \<equiv> item_at m p"
  shows "\<exists>bs. shift_loop (hm_mask m) (vacate (buckets m) p) p = Some bs \<and>
    hm_inv key (m\<lparr>buckets := bs, hm_count := hm_count m - 1\<rparr>) \<and>
    hm_lookup key (m\<lparr>buckets := bs, hm_count := hm_count m - 1\<rparr>) = (hm_lookup key m)(key x := None)"
proof -
  note I = hm_invD [OF inv]
  let ?bs = "buckets m" and ?n = "nbuckets m"
  obtain k where k: "?n = 2 ^ k" using I(1) by blast
  obtain z where z: "z < ?n" "dib_at ?bs z = 0" using exists_empty [of ?bs] I(2,4,5) by auto
  have p1: "(p + 1) mod ?n < ?n" by (rule mod_lt [OF p(1)])
  obtain v where v: "((p + 1) mod ?n + v) mod ?n = z" using cyc_reach [OF p1 z(1)] by blast
  have zp: "z \<noteq> p" using z p by auto
  then have "dib_at (vacate ?bs p) z = 0" using z by (simp add: nth_list_update)
  with zp
  have e: "\<exists>w\<le>v. dib_at (vacate ?bs p) (((p + 1) mod ?n + w) mod ?n) = 0 \<and>
      ((p + 1) mod ?n + w) mod ?n \<noteq> p" using v by blast
  have g: "gap (get_hash m) (vacate ?bs p) p" using gap_init [OF I(7)] p I(2,9) by simp
  from shift_loop_ok [OF g _ k e] I(2,3) p(1) obtain bs where bs:
    "shift_loop (hm_mask m) (vacate ?bs p) p = Some bs" "length bs = ?n" "robin (get_hash m) bs"
    "mset (items bs) = mset (items (vacate ?bs p))" by auto
  have ms: "add_mset x (mset (items bs)) = mset (items ?bs)"
    using items_clear [of p ?bs "(?bs ! p)\<lparr>b_dib := 0\<rparr>"] p I(2) bs(4)
    by (simp add: x_def item_at_def bucket_at_def)
  have ln: "length (items ?bs) = Suc (length (items bs))" using arg_cong [OF ms, of size] by simp
  have "mset (key x # map key (items bs)) = mset (map key (items ?bs))"
    using arg_cong [OF ms, of "image_mset key"] by simp
  then have d: "distinct (key x # map key (items bs))" using I(8) mset_eq_imp_distinct_iff by blast
  let ?m = "m\<lparr>buckets := bs, hm_count := hm_count m - 1\<rparr>"
  have inv': "hm_inv key ?m" using inv bs(2,3) d ln by (auto simp: hm_inv_def)
  have st: "set (items ?bs) = insert x (set (items bs))"
    using arg_cong [OF ms, of set_mset] by simp
  have "hm_lookup key ?m = (hm_lookup key m)(key x := None)"
    by (rule hm_lookup_eqI [OF inv'])
      (use hm_lookup_Some [OF inv] st d in \<open>auto simp: image_iff\<close>)
  with bs(1) inv' show ?thesis by blast
qed

lemma shrink_ok:
  assumes inv: "hm_inv key m" and c: "hm_count m < 2 ^ 16"
    and s: "cap m < nbuckets m" "hm_count m \<le> shrinkat m"
  shows "\<exists>m' ok. resize ma m (nbuckets m div 2) = Some (m', ok) \<and> hm_inv key m' \<and>
    hm_lookup key m' = hm_lookup key m \<and> oom m' = oom m"
proof -
  obtain k where k: "4 \<le> k" "nbuckets m = 2 ^ k" using hm_invD(1) [OF inv] by blast
  obtain d where d: "4 \<le> d" "cap m = 2 ^ d" using inv by (auto simp: hm_inv_def)
  have "d < k" using s(1) k d by simp
  then obtain j where j: "k = Suc j" "4 \<le> j" using d by (cases k) auto
  have h: "nbuckets m div 2 = 2 ^ j" using k j by simp
  have "shrinkat m * 2 < nbuckets m" using inv by (simp add: hm_inv_def)
  then have "hm_count m < nbuckets m div 2" using s(2) k j by (simp add: hm_inv_def)
  from resize_ok [OF inv j(2) h this c, of ma] show ?thesis
  proof (elim disjE conjE exE)
    fix m' assume "hm_inv key m'" "mset (items (buckets m')) = mset (items (buckets m))"
    moreover from this have "hm_lookup key m' = hm_lookup key m" by (rule same_items_lookup [OF inv])
    moreover assume "resize ma m (nbuckets m div 2) = Some (m', True)" "oom m' = oom m"
    ultimately show ?thesis by blast
  qed (use inv in blast)
qed

theorem hashmap_delete_refines:
  assumes inv: "hm_inv key m" and c: "hm_count m < 2 ^ 16"
  shows "\<exists>m'. hashmap_delete ma m x = Some (m', hm_lookup key m (key x)) \<and> hm_inv key m' \<and>
    hm_lookup key m' = (hm_lookup key m)(key x := None) \<and> \<not> oom m'"
proof -
  let ?m0 = "m\<lparr>oom := False\<rparr>"
  have inv0: "hm_inv key ?m0" and lk0: "hm_lookup key ?m0 = hm_lookup key m"
    using inv by (simp_all add: hm_lookup_def)
  note I = hm_invD [OF inv0]
  obtain k where k: "nbuckets ?m0 = 2 ^ k" using I(1) by blast
  have gh: "get_hash ?m0 = get_hash m" by simp
  have d: "hashmap_delete ma m x = delete_loop ma ?m0 x (get_hash ?m0 x) (home ?m0 x)"
    using home_index [OF inv0, of x]
    by (simp add: hashmap_delete_def hashmap_delete_with_hash_def Let_def)
  note path = delete_loop_path [OF _ I(2) k I(3) home_less [OF inv0]]
  show ?thesis
  proof (cases "hm_lookup key m (key x)")
    case None
    then have "key x \<notin> key ` set (items (buckets ?m0))" by (simp add: hm_lookup_None)
    from probe_absent [OF inv0 this] obtain s where s: "clear_path ?m0 x (home ?m0 x) s"
      "dib_at (buckets ?m0) ((home ?m0 x + s) mod nbuckets ?m0) = 0" by blast
    have "hashmap_delete ma m x = Some (?m0, None)"
      unfolding d path [OF s(1)] using s(2) by (subst delete_loop.simps) (simp add: bucket_at_def)
    with None inv0 lk0 show ?thesis by (auto simp: fun_upd_idem)
  next
    case (Some y)
    then have "y \<in> set (items (buckets ?m0))" and ky: "key y = key x"
      using hm_lookup_Some [OF inv] by auto
    then obtain p where p: "p < nbuckets ?m0" "dib_at (buckets ?m0) p \<noteq> 0"
      and y: "b_item (buckets ?m0 ! p) = y" using hm_inv_occupied [OF inv0] by blast
    have ky': "key (b_item (buckets ?m0 ! p)) = key x" using y ky by simp
    note pp = probe_present [OF inv0 p ky']
    from close_gap_ok [OF inv0 p] obtain bs where
      bs: "shift_loop (hm_mask ?m0) (vacate (buckets ?m0) p) p = Some bs" by blast
    let ?m1 = "?m0\<lparr>buckets := bs, hm_count := hm_count ?m0 - 1\<rparr>"
    have m1: "hm_inv key ?m1" "hm_lookup key ?m1 = (hm_lookup key m)(key x := None)"
      using close_gap_ok [OF inv0 p] bs y ky lk0 by (simp_all add: item_at_def bucket_at_def)
    have dl: "hashmap_delete ma m x = (if nbuckets ?m1 > cap ?m1 \<and> hm_count ?m1 \<le> shrinkat ?m1
        then (case resize ma ?m1 (nbuckets ?m1 div 2) of None \<Rightarrow> None | Some (m2, ok) \<Rightarrow> Some (m2, Some y))
        else Some (?m1, Some y))"
      unfolding d path [OF pp(2)] pp(1) using p bs y ky pp(4) keyed_match [OF I(6), of x y]
      by (subst delete_loop.simps) (auto simp: bucket_at_def Let_def split: option.splits)
    have c1: "hm_count ?m1 < 2 ^ 16" using c by simp
    show ?thesis
    proof (cases "nbuckets ?m1 > cap ?m1 \<and> hm_count ?m1 \<le> shrinkat ?m1")
      case True
      with shrink_ok [OF m1(1) c1, of ma] obtain m2 ok where "resize ma ?m1 (nbuckets ?m1 div 2) = Some (m2, ok)"
        "hm_inv key m2" "hm_lookup key m2 = hm_lookup key ?m1" "oom m2 = oom ?m1" by blast
      with dl True m1 Some show ?thesis by simp
    qed (use dl m1 Some in auto)
  qed
qed

section \<open>Iteration, counting, clearing\<close>

lemma hm_count_card:
  assumes inv: "hm_inv key m"
  shows "hashmap_count m = card (dom (hm_lookup key m))"
proof -
  note I = hm_invD [OF inv]
  have "dom (hm_lookup key m) = set (map key (items (buckets m)))"
    unfolding dom_def set_eq_iff mem_Collect_eq hm_lookup_None by simp
  then have "card (dom (hm_lookup key m)) = length (items (buckets m))"
    using I(8) distinct_card by fastforce
  then show ?thesis using I(4) by (simp add: hashmap_count_def)
qed

lemma hashmap_iter_spec:
  "case hashmap_iter m i of
     (c, None) \<Rightarrow> c = max i (nbuckets m) \<and> (\<forall>j. i \<le> j \<and> j < nbuckets m \<longrightarrow> dib_at (buckets m) j = 0)
   | (c, Some p) \<Rightarrow> c = p + 1 \<and> i \<le> p \<and> p < nbuckets m \<and> dib_at (buckets m) p \<noteq> 0 \<and>
       (\<forall>j. i \<le> j \<and> j < p \<longrightarrow> dib_at (buckets m) j = 0)"
proof (induction m i rule: hashmap_iter.induct)
  case (1 m i)
  consider "nbuckets m \<le> i" | "i < nbuckets m" "dib_at (buckets m) i = 0"
    | "i < nbuckets m" "dib_at (buckets m) i \<noteq> 0" by fastforce
  then show ?case
  proof cases
    case 2
    have le: "(i \<le> j) = (j = i \<or> i + 1 \<le> j)" for j by auto
    from 2 1 have "hashmap_iter m i = hashmap_iter m (i + 1)"
      by (subst hashmap_iter.simps) (simp add: bucket_at_def)
    with 1 2 show ?thesis
      by (auto simp: bucket_at_def le split: prod.splits option.splits simp del: One_nat_def)
  qed (subst hashmap_iter.simps; auto simp: bucket_at_def)+
qed

text \<open>The items an iteration still has to visit when its cursor is at \<open>c\<close>.\<close>

definition hm_pending :: "'a hashmap \<Rightarrow> nat \<Rightarrow> 'a list" where
  "hm_pending m c = items (drop c (buckets m))"

definition hm_valid :: "'a hashmap \<Rightarrow> nat \<Rightarrow> bool" where
  "hm_valid m p \<longleftrightarrow> p < nbuckets m \<and> dib_at (buckets m) p \<noteq> 0"

lemma items_drop_empty:
  assumes "\<And>j. i \<le> j \<Longrightarrow> j < p \<Longrightarrow> dib_at bs j = 0" "i \<le> p" "p \<le> length bs"
  shows "items (drop i bs) = items (drop p bs)"
  using assms
proof (induction "p - i" arbitrary: i)
  case (Suc d)
  then have i: "i < p" "i < length bs" by auto
  have "items (drop i bs) = items (drop (Suc i) bs)"
    using Suc.prems(1) [of i] i by (simp add: Cons_nth_drop_Suc [symmetric] items_def)
  also have "\<dots> = items (drop p bs)" using Suc i by (intro Suc.hyps(1)) auto
  finally show ?case .
qed simp

lemma hashmap_iter_pending:
  assumes inv: "hm_inv key m"
  shows "case hashmap_iter m c of (c', None) \<Rightarrow> hm_pending m c = []
    | (c', Some p) \<Rightarrow> hm_pending m c = item_at m p # hm_pending m c' \<and> hm_valid m p \<and> p < c'"
proof -
  note I = hm_invD [OF inv]
  obtain c' r where it: "hashmap_iter m c = (c', r)" by fastforce
  note spec = hashmap_iter_spec [where m = m and i = c, unfolded it]
  show ?thesis
  proof (cases r)
    case None
    with spec have "hm_pending m c = items (drop (max c (nbuckets m)) (buckets m))"
      using I(2) items_drop_empty [of c "nbuckets m" "buckets m"]
      by (cases "c \<le> nbuckets m") (auto simp: hm_pending_def)
    with None it I(2) show ?thesis by (simp add: items_def)
  next
    case (Some p)
    with spec have p: "c' = p + 1" "c \<le> p" "p < nbuckets m" "dib_at (buckets m) p \<noteq> 0"
      "\<And>j. c \<le> j \<Longrightarrow> j < p \<Longrightarrow> dib_at (buckets m) j = 0" by auto
    have "hm_pending m c = items (drop p (buckets m))"
      unfolding hm_pending_def using p I(2) by (intro items_drop_empty) auto
    also have "\<dots> = item_at m p # hm_pending m c'"
      using p I(2) by (simp add: Cons_nth_drop_Suc [symmetric] items_def hm_pending_def item_at_def bucket_at_def)
    finally show ?thesis using Some it p by (simp add: hm_valid_def)
  qed
qed

lemma hm_pending_lookup:
  "hm_inv key m \<Longrightarrow> set (hm_pending m 0) = ran (hm_lookup key m)"
  using hm_lookup_Some [of key m] by (auto simp: hm_pending_def ran_def)

lemma items_append: "items (xs @ ys) = items xs @ items ys"
  by (simp add: items_def)

lemma hm_pending_distinct: "hm_inv key m \<Longrightarrow> distinct (map key (hm_pending m c))"
  using items_append [of "take c (buckets m)" "drop c (buckets m)"]
  by (auto simp: hm_inv_def hm_pending_def)

lemma hm_pending_modify: "p < c \<Longrightarrow> hm_pending (modify_at m p f) c = hm_pending m c"
  by (simp add: hm_pending_def modify_at_def)

section \<open>The contract of a store\<close>

text \<open>
  What the route database and the event dispatcher rely on: a store of items that are found
  by key, with insertion that may fail for want of memory, deletion, pointers to the stored
  items and iteration by a cursor.
\<close>

locale item_store =
  fixes inv :: "'s \<Rightarrow> bool"
    and lookup :: "'s \<Rightarrow> 'k \<Rightarrow> 'a option"
    and key :: "'a \<Rightarrow> 'k"
    and room :: "'s \<Rightarrow> bool"
    and failed :: "'s \<Rightarrow> bool"
    and get :: "'s \<Rightarrow> 'a \<Rightarrow> 'p option option"
    and deref :: "'s \<Rightarrow> 'p \<Rightarrow> 'a"
    and put :: "'s \<Rightarrow> 'a \<Rightarrow> ('s \<times> 'a option) option"
    and del :: "'s \<Rightarrow> 'a \<Rightarrow> ('s \<times> 'a option) option"
    and memory :: bool
  assumes lookup_key: "inv s \<Longrightarrow> lookup s k = Some x \<Longrightarrow> key x = k"
    and get_law: "inv s \<Longrightarrow> \<exists>r. get s x = Some r \<and> map_option (deref s) r = lookup s (key x)"
    and put_law: "inv s \<Longrightarrow> room s \<Longrightarrow> \<exists>s' old. put s x = Some (s', old) \<and> inv s' \<and>
      (if failed s' then \<not> memory \<and> old = None \<and> lookup s' = lookup s
       else old = lookup s (key x) \<and> lookup s' = (lookup s)(key x \<mapsto> x))"
    and del_law: "inv s \<Longrightarrow> room s \<Longrightarrow> \<exists>s'. del s x = Some (s', lookup s (key x)) \<and> inv s' \<and>
      lookup s' = (lookup s)(key x := None) \<and> \<not> failed s'"
begin

lemma put_fresh:
  assumes "inv s" "room s" "lookup s (key x) = None"
  shows "\<exists>s'. put s x = Some (s', None) \<and> inv s' \<and> (failed s' \<longrightarrow> \<not> memory) \<and>
    lookup s' = (if failed s' then lookup s else (lookup s)(key x \<mapsto> x))"
  using put_law [OF assms(1,2), of x] assms(3) by (auto split: if_splits)

lemma get_after_put:
  assumes "inv s" "room s" "put s x = Some (s', old)" "\<not> failed s'"
  shows "\<exists>p. get s' x = Some (Some p) \<and> deref s' p = x"
proof -
  from put_law [OF assms(1,2), of x] assms(3,4) have "inv s'" "lookup s' (key x) = Some x" by auto
  with get_law [of s' x] show ?thesis by auto
qed

lemma del_present:
  assumes "inv s" "room s" "lookup s (key x) = Some y"
  shows "\<exists>s'. del s x = Some (s', Some y) \<and> inv s' \<and> lookup s' = (lookup s)(key y := None) \<and> key y = key x"
  using del_law [OF assms(1,2), of x] assms(3) lookup_key [OF assms(1,3)] by auto

text \<open>Moving an item from one store to another with disjoint keys: at most the item is lost.\<close>

lemma transfer:
  assumes "inv s" "room s" "inv g" "room g" "dom (lookup s) \<inter> dom (lookup g) = {}"
    and "lookup s (key x) = Some y"
  shows "\<exists>s' g'. del s x = Some (s', Some y) \<and> put g y = Some (g', None) \<and> inv s' \<and> inv g' \<and>
    lookup s' = (lookup s)(key x := None) \<and> dom (lookup s') \<inter> dom (lookup g') = {} \<and>
    (failed g' \<longrightarrow> \<not> memory) \<and> lookup g' = (if failed g' then lookup g else (lookup g)(key x \<mapsto> y))"
proof -
  from del_present [OF assms(1,2,6)] obtain s' where s': "del s x = Some (s', Some y)" "inv s'"
    "lookup s' = (lookup s)(key x := None)" and k: "key y = key x" by auto
  have "lookup g (key y) = None" using assms(5,6) k by (auto simp: dom_def)
  from put_fresh [OF assms(3,4) this] obtain g' where g': "put g y = Some (g', None)" "inv g'"
    "failed g' \<longrightarrow> \<not> memory" "lookup g' = (if failed g' then lookup g else (lookup g)(key x \<mapsto> y))" unfolding k by blast
  have "dom (lookup s') \<inter> dom (lookup g') = {}"
    unfolding s'(3) g'(4) using assms(5) by (auto simp: dom_def)
  with s' g' show ?thesis by blast
qed

end

locale item_cursor = item_store inv lookup key room failed get deref put del memory
  for inv :: "'s \<Rightarrow> bool"
    and lookup :: "'s \<Rightarrow> 'k \<Rightarrow> 'a option"
    and key :: "'a \<Rightarrow> 'k"
    and room :: "'s \<Rightarrow> bool"
    and failed :: "'s \<Rightarrow> bool"
    and get :: "'s \<Rightarrow> 'a \<Rightarrow> 'p option option"
    and deref :: "'s \<Rightarrow> 'p \<Rightarrow> 'a"
    and put :: "'s \<Rightarrow> 'a \<Rightarrow> ('s \<times> 'a option) option"
    and del :: "'s \<Rightarrow> 'a \<Rightarrow> ('s \<times> 'a option) option"
    and memory :: bool +
  fixes valid :: "'s \<Rightarrow> 'p \<Rightarrow> bool"
    and pending :: "'s \<Rightarrow> nat \<Rightarrow> 'a list"
    and iter :: "'s \<Rightarrow> nat \<Rightarrow> nat \<times> 'p option"
    and modify :: "'s \<Rightarrow> 'p \<Rightarrow> ('a \<Rightarrow> 'a) \<Rightarrow> 's"
  assumes iter_law: "inv s \<Longrightarrow> case iter s c of (c', None) \<Rightarrow> pending s c = []
      | (c', Some p) \<Rightarrow> pending s c = deref s p # pending s c' \<and> valid s p \<and>
          (\<forall>f. pending (modify s p f) c' = pending s c')"
    and pending_all: "inv s \<Longrightarrow> set (pending s 0) = ran (lookup s)"
    and pending_once: "inv s \<Longrightarrow> distinct (map key (pending s c))"
    and write_law: "inv s \<Longrightarrow> valid s p \<Longrightarrow> key (f (deref s p)) = key (deref s p) \<Longrightarrow>
      inv (modify s p f) \<and> lookup (modify s p f) = (lookup s)(key (deref s p) \<mapsto> f (deref s p))"
    and valid_stored: "inv s \<Longrightarrow> valid s p \<Longrightarrow> lookup s (key (deref s p)) = Some (deref s p)"
begin

lemma iter_end: "inv s \<Longrightarrow> iter s c = (c', None) \<Longrightarrow> pending s c = []"
  using iter_law [of s c] by simp

lemma iter_next:
  assumes "inv s" "iter s c = (c', Some p)"
  shows "pending s c = deref s p # pending s c'" "valid s p" "pending (modify s p f) c' = pending s c'"
  using iter_law [OF assms(1), of c] assms(2) by auto

end

lemma hm_valid_stored:
  "hm_inv key m \<Longrightarrow> hm_valid m p \<Longrightarrow> hm_lookup key m (key (item_at m p)) = Some (item_at m p)"
  using occupied_in_items [of p "buckets m"] hm_invD(2) [of key m]
  by (auto simp: hm_lookup_Some hm_valid_def item_at_def bucket_at_def)

interpretation hm: item_cursor "hm_inv key" "hm_lookup key" key "\<lambda>m. hashmap_count m + 1 < 2 ^ 16"
  hashmap_oom hashmap_get item_at "hashmap_set ma" "hashmap_delete ma" "\<forall>n. ma n"
  hm_valid hm_pending hashmap_iter modify_at
  for key :: "'a \<Rightarrow> 'k" and ma :: "nat \<Rightarrow> bool"
proof unfold_locales
  fix s :: "'a hashmap" and k :: 'k and x assume "hm_inv key s" "hm_lookup key s k = Some x"
  then show "key x = k" by (simp add: hm_lookup_Some)
next
  fix s :: "'a hashmap" and x assume "hm_inv key s"
  then show "\<exists>r. hashmap_get s x = Some r \<and> map_option (item_at s) r = hm_lookup key s (key x)"
    using hashmap_get_refines [of key s x] by auto
next
  fix s :: "'a hashmap" and x assume "hm_inv key s" "hashmap_count s + 1 < 2 ^ 16"
  then show "\<exists>s' old. hashmap_set ma s x = Some (s', old) \<and> hm_inv key s' \<and>
      (if hashmap_oom s' then \<not> (\<forall>n. ma n) \<and> old = None \<and> hm_lookup key s' = hm_lookup key s
       else old = hm_lookup key s (key x) \<and> hm_lookup key s' = (hm_lookup key s)(key x \<mapsto> x))"
    using hashmap_set_refines [of key s ma x]
    by (auto simp: hashmap_count_def hashmap_oom_def split: if_splits)
next
  fix s :: "'a hashmap" and x assume "hm_inv key s" "hashmap_count s + 1 < 2 ^ 16"
  then show "\<exists>s'. hashmap_delete ma s x = Some (s', hm_lookup key s (key x)) \<and> hm_inv key s' \<and>
      hm_lookup key s' = (hm_lookup key s)(key x := None) \<and> \<not> hashmap_oom s'"
    using hashmap_delete_refines [of key s ma x] by (simp add: hashmap_count_def hashmap_oom_def)
next
  fix s :: "'a hashmap" and c assume "hm_inv key s"
  then show "case hashmap_iter s c of (c', None) \<Rightarrow> hm_pending s c = []
      | (c', Some p) \<Rightarrow> hm_pending s c = item_at s p # hm_pending s c' \<and> hm_valid s p \<and>
          (\<forall>f. hm_pending (modify_at s p f) c' = hm_pending s c')"
    using hashmap_iter_pending [of key s c] hm_pending_modify
    by (auto split: prod.splits option.splits)
qed (auto simp: hm_pending_lookup hm_pending_distinct hm_valid_stored hm_valid_def
    intro: modify_at_ok)

section \<open>Properties\<close>

text \<open>A map of numbers keyed by themselves, for the examples.\<close>

definition sample_map :: "nat hashmap" where
  "sample_map = the (hashmap_new (\<lambda>_. True) 8 0 0 0 (\<lambda>x _ _. word_of_nat x)
     (Some (\<lambda>a b. int a - int b)) 0)"

lemma sample_map_ok:
  "hm_inv id sample_map" "hm_lookup id sample_map = Map.empty" "hashmap_count sample_map = 0"
proof -
  let ?new = "hashmap_new_with_allocator (\<lambda>_. True) 8 0 0 0 (\<lambda>x _ _. word_of_nat x)
      (Some (\<lambda>a b. int a - int b)) (0::nat)"
  have new: "?new = Some sample_map"
    by (simp add: sample_map_def hashmap_new_def hashmap_new_with_allocator_def Let_def)
  show i: "hm_inv id sample_map" and l: "hm_lookup id sample_map = Map.empty"
    by (rule hashmap_new_inv [OF new]; simp)+
  from hm_count_card [OF i] l show "hashmap_count sample_map = 0" by simp
qed

text \<open>
  C11: lookup. On every map with the invariant \<^verbatim>\<open>hashmap_get\<close> returns (its probe loop ends), and
  it returns a pointer to the item with the key asked for, or null exactly when there is none.
\<close>

theorem hashmap_get_correct:
  assumes "hm_inv key m"
  shows "\<exists>r. hashmap_get m x = Some r \<and> map_option (item_at m) r = hm_lookup key m (key x)"
  using assms by (rule hm.get_law)

theorem hashmap_get_correct_witness:
  "\<exists>r. hashmap_get sample_map 5 = Some r \<and> map_option (item_at sample_map) r = None"
  using hashmap_get_correct [OF sample_map_ok(1), of 5] by (simp add: sample_map_ok)

text \<open>
  C10: insertion. On a map with the invariant and fewer than \<open>2 ^ 16 - 1\<close> items \<^verbatim>\<open>hashmap_set\<close>
  returns and keeps the invariant. Unless growing the table failed for want of memory, which
  is reported and leaves the contents unchanged, the item is stored under its key and the item
  it replaces, if any, is returned.
\<close>

theorem hashmap_set_correct:
  assumes "hm_inv key m" and "hashmap_count m + 1 < 2 ^ 16"
  shows "\<exists>m' old. hashmap_set ma m x = Some (m', old) \<and> hm_inv key m' \<and>
    (if hashmap_oom m' then \<not> (\<forall>n. ma n) \<and> old = None \<and> hm_lookup key m' = hm_lookup key m
     else old = hm_lookup key m (key x) \<and> hm_lookup key m' = (hm_lookup key m)(key x \<mapsto> x))"
  using assms by (rule hm.put_law)

theorem hashmap_set_correct_witness:
  "\<exists>m'. hashmap_set (\<lambda>_. True) sample_map 5 = Some (m', None) \<and> hm_lookup id m' = [5 \<mapsto> 5]"
  using hashmap_set_correct [OF sample_map_ok(1), of "\<lambda>_. True" 5] sample_map_ok by (auto split: if_splits)

text \<open>
  C9: deletion. On a map with the invariant and fewer than \<open>2 ^ 16 - 1\<close> items \<^verbatim>\<open>hashmap_delete\<close>
  returns, keeps the invariant (the backward shift and a possible shrinking included), removes
  exactly the key asked for and returns the item that was stored under it.
\<close>

theorem hashmap_delete_correct:
  assumes "hm_inv key m" and "hashmap_count m + 1 < 2 ^ 16"
  shows "\<exists>m'. hashmap_delete ma m x = Some (m', hm_lookup key m (key x)) \<and> hm_inv key m' \<and>
    hm_lookup key m' = (hm_lookup key m)(key x := None) \<and> \<not> hashmap_oom m'"
  using assms by (rule hm.del_law)

theorem hashmap_delete_correct_witness:
  "\<exists>m'. hashmap_delete (\<lambda>_. True) sample_map 5 = Some (m', None) \<and> hm_lookup id m' = Map.empty"
  using hashmap_delete_correct [OF sample_map_ok(1), of "\<lambda>_. True" 5] sample_map_ok by auto

text \<open>
  C28: iteration. Calls of \<^verbatim>\<open>hashmap_iter\<close> from cursor 0 deliver every stored item exactly once:
  each call takes the first of the items still to come and returns a pointer to it, and the end
  is reported exactly when none is left.
\<close>

theorem hashmap_iter_correct:
  assumes "hm_inv key m"
  shows "set (hm_pending m 0) = ran (hm_lookup key m) \<and> distinct (map key (hm_pending m 0)) \<and>
    (case hashmap_iter m c of
       (c', None) \<Rightarrow> hm_pending m c = []
     | (c', Some p) \<Rightarrow> hm_pending m c = item_at m p # hm_pending m c')"
  using hm.pending_all [OF assms] hm.pending_once [OF assms, of 0] hm.iter_law [OF assms, of c]
  by (auto split: prod.splits option.splits)

theorem hashmap_iter_correct_witness: "hm_pending sample_map 0 = [] \<and> snd (hashmap_iter sample_map 0) = None"
  using hashmap_iter_correct [OF sample_map_ok(1), of 0]
  by (auto simp: sample_map_ok split: prod.splits option.splits)

end
