(* ===== verification/Sip_Hash.thy ===== *)
theory Sip_Hash
  imports Rip_Prelude
begin

text \<open>
  Model of the hash functions of \<^verbatim>\<open>utils/hashmap.c\<close> that the daemon's key functions may call:
  SipHash-2-4 (\<^verbatim>\<open>SIP64\<close>, used for routes and events), Murmur3 (\<^verbatim>\<open>MM86128\<close>) and xxHash
  (\<^verbatim>\<open>xxh3\<close>). A buffer is the list of its bytes; all arithmetic is on words and wraps. SipHash is
  shown to be the function of its published definition; the
  known answers of the test section of \<^verbatim>\<open>hashmap.c\<close> are lemmas.
\<close>

section \<open>Bytes and rotations\<close>

text \<open>\<open>le_word bs\<close> reads the bytes \<open>bs\<close> in little-endian order.\<close>

definition le_word :: "u8 list \<Rightarrow> 'a::len word" where
  "le_word bs = foldr (\<lambda>b acc. ucast b OR push_bit 8 acc) bs 0"

definition le_bytes :: "nat \<Rightarrow> 'a::len word \<Rightarrow> u8 list" where
  "le_bytes n v = map (\<lambda>i. ucast (drop_bit (8 * i) v)) [0..<n]"

definition ROTL :: "u64 \<Rightarrow> nat \<Rightarrow> u64" where
  "ROTL x b = push_bit b x OR drop_bit (64 - b) x"

section \<open>SipHash\<close>

type_synonym sip_state = "u64 \<times> u64 \<times> u64 \<times> u64"

definition SIPROUND :: "sip_state \<Rightarrow> sip_state" where
  "SIPROUND = (\<lambda>(v0, v1, v2, v3).
     let v0 = v0 + v1; v1 = ROTL v1 13;
         v1 = v1 XOR v0; v0 = ROTL v0 32;
         v2 = v2 + v3; v3 = ROTL v3 16;
         v3 = v3 XOR v2;
         v0 = v0 + v3; v3 = ROTL v3 21;
         v3 = v3 XOR v0;
         v2 = v2 + v1; v1 = ROTL v1 17;
         v1 = v1 XOR v2; v2 = ROTL v2 32
     in (v0, v1, v2, v3))"

text \<open>One message word: absorbed into \<open>v3\<close>, two rounds, absorbed into \<open>v0\<close>.\<close>

definition sip_absorb :: "u64 \<Rightarrow> sip_state \<Rightarrow> sip_state" where
  "sip_absorb m = (\<lambda>(v0, v1, v2, v3).
     case SIPROUND (SIPROUND (v0, v1, v2, v3 XOR m)) of (v0, v1, v2, v3) \<Rightarrow> (v0 XOR m, v1, v2, v3))"

text \<open>The loop over the full words; the bytes that are left are returned with the state.\<close>

function sip_words :: "u8 list \<Rightarrow> sip_state \<Rightarrow> sip_state \<times> u8 list" where
  "sip_words bs s = (if length bs < 8 then (s, bs)
     else sip_words (drop 8 bs) (sip_absorb (le_word (take 8 bs)) s))"
  by pat_completeness auto
termination
  by (relation "measure (\<lambda>(bs, s). length bs)") auto

declare sip_words.simps [simp del]

definition SIP64 :: "u8 list \<Rightarrow> u64 \<Rightarrow> u64 \<Rightarrow> u64" where
  "SIP64 input seed0 seed1 =
     (let k0 = seed0; k1 = seed1;
          v3 = 0x7465646279746573 XOR k1;
          v2 = 0x6c7967656e657261 XOR k0;
          v1 = 0x646f72616e646f6d XOR k1;
          v0 = 0x736f6d6570736575 XOR k0;
          (s, left) = sip_words input (v0, v1, v2, v3);
          b = push_bit 56 (word_of_nat (length input)) OR le_word left;
          (v0, v1, v2, v3) = sip_absorb b s;
          v2 = v2 XOR 0xff;
          (v0, v1, v2, v3) = SIPROUND (SIPROUND (SIPROUND (SIPROUND (v0, v1, v2, v3))))
      in v0 XOR v1 XOR v2 XOR v3)"

definition hashmap_sip :: "u8 list \<Rightarrow> u64 \<Rightarrow> u64 \<Rightarrow> u64" where
  "hashmap_sip input seed0 seed1 = SIP64 input seed0 seed1"

section \<open>Murmur3\<close>

definition ROTL32 :: "u32 \<Rightarrow> nat \<Rightarrow> u32" where
  "ROTL32 x r = push_bit r x OR drop_bit (32 - r) x"

definition FMIX32 :: "u32 \<Rightarrow> u32" where
  "FMIX32 h =
     (let h = h XOR drop_bit 16 h; h = h * 0x85ebca6b;
          h = h XOR drop_bit 13 h; h = h * 0xc2b2ae35
      in h XOR drop_bit 16 h)"

definition mm_mix :: "u32 \<Rightarrow> u32 \<Rightarrow> nat \<Rightarrow> u32 \<Rightarrow> u32" where
  "mm_mix k c r c' = ROTL32 (k * c) r * c'"

type_synonym mm_state = "u32 \<times> u32 \<times> u32 \<times> u32"

definition mm_c1 :: u32 where "mm_c1 = 0x239b961b"
definition mm_c2 :: u32 where "mm_c2 = 0xab0e9789"
definition mm_c3 :: u32 where "mm_c3 = 0x38b34ae5"
definition mm_c4 :: u32 where "mm_c4 = 0xa1e38b93"

definition mm_block :: "u8 list \<Rightarrow> mm_state \<Rightarrow> mm_state" where
  "mm_block bs = (\<lambda>(h1, h2, h3, h4).
     let k1 = le_word (take 4 bs); k2 = le_word (take 4 (drop 4 bs));
         k3 = le_word (take 4 (drop 8 bs)); k4 = le_word (take 4 (drop 12 bs));
         h1 = h1 XOR mm_mix k1 mm_c1 15 mm_c2;
         h1 = (ROTL32 h1 19 + h2) * 5 + 0x561ccd1b;
         h2 = h2 XOR mm_mix k2 mm_c2 16 mm_c3;
         h2 = (ROTL32 h2 17 + h3) * 5 + 0x0bcaa747;
         h3 = h3 XOR mm_mix k3 mm_c3 17 mm_c4;
         h3 = (ROTL32 h3 15 + h4) * 5 + 0x96cd1c35;
         h4 = h4 XOR mm_mix k4 mm_c4 18 mm_c1;
         h4 = (ROTL32 h4 13 + h1) * 5 + 0x32ac3b17
     in (h1, h2, h3, h4))"

function mm_blocks :: "u8 list \<Rightarrow> mm_state \<Rightarrow> mm_state \<times> u8 list" where
  "mm_blocks bs s = (if length bs < 16 then (s, bs)
     else mm_blocks (drop 16 bs) (mm_block (take 16 bs) s))"
  by pat_completeness auto
termination
  by (relation "measure (\<lambda>(bs, s). length bs)") auto

declare mm_blocks.simps [simp del]

text \<open>The fall-through switch on the tail: each word takes the bytes it has, if any.\<close>

definition mm_tail :: "u8 list \<Rightarrow> mm_state \<Rightarrow> mm_state" where
  "mm_tail tail = (\<lambda>(h1, h2, h3, h4).
     let n = length tail;
         h4 = (if n \<ge> 13 then h4 XOR mm_mix (le_word (drop 12 tail)) mm_c4 18 mm_c1 else h4);
         h3 = (if n \<ge> 9 then h3 XOR mm_mix (le_word (take 4 (drop 8 tail))) mm_c3 17 mm_c4 else h3);
         h2 = (if n \<ge> 5 then h2 XOR mm_mix (le_word (take 4 (drop 4 tail))) mm_c2 16 mm_c3 else h2);
         h1 = (if n \<ge> 1 then h1 XOR mm_mix (le_word (take 4 tail)) mm_c1 15 mm_c2 else h1)
     in (h1, h2, h3, h4))"

definition MM86128 :: "u8 list \<Rightarrow> u32 \<Rightarrow> u64" where
  "MM86128 key seed =
     (let (s, tail) = mm_blocks key (seed, seed, seed, seed);
          (h1, h2, h3, h4) = mm_tail tail s;
          len = word_of_nat (length key);
          h1 = h1 XOR len; h2 = h2 XOR len; h3 = h3 XOR len; h4 = h4 XOR len;
          h1 = h1 + h2; h1 = h1 + h3; h1 = h1 + h4;
          h2 = h2 + h1; h3 = h3 + h1; h4 = h4 + h1;
          h1 = FMIX32 h1; h2 = FMIX32 h2; h3 = FMIX32 h3; h4 = FMIX32 h4;
          h1 = h1 + h2; h1 = h1 + h3; h1 = h1 + h4;
          h2 = h2 + h1; h3 = h3 + h1; h4 = h4 + h1
      in push_bit 32 (ucast h2) OR ucast h1)"

definition hashmap_murmur :: "u8 list \<Rightarrow> u64 \<Rightarrow> u64 \<Rightarrow> u64" where
  "hashmap_murmur input seed0 seed1 = MM86128 input (ucast seed0)"

section \<open>xxHash\<close>

definition XXH_PRIME_1 :: u64 where "XXH_PRIME_1 = 11400714785074694791"
definition XXH_PRIME_2 :: u64 where "XXH_PRIME_2 = 14029467366897019727"
definition XXH_PRIME_3 :: u64 where "XXH_PRIME_3 = 1609587929392839161"
definition XXH_PRIME_4 :: u64 where "XXH_PRIME_4 = 9650029242287828579"
definition XXH_PRIME_5 :: u64 where "XXH_PRIME_5 = 2870177450012600261"

definition XXH_read64 :: "u8 list \<Rightarrow> u64" where "XXH_read64 p = le_word (take 8 p)"
definition XXH_read32 :: "u8 list \<Rightarrow> u32" where "XXH_read32 p = le_word (take 4 p)"

definition XXH_rotl64 :: "u64 \<Rightarrow> nat \<Rightarrow> u64" where
  "XXH_rotl64 x r = push_bit r x OR drop_bit (64 - r) x"

definition xxh_lane :: "u64 \<Rightarrow> u8 list \<Rightarrow> u64" where
  "xxh_lane v p = XXH_rotl64 (v + XXH_read64 p * XXH_PRIME_2) 31 * XXH_PRIME_1"

text \<open>The do-while loop over 32-byte stripes.\<close>

function xxh_stripes :: "u8 list \<Rightarrow> sip_state \<Rightarrow> sip_state \<times> u8 list" where
  "xxh_stripes p s = (if length p < 32 then (s, p)
     else case s of (v1, v2, v3, v4) \<Rightarrow>
       xxh_stripes (drop 32 p) (xxh_lane v1 p, xxh_lane v2 (drop 8 p),
         xxh_lane v3 (drop 16 p), xxh_lane v4 (drop 24 p)))"
  by pat_completeness auto
termination
  by (relation "measure (\<lambda>(p, s). length p)") auto

definition xxh_merge :: "u64 \<Rightarrow> u64 \<Rightarrow> u64" where
  "xxh_merge h64 v =
     (h64 XOR XXH_rotl64 (v * XXH_PRIME_2) 31 * XXH_PRIME_1) * XXH_PRIME_1 + XXH_PRIME_4"

function xxh_words :: "u8 list \<Rightarrow> u64 \<Rightarrow> u64 \<times> u8 list" where
  "xxh_words p h64 = (if length p < 8 then (h64, p)
     else let k1 = XXH_rotl64 (XXH_read64 p * XXH_PRIME_2) 31 * XXH_PRIME_1
          in xxh_words (drop 8 p)
               (XXH_rotl64 (h64 XOR k1) 27 * XXH_PRIME_1 + XXH_PRIME_4))"
  by pat_completeness auto
termination
  by (relation "measure (\<lambda>(p, h). length p)") auto

fun xxh_tail :: "u8 list \<Rightarrow> u64 \<Rightarrow> u64" where
  "xxh_tail [] h64 = h64"
| "xxh_tail (b # p) h64 =
     xxh_tail p (XXH_rotl64 (h64 XOR ucast b * XXH_PRIME_5) 11 * XXH_PRIME_1)"

declare xxh_stripes.simps [simp del] xxh_words.simps [simp del]

definition xxh3 :: "u8 list \<Rightarrow> u64 \<Rightarrow> u64" where
  "xxh3 input seed =
     (let len = length input;
          (h64, p) =
            (if len \<ge> 32 then
               let ((v1, v2, v3, v4), p) = xxh_stripes input
                     (seed + XXH_PRIME_1 + XXH_PRIME_2, seed + XXH_PRIME_2, seed + 0, seed - XXH_PRIME_1);
                   h64 = XXH_rotl64 v1 1 + XXH_rotl64 v2 7 + XXH_rotl64 v3 12 + XXH_rotl64 v4 18
               in (xxh_merge (xxh_merge (xxh_merge (xxh_merge h64 v1) v2) v3) v4, p)
             else (seed + XXH_PRIME_5, input));
          h64 = h64 + word_of_nat len;
          (h64, p) = xxh_words p h64;
          (h64, p) =
            (if length p \<ge> 4
             then (XXH_rotl64 (h64 XOR ucast (XXH_read32 p) * XXH_PRIME_1) 23 * XXH_PRIME_2 + XXH_PRIME_3,
                   drop 4 p)
             else (h64, p));
          h64 = xxh_tail p h64;
          h64 = h64 XOR drop_bit 33 h64;
          h64 = h64 * XXH_PRIME_2;
          h64 = h64 XOR drop_bit 29 h64;
          h64 = h64 * XXH_PRIME_3
      in h64 XOR drop_bit 32 h64)"

definition hashmap_xxhash3 :: "u8 list \<Rightarrow> u64 \<Rightarrow> u64 \<Rightarrow> u64" where
  "hashmap_xxhash3 input seed0 seed1 = xxh3 input seed0"

section \<open>Properties\<close>

definition bytes_of :: "string \<Rightarrow> u8 list" where
  "bytes_of s = map (\<lambda>c. word_of_nat (of_char c)) s"

text \<open>The rounds on the text hello, evaluated one absorption at a time.\<close>

lemma SIPROUND_apply:
  "SIPROUND (v0, v1, v2, v3) =
     (let v0 = v0 + v1; v1 = ROTL v1 13; v1 = v1 XOR v0; v0 = ROTL v0 32;
          v2 = v2 + v3; v3 = ROTL v3 16; v3 = v3 XOR v2;
          v0 = v0 + v3; v3 = ROTL v3 21; v3 = v3 XOR v0;
          v2 = v2 + v1; v1 = ROTL v1 17; v1 = v1 XOR v2; v2 = ROTL v2 32
      in (v0, v1, v2, v3))"
  by (simp add: SIPROUND_def)

lemma hello_bytes: "bytes_of ''hello'' = [104, 101, 108, 108, 111]"
  by (simp add: bytes_of_def)

lemma hello_words: "sip_words (bytes_of ''hello'') s = (s, bytes_of ''hello'')"
  by (simp add: sip_words.simps hello_bytes)

lemma hello_last:
  "push_bit 56 (word_of_nat (length (bytes_of ''hello''))) OR le_word (bytes_of ''hello'') = (360288448750052712 :: u64)"
  by (simp add: hello_bytes le_word_def)

lemma hello_rounds:
  "SIPROUND (8317987319222330740, 7237128888997146479, 7816392313619706464, 8171047106284879897) =
     (11001083663902499554, 17538454047830038978, 15472022954362125692, 6195791789188044953)"
  "SIPROUND (11001083663902499554, 17538454047830038978, 15472022954362125692, 6195791789188044953) =
     (17666617505884377669, 16794363236279264830, 14618254332620268879, 13347953364897496563)"
  "SIPROUND (17306329971157104429, 16794363236279264830, 14618254332620268976, 13347953364897496563) =
     (8689873563540445802, 1371114963757626767, 607181023151500256, 16861395006470800058)"
  "SIPROUND (8689873563540445802, 1371114963757626767, 607181023151500256, 16861395006470800058) =
     (16276690054721591079, 2101228936215675006, 17715643828692817973, 10190534681506133812)"
  "SIPROUND (16276690054721591079, 2101228936215675006, 17715643828692817973, 10190534681506133812) =
     (4306659085019004408, 18175750473729055066, 1784449550352676783, 4962074563660086415)"
  "SIPROUND (4306659085019004408, 18175750473729055066, 1784449550352676783, 4962074563660086415) =
     (18243320594132812098, 12811175450229883424, 1982565785779445352, 9110307376259130780)"
  by (simp add: SIPROUND_apply ROTL_def Let_def)+

lemma hello_absorb:
  "sip_absorb 360288448750052712 (8317987319222330740, 7237128888997146479, 7816392313619706464, 8387220255154660721) =
     (17306329971157104429, 16794363236279264830, 14618254332620268879, 13347953364897496563)"
  by (simp add: sip_absorb_def hello_rounds)

lemma hello_init:
  "8317987319222330741 XOR 1 = (8317987319222330740 :: u64)"
  "7237128888997146477 XOR 2 = (7237128888997146479 :: u64)"
  "7816392313619706465 XOR 1 = (7816392313619706464 :: u64)"
  "8387220255154660723 XOR 2 = (8387220255154660721 :: u64)"
  "14618254332620268879 XOR 0xff = (14618254332620268976 :: u64)"
  by simp_all

lemma hello_sip: "hashmap_sip (bytes_of ''hello'') 1 2 = 2957200328589801622"
  unfolding hashmap_sip_def SIP64_def Let_def hello_words hello_last hello_init split_conv
    hello_absorb hello_rounds
  by simp

lemma hello_tail: "mm_tail [104, 101, 108, 108, 111] (1, 1, 1, 1) = (325588905, 2782445374, 1, 1)"
  by (simp add: mm_tail_def mm_mix_def ROTL32_def mm_c1_def mm_c2_def mm_c3_def le_word_def)

lemma hello_fmix:
  "FMIX32 3108034287 = 2669165231"
  "FMIX32 5890479658 = 733272747"
  "FMIX32 3108034291 = 2422989461"
  "FMIX32 3108034291 = 2422989461"
  by (simp_all add: FMIX32_def)

lemma hello_murmur: "hashmap_murmur (bytes_of ''hello'') 1 2 = 1682575153221130884"
  by (simp add: hello_bytes hashmap_murmur_def MM86128_def mm_blocks.simps hello_tail hello_fmix Let_def)

lemma hello_xxhash3: "hashmap_xxhash3 (bytes_of ''hello'') 1 2 = 2584346877953614258"
  by (simp add: hello_bytes hashmap_xxhash3_def xxh3_def xxh_words.simps XXH_rotl64_def
      XXH_read32_def XXH_PRIME_1_def XXH_PRIME_2_def XXH_PRIME_3_def XXH_PRIME_5_def Let_def
      le_word_def)

text \<open>
  Known answers of the test section of \<^verbatim>\<open>hashmap.c\<close> (the assertions on the text hello
  with seeds 1 and 2): the models of the three hash functions compute the values the C code is
  tested for.
\<close>

lemma hash_known_answers:
  "hashmap_sip (bytes_of ''hello'') 1 2 = 2957200328589801622 \<and>
   hashmap_murmur (bytes_of ''hello'') 1 2 = 1682575153221130884 \<and>
   hashmap_xxhash3 (bytes_of ''hello'') 1 2 = 2584346877953614258"
  by (intro conjI hello_sip hello_murmur hello_xxhash3)

section \<open>SipHash-2-4 as it is published\<close>

text \<open>
  A round rotates words to the left. The message is padded with zero bytes and a last byte that
  holds its length modulo 256, and cut into words of eight bytes; each is absorbed with two rounds,
  and four rounds finish.
\<close>

definition sip_round_spec :: "sip_state \<Rightarrow> sip_state" where
  "sip_round_spec = (\<lambda>(v0, v1, v2, v3).
     let v0 = v0 + v1; v2 = v2 + v3; v1 = word_rotl 13 v1; v3 = word_rotl 16 v3;
         v1 = v1 XOR v0; v3 = v3 XOR v2; v0 = word_rotl 32 v0;
         v2 = v2 + v1; v0 = v0 + v3; v1 = word_rotl 17 v1; v3 = word_rotl 21 v3;
         v1 = v1 XOR v2; v3 = v3 XOR v0; v2 = word_rotl 32 v2
     in (v0, v1, v2, v3))"

definition sip_pad :: "u8 list \<Rightarrow> u8 list" where
  "sip_pad bs = bs @ replicate (7 - length bs mod 8) 0 @ [word_of_nat (length bs)]"

definition sip_message :: "u8 list \<Rightarrow> u64 list" where
  "sip_message bs = map (\<lambda>i. le_word (take 8 (drop (8 * i) (sip_pad bs)))) [0..<length bs div 8 + 1]"

definition sip_compress :: "u64 \<Rightarrow> sip_state \<Rightarrow> sip_state" where
  "sip_compress m = (\<lambda>(v0, v1, v2, v3).
     let (v0, v1, v2, v3) = (sip_round_spec ^^ 2) (v0, v1, v2, v3 XOR m) in (v0 XOR m, v1, v2, v3))"

definition siphash_2_4 :: "u64 \<Rightarrow> u64 \<Rightarrow> u8 list \<Rightarrow> u64" where
  "siphash_2_4 k0 k1 bs =
     (let (v0, v1, v2, v3) = fold sip_compress (sip_message bs)
            (k0 XOR 0x736f6d6570736575, k1 XOR 0x646f72616e646f6d, k0 XOR 0x6c7967656e657261, k1 XOR 0x7465646279746573);
          (v0, v1, v2, v3) = (sip_round_spec ^^ 4) (v0, v1, v2 XOR 0xff, v3)
      in v0 XOR v1 XOR v2 XOR v3)"

lemma ROTL_rotl:
  assumes "0 < b" "b < 64"
  shows "ROTL x b = word_rotl b x"
proof (rule bit_word_eqI)
  fix n assume "n < LENGTH(64)"
  then have n: "n < 64" by simp
  then have "bit (word_rotl b x) n \<longleftrightarrow> bit x ((n + (64 - b)) mod 64)" using assms(2) by (simp add: bit_simps)
  moreover have "bit (ROTL x b) n \<longleftrightarrow> b \<le> n \<and> bit x (n - b) \<or> bit x (64 - b + n)"
    using n by (auto simp: ROTL_def bit_simps)
  moreover have "(n + (64 - b)) mod 64 = (if b \<le> n then n - b else 64 - b + n)"
    using n assms by (auto simp: mod_if)
  moreover have "\<not> bit x (64 - b + n)" if "b \<le> n"
    using that assms(2) bit_imp_le_length [of x "64 - b + n"] by auto
  ultimately show "bit (ROTL x b) n \<longleftrightarrow> bit (word_rotl b x) n" by (auto split: if_splits)
qed

lemma SIPROUND_spec: "SIPROUND s = sip_round_spec s"
  by (cases s) (simp add: SIPROUND_def sip_round_spec_def ROTL_rotl Let_def add.commute)

lemma absorb_spec: "sip_absorb m s = sip_compress m s"
  by (cases s) (simp add: sip_absorb_def sip_compress_def SIPROUND_spec numeral_2_eq_2 split: prod.splits)

lemma le_word_append: "(le_word (xs @ ys) :: 'a::len word) = le_word xs OR push_bit (8 * length xs) (le_word ys)"
proof (induction xs)
  case (Cons x xs)
  have "(le_word ((x # xs) @ ys) :: 'a word) = ucast x OR push_bit 8 (le_word (xs @ ys))" by (simp add: le_word_def)
  also have "\<dots> = (ucast x OR push_bit 8 (le_word xs)) OR push_bit (8 * length (x # xs)) (le_word ys)"
    unfolding Cons.IH by (simp add: push_bit_or add.commute or.assoc)
  finally show ?case by (simp add: le_word_def)
qed (simp add: le_word_def)

lemma le_word_zeros: "le_word (replicate n 0) = 0"
  by (induction n) (simp_all add: le_word_def)

lemma le_word_single: "le_word [b] = ucast b"
  by (simp add: le_word_def)

lemma sip_words_fold:
  "sip_words bs s = (fold sip_absorb (map (\<lambda>i. le_word (take 8 (drop (8 * i) bs))) [0..<length bs div 8]) s,
     drop (8 * (length bs div 8)) bs)"
proof (induction bs s rule: sip_words.induct)
  case (1 bs s)
  show ?case
  proof (cases "length bs < 8")
    case False
    then have n: "length bs div 8 = Suc ((length bs - 8) div 8)" by (simp add: le_div_geq)
    have m: "map (\<lambda>i. le_word (take 8 (drop (8 * i) bs))) [0..<length bs div 8] = (le_word (take 8 bs) :: u64) #
        map (\<lambda>i. le_word (take 8 (drop (8 * i) (drop 8 bs)))) [0..<(length bs - 8) div 8]"
      unfolding n upt_conv_Cons [OF zero_less_Suc] by (simp add: map_Suc_upt [symmetric] add.commute del: upt_Suc)
    have d: "drop (8 * (length bs div 8)) bs = drop (8 * ((length bs - 8) div 8)) (drop 8 bs)"
      unfolding n by (simp add: add.commute)
    show ?thesis using 1 False unfolding m d by (simp add: sip_words.simps [of bs s])
  qed (simp add: sip_words.simps)
qed

lemma length_byte: "push_bit 56 (ucast (word_of_nat n :: u8) :: u64) = push_bit 56 (word_of_nat n)"
  by (rule bit_word_eqI) (auto simp: bit_simps)

lemma message_split:
  "sip_message bs = map (\<lambda>i. le_word (take 8 (drop (8 * i) bs))) [0..<length bs div 8] @
     [push_bit 56 (word_of_nat (length bs)) OR le_word (drop (8 * (length bs div 8)) bs)]"
proof -
  let ?n = "length bs div 8" and ?l = "drop (8 * (length bs div 8)) bs"
  have len: "length ?l = length bs mod 8" by (simp add: minus_mult_div_eq_mod)
  have "8 * i + 8 \<le> length bs" if "i < ?n" for i
    using that by (metis Suc_leI add.commute div_times_less_eq_dividend mult.commute mult_Suc mult_le_mono1 order_trans)
  then have "take 8 (drop (8 * i) (sip_pad bs)) = take 8 (drop (8 * i) bs)" if "i < ?n" for i
    using that by (fastforce simp: sip_pad_def)
  moreover have "take 8 (drop (8 * ?n) (sip_pad bs)) = ?l @ replicate (7 - length bs mod 8) 0 @ [word_of_nat (length bs)]"
    using len by (simp add: sip_pad_def)
  moreover have "le_word (?l @ replicate (7 - length bs mod 8) 0 @ [word_of_nat (length bs)]) =
      push_bit 56 (word_of_nat (length bs)) OR (le_word ?l :: u64)"
  proof -
    have "8 * (length bs mod 8) + 8 * (7 - length bs mod 8) = 56"
      using mod_less_divisor [of 8 "length bs"] by arith
    then show ?thesis using len length_byte [of "length bs"]
      by (simp add: le_word_append le_word_zeros le_word_single or.commute)
  qed
  ultimately show ?thesis unfolding sip_message_def by simp
qed

text \<open>
  C39: SipHash. For every key and every text, of any length, \<^verbatim>\<open>hashmap_sip\<close> computes SipHash-2-4 as it is
  published: its loop over the full words, the switch that collects the remaining bytes and the
  last word with the length in its highest byte absorb exactly the words of the padded message.
\<close>

theorem siphash_correct: "hashmap_sip bs k0 k1 = siphash_2_4 k0 k1 bs"
proof -
  have a: "sip_absorb = sip_compress" "SIPROUND = sip_round_spec"
    by (intro ext; rule absorb_spec SIPROUND_spec)+
  have r: "(sip_round_spec ^^ 4) s = sip_round_spec (sip_round_spec (sip_round_spec (sip_round_spec s)))" for s
    by (simp add: numeral_eq_Suc)
  show ?thesis
    unfolding hashmap_sip_def SIP64_def siphash_2_4_def Let_def sip_words_fold message_split a r fold_append
    by (simp add: xor.commute split_beta)
qed

end
