(* ===== verification/Rip_Db.thy ===== *)
theory Rip_Db
  imports Rip_Common Hashmap_Map Sip_Hash
begin

text \<open>
  Model of \<^verbatim>\<open>rip_db.c\<close>: the database of routes, two hash maps (the routes in use and the
  routes waiting for garbage collection) and the flag that asks for a triggered update.

  A pointer to a stored route is a \<open>rip_db_ref\<close>; the callers read and write through it with
  \<open>rip_db_read\<close> and \<open>rip_db_write\<close>. A function that prints a route is undefined (\<open>None\<close>) where
  the print is, i.e. on the mask 255.255.255.255. Logging is otherwise not modelled.

  \<open>db_inv\<close> is the invariant of the database: both maps are well formed for the key of
  \<^verbatim>\<open>rip_route_description_cmp\<close> and no key is in both. The operations are shown to implement
  updates of two partial functions.
\<close>

section \<open>Keys\<close>

definition VALUE_FIELD_CMP :: "'a::linorder \<Rightarrow> 'a \<Rightarrow> int" where
  "VALUE_FIELD_CMP a b = of_bool (a > b) - of_bool (a < b)"

definition rip_route_description_cmp :: "rip_route_description \<Rightarrow> rip_route_description \<Rightarrow> int" where
  "rip_route_description_cmp a b =
     (let entry_a = entry a; entry_b = entry b in
      if if_index a \<noteq> if_index b then VALUE_FIELD_CMP (if_index a) (if_index b)
      else if ip_address entry_a \<noteq> ip_address entry_b
        then VALUE_FIELD_CMP (ip_address entry_a) (ip_address entry_b)
      else if subnet_mask entry_a \<noteq> subnet_mask entry_b
        then VALUE_FIELD_CMP (subnet_mask entry_a) (subnet_mask entry_b)
      else if next_hop entry_a \<noteq> next_hop entry_b
        then VALUE_FIELD_CMP (next_hop entry_a) (next_hop entry_b)
      else 0)"

text \<open>The bytes of the local struct \<^verbatim>\<open>rip_route_key\<close>, which has no padding.\<close>

definition rip_route_key :: "rip_route_description \<Rightarrow> u8 list" where
  "rip_route_key r = le_bytes 4 (ip_address (entry r)) @ le_bytes 4 (subnet_mask (entry r))
     @ le_bytes 4 (next_hop (entry r)) @ le_bytes 4 (if_index r)"

definition rip_route_description_cmp_hash :: "rip_route_description \<Rightarrow> u64 \<Rightarrow> u64 \<Rightarrow> u64" where
  "rip_route_description_cmp_hash item s0 s1 = hashmap_sip (rip_route_key item) s0 s1"

section \<open>State\<close>

datatype rip_db_type = rip_db_all | rip_db_ok | rip_db_garbage

record db_iter =
  ok_routes_iter :: nat
  ok_routes_iterated :: bool
  garbage_routes_iter :: nat

record rip_db =
  ok_routes :: "rip_route_description hashmap"
  garbage_routes :: "rip_route_description hashmap"
  any_route_changed :: bool

datatype rip_db_ref = In_ok nat | In_garbage nat

fun rip_db_read :: "rip_db \<Rightarrow> rip_db_ref \<Rightarrow> rip_route_description" where
  "rip_db_read db (In_ok i) = item_at (ok_routes db) i"
| "rip_db_read db (In_garbage i) = item_at (garbage_routes db) i"

fun rip_db_write ::
  "rip_db \<Rightarrow> rip_db_ref \<Rightarrow> (rip_route_description \<Rightarrow> rip_route_description) \<Rightarrow> rip_db" where
  "rip_db_write db (In_ok i) f = db\<lparr>ok_routes := modify_at (ok_routes db) i f\<rparr>"
| "rip_db_write db (In_garbage i) f = db\<lparr>garbage_routes := modify_at (garbage_routes db) i f\<rparr>"

definition iter_zero :: db_iter where
  "iter_zero = \<lparr>ok_routes_iter = 0, ok_routes_iterated = False, garbage_routes_iter = 0\<rparr>"

definition sizeof_rip_db :: nat where "sizeof_rip_db = 24"
definition sizeof_rip_route_description :: nat where "sizeof_rip_route_description = 48"

text \<open>Printing to the log: only whether it is defined matters.\<close>

definition log_route :: "rip_route_description \<Rightarrow> unit option" where
  "log_route r = do { rip_route_description_print (\<lambda>_. None) r; Some () }"

section \<open>Operations\<close>

definition rip_db_new_map :: "(nat \<Rightarrow> bool) \<Rightarrow> rip_route_description hashmap option" where
  "rip_db_new_map malloc = hashmap_new malloc sizeof_rip_route_description 0 0 0
     rip_route_description_cmp_hash (Some rip_route_description_cmp) zero_route"

text \<open>The three allocations of the function each have their own outcome.\<close>

definition rip_db_init :: "(nat \<Rightarrow> bool) \<Rightarrow> (nat \<Rightarrow> bool) \<Rightarrow> (nat \<Rightarrow> bool) \<Rightarrow> rip_db option" where
  "rip_db_init calloc malloc1 malloc2 =
     (if \<not> calloc sizeof_rip_db then None
      else case (rip_db_new_map malloc1, rip_db_new_map malloc2) of
             (Some ok, Some garbage) \<Rightarrow>
               Some \<lparr>ok_routes = ok, garbage_routes = garbage, any_route_changed = False\<rparr>
           | _ \<Rightarrow> None)"

text \<open>The result is the database, the entry as left behind the caller's pointer, and the status.\<close>

definition rip_db_add ::
  "(nat \<Rightarrow> bool) \<Rightarrow> rip_db \<Rightarrow> rip_route_description \<Rightarrow> (rip_db \<times> rip_route_description \<times> int) option" where
  "rip_db_add malloc db entry0 = (let e = entry0\<lparr>changed := True\<rparr> in do {
     (ok, old) \<leftarrow> hashmap_set malloc (ok_routes db) e;
     let db = db\<lparr>ok_routes := ok\<rparr>;
     case old of
       Some old_e \<Rightarrow> do { log_route old_e; log_route e; Some (db, e, 1) }
     | None \<Rightarrow>
         if hashmap_oom ok then Some (db, e, 1)
         else do { log_route e; Some (db\<lparr>any_route_changed := True\<rparr>, e, 0) }
   })"

fun rip_db_get ::
  "rip_db \<Rightarrow> rip_db_type \<Rightarrow> rip_route_description \<Rightarrow> rip_db_ref option option" where
  "rip_db_get db rip_db_ok e = do { r \<leftarrow> hashmap_get (ok_routes db) e; Some (map_option In_ok r) }"
| "rip_db_get db rip_db_garbage e =
     do { r \<leftarrow> hashmap_get (garbage_routes db) e; Some (map_option In_garbage r) }"
| "rip_db_get db rip_db_all e = do {
     el \<leftarrow> hashmap_get (ok_routes db) e;
     case el of
       Some i \<Rightarrow> Some (Some (In_ok i))
     | None \<Rightarrow> do { r \<leftarrow> hashmap_get (garbage_routes db) e; Some (map_option In_garbage r) }
   }"

definition rip_db_remove ::
  "(nat \<Rightarrow> bool) \<Rightarrow> rip_db \<Rightarrow> rip_route_description \<Rightarrow> (rip_db \<times> int) option" where
  "rip_db_remove malloc db e = do {
     (ok, el) \<leftarrow> hashmap_delete malloc (ok_routes db) e;
     let db = db\<lparr>ok_routes := ok\<rparr>;
     (db, el) \<leftarrow> (case el of
         Some x \<Rightarrow> Some (db, Some x)
       | None \<Rightarrow> do {
           (garbage, el) \<leftarrow> hashmap_delete malloc (garbage_routes db) e;
           Some (db\<lparr>garbage_routes := garbage\<rparr>, el)
         });
     Some (db, if el = None then 1 else 0)
   }"

definition rip_db_move_to_garbage ::
  "(nat \<Rightarrow> bool) \<Rightarrow> rip_db \<Rightarrow> rip_route_description \<Rightarrow> (rip_db \<times> int) option" where
  "rip_db_move_to_garbage malloc db e = do {
     let db = (if changed e then db\<lparr>any_route_changed := True\<rparr> else db);
     (ok, el) \<leftarrow> hashmap_delete malloc (ok_routes db) e;
     let db = db\<lparr>ok_routes := ok\<rparr>;
     case el of
       None \<Rightarrow> Some (db, 1)
     | Some x \<Rightarrow> do {
         (garbage, old) \<leftarrow> hashmap_set malloc (garbage_routes db) x;
         Some (db\<lparr>garbage_routes := garbage\<rparr>, if old = None then 0 else 1)
       }
   }"

section \<open>Iteration\<close>

definition rip_db_iter_garbage :: "rip_db \<Rightarrow> db_iter \<Rightarrow> db_iter \<times> rip_db_ref option" where
  "rip_db_iter_garbage db iter =
     (let (c, el) = hashmap_iter (garbage_routes db) (garbage_routes_iter iter)
      in (iter\<lparr>garbage_routes_iter := c\<rparr>, map_option In_garbage el))"

definition rip_db_iter_ok :: "rip_db \<Rightarrow> db_iter \<Rightarrow> db_iter \<times> rip_db_ref option" where
  "rip_db_iter_ok db iter =
     (let (c, el) = hashmap_iter (ok_routes db) (ok_routes_iter iter)
      in (iter\<lparr>ok_routes_iter := c\<rparr>, map_option In_ok el))"

definition rip_db_iter_all :: "rip_db \<Rightarrow> db_iter \<Rightarrow> db_iter \<times> rip_db_ref option" where
  "rip_db_iter_all db iter =
     (if ok_routes_iterated iter then rip_db_iter_garbage db iter
      else case rip_db_iter_ok db iter of
             (iter, Some r) \<Rightarrow> (iter, Some r)
           | (iter, None) \<Rightarrow> rip_db_iter_garbage db (iter\<lparr>ok_routes_iterated := True\<rparr>))"

fun rip_db_iter :: "rip_db \<Rightarrow> rip_db_type \<Rightarrow> db_iter \<Rightarrow> db_iter \<times> rip_db_ref option" where
  "rip_db_iter db rip_db_ok iter = rip_db_iter_ok db iter"
| "rip_db_iter db rip_db_garbage iter = rip_db_iter_garbage db iter"
| "rip_db_iter db rip_db_all iter = rip_db_iter_all db iter"

definition rip_db_iter_const ::
  "rip_db \<Rightarrow> rip_db_type \<Rightarrow> db_iter \<Rightarrow> db_iter \<times> rip_db_ref option" where
  "rip_db_iter_const db type iter = rip_db_iter db type iter"

fun rip_db_count :: "rip_db \<Rightarrow> rip_db_type \<Rightarrow> nat" where
  "rip_db_count db rip_db_ok = hashmap_count (ok_routes db)"
| "rip_db_count db rip_db_garbage = hashmap_count (garbage_routes db)"
| "rip_db_count db rip_db_all = hashmap_count (ok_routes db) + hashmap_count (garbage_routes db)"

definition rip_db_any_route_changed :: "rip_db \<Rightarrow> bool" where
  "rip_db_any_route_changed db = any_route_changed db"

text \<open>The buckets an iteration has not passed yet bound the number of its steps.\<close>

definition iter_left :: "rip_db \<Rightarrow> db_iter \<Rightarrow> nat" where
  "iter_left db iter = (nbuckets (ok_routes db) - ok_routes_iter iter)
     + (nbuckets (garbage_routes db) - garbage_routes_iter iter)"

lemma hashmap_iter_less: "hashmap_iter m c = (c', Some p) \<Longrightarrow> nbuckets m - c' < nbuckets m - c"
  using hashmap_iter_spec [where m = m and i = c] by auto

lemma hashmap_iter_le: "hashmap_iter m c = (c', r) \<Longrightarrow> nbuckets m - c' \<le> nbuckets m - c"
  using hashmap_iter_spec [where m = m and i = c] by (cases r) auto

lemma iter_left_garbage:
  "rip_db_iter_garbage db iter = (iter', Some r) \<Longrightarrow> iter_left db iter' < iter_left db iter"
  using hashmap_iter_less [of "garbage_routes db" "garbage_routes_iter iter"]
  by (auto simp: rip_db_iter_garbage_def iter_left_def split: prod.splits)

lemma iter_left_ok:
  "rip_db_iter_ok db iter = (iter', Some r) \<Longrightarrow> iter_left db iter' < iter_left db iter"
  "rip_db_iter_ok db iter = (iter', None) \<Longrightarrow> iter_left db iter' \<le> iter_left db iter"
  using hashmap_iter_less [of "ok_routes db" "ok_routes_iter iter"]
    hashmap_iter_le [of "ok_routes db" "ok_routes_iter iter"]
  by (auto simp: rip_db_iter_ok_def iter_left_def split: prod.splits)

lemma iter_left_all:
  assumes "rip_db_iter_all db iter = (iter', Some r)"
  shows "iter_left db iter' < iter_left db iter"
proof (cases "ok_routes_iterated iter")
  case True
  with assms iter_left_garbage show ?thesis by (simp add: rip_db_iter_all_def)
next
  case False
  obtain it el where ok: "rip_db_iter_ok db iter = (it, el)" by fastforce
  have "iter_left db (it\<lparr>ok_routes_iterated := True\<rparr>) = iter_left db it" by (simp add: iter_left_def)
  with assms ok False iter_left_ok [of db iter it] iter_left_garbage [of db "it\<lparr>ok_routes_iterated := True\<rparr>"]
  show ?thesis by (cases el) (auto simp: rip_db_iter_all_def)
qed

lemma iter_left_less:
  "rip_db_iter db ty iter = (iter', Some r) \<Longrightarrow> iter_left db iter' < iter_left db iter"
  by (cases ty) (auto dest: iter_left_ok iter_left_garbage iter_left_all)

lemma nbuckets_write [simp]:
  "nbuckets (ok_routes (rip_db_write db r f)) = nbuckets (ok_routes db)"
  "nbuckets (garbage_routes (rip_db_write db r f)) = nbuckets (garbage_routes db)"
  by (cases r; simp add: modify_at_def)+

lemma iter_left_write [simp]: "iter_left (rip_db_write db r f) iter = iter_left db iter"
  by (simp add: iter_left_def)

text \<open>
  A loop over the database that writes to each route it visits. The two loops of the code with
  this shape are instances.
\<close>

function rip_db_update_all ::
  "(rip_route_description \<Rightarrow> rip_route_description) \<Rightarrow> rip_db \<Rightarrow> db_iter \<Rightarrow> rip_db" where
  "rip_db_update_all f db iter =
     (case rip_db_iter db rip_db_all iter of
        (iter, None) \<Rightarrow> db
      | (iter, Some r) \<Rightarrow> rip_db_update_all f (rip_db_write db r f) iter)"
  by pat_completeness auto
termination
  by (relation "measure (\<lambda>(f, db, iter). iter_left db iter)") (auto dest: iter_left_all [OF sym])

definition rip_db_mark_all_routes_as_unchanged :: "rip_db \<Rightarrow> rip_db" where
  "rip_db_mark_all_routes_as_unchanged db =
     (if any_route_changed db
      then (rip_db_update_all (\<lambda>e. e\<lparr>changed := False\<rparr>) db iter_zero)\<lparr>any_route_changed := False\<rparr>
      else db)"

text \<open>The dump writes to a file; the model returns the text.\<close>

function rip_db_dump_from ::
  "(u32 \<Rightarrow> string option) \<Rightarrow> rip_db \<Rightarrow> db_iter \<Rightarrow> string \<Rightarrow> string option" where
  "rip_db_dump_from names db iter out =
     (case rip_db_iter_const db rip_db_all iter of
        (iter, None) \<Rightarrow> Some out
      | (iter, Some r) \<Rightarrow> do {
          line \<leftarrow> rip_route_description_print names (rip_db_read db r);
          rip_db_dump_from names db iter (out @ line)
        })"
  by pat_completeness auto
termination
  by (relation "measure (\<lambda>(n, db, iter, t). iter_left db iter)")
    (auto simp: rip_db_iter_const_def dest: iter_left_all [OF sym])

definition rip_db_dump :: "(u32 \<Rightarrow> string option) \<Rightarrow> string \<Rightarrow> rip_db \<Rightarrow> string option" where
  "rip_db_dump names out db = rip_db_dump_from names db iter_zero out"

declare rip_db_update_all.simps [simp del] rip_db_dump_from.simps [simp del]

section \<open>Invariant and abstraction\<close>

text \<open>The fields of the key, and the two partial functions a database stands for.\<close>

type_synonym route_id = "u32 \<times> in_addr \<times> in_addr \<times> in_addr"

definition route_key :: "rip_route_description \<Rightarrow> route_id" where
  "route_key r = (if_index r, ip_address (entry r), subnet_mask (entry r), next_hop (entry r))"

abbreviation ok_map :: "rip_db \<Rightarrow> route_id \<rightharpoonup> rip_route_description" where
  "ok_map db \<equiv> hm_lookup route_key (ok_routes db)"

abbreviation garbage_map :: "rip_db \<Rightarrow> route_id \<rightharpoonup> rip_route_description" where
  "garbage_map db \<equiv> hm_lookup route_key (garbage_routes db)"

definition db_inv :: "rip_db \<Rightarrow> bool" where
  "db_inv db \<longleftrightarrow> hm_inv route_key (ok_routes db) \<and> hm_inv route_key (garbage_routes db) \<and>
     dom (ok_map db) \<inter> dom (garbage_map db) = {}"

text \<open>Space for \<open>n\<close> more routes: the distance field of a bucket has 16 bits.\<close>

definition db_space :: "nat \<Rightarrow> rip_db \<Rightarrow> bool" where
  "db_space n db \<longleftrightarrow> rip_db_count db rip_db_all + n < 2 ^ 16"

abbreviation route_mask :: "rip_route_description \<Rightarrow> in_addr" where
  "route_mask r \<equiv> subnet_mask (entry r)"

lemma route_key_simps [simp]:
  "route_key (r\<lparr>changed := b\<rparr>) = route_key r" "route_key (r\<lparr>timeout_cnt := n\<rparr>) = route_key r"
  "route_key (r\<lparr>in_routing_table := b\<rparr>) = route_key r" "route_key (r\<lparr>gc_started_at := t\<rparr>) = route_key r"
  "route_key (r\<lparr>entry := (entry r)\<lparr>metric := x\<rparr>\<rparr>) = route_key r"
  by (simp_all add: route_key_def)

lemma cmp_zero_iff: "rip_route_description_cmp a b = 0 \<longleftrightarrow> route_key a = route_key b"
  by (auto simp: rip_route_description_cmp_def VALUE_FIELD_CMP_def route_key_def Let_def)

lemma cmp_hash_key:
  "route_key a = route_key b \<Longrightarrow> rip_route_description_cmp_hash a s t = rip_route_description_cmp_hash b s t"
  by (simp add: rip_route_description_cmp_hash_def rip_route_key_def route_key_def)

lemma log_route_eq: "log_route r = (if route_mask r = 0xFFFFFFFF then None else Some ())"
  using route_print_None [of "\<lambda>_. None" r]
  by (cases "rip_route_description_print (\<lambda>_. None) r") (simp_all add: log_route_def)

lemma db_inv_parts:
  assumes "db_inv db"
  shows "hm_inv route_key (ok_routes db)" "hm_inv route_key (garbage_routes db)"
    "dom (ok_map db) \<inter> dom (garbage_map db) = {}"
  using assms by (simp_all add: db_inv_def)

lemma db_inv_flag [simp]: "db_inv (db\<lparr>any_route_changed := b\<rparr>) = db_inv db"
  by (simp add: db_inv_def)

lemma db_space_flag [simp]: "db_space n (db\<lparr>any_route_changed := b\<rparr>) = db_space n db"
  by (simp add: db_space_def)

lemma db_space_rooms:
  assumes "db_space n db" "1 \<le> n"
  shows "hashmap_count (ok_routes db) + 1 < 2 ^ 16" "hashmap_count (garbage_routes db) + 1 < 2 ^ 16"
  using assms by (simp_all add: db_space_def)

lemma db_space_le: "db_space n db \<Longrightarrow> m \<le> n \<Longrightarrow> db_space m db"
  by (simp add: db_space_def)

lemma db_disjoint: "db_inv db \<Longrightarrow> ok_map db k = Some r \<Longrightarrow> garbage_map db k = None"
  using db_inv_parts(3) [of db] by (auto simp: dom_def)

lemma db_inv_ok_upd:
  assumes "db_inv db" "hm_inv route_key m" "dom (hm_lookup route_key m) \<inter> dom (garbage_map db) = {}"
  shows "db_inv (db\<lparr>ok_routes := m\<rparr>)"
  using assms by (simp add: db_inv_def)

lemma ok_key: "db_inv db \<Longrightarrow> ok_map db k = Some r \<Longrightarrow> route_key r = k"
  by (rule hm.lookup_key [OF db_inv_parts(1)])

lemma garbage_key: "db_inv db \<Longrightarrow> garbage_map db k = Some r \<Longrightarrow> route_key r = k"
  by (rule hm.lookup_key [OF db_inv_parts(2)])

section \<open>Operations refine updates of the two maps\<close>

lemma rip_db_new_map_ok:
  assumes "rip_db_new_map ma = Some m"
  shows "hm_inv route_key m" "hm_lookup route_key m = Map.empty" "hashmap_count m = 0"
proof -
  note n = hashmap_new_inv [OF assms [unfolded rip_db_new_map_def hashmap_new_def] cmp_zero_iff]
  show i: "hm_inv route_key m" and l: "hm_lookup route_key m = Map.empty"
    by (rule n, erule cmp_hash_key)+
  from hm_count_card [OF i] l show "hashmap_count m = 0" by simp
qed

lemma rip_db_init_ok:
  assumes "rip_db_init ca ma mb = Some db"
  shows "db_inv db" "ok_map db = Map.empty" "garbage_map db = Map.empty" "\<not> any_route_changed db"
    "n < 2 ^ 16 \<Longrightarrow> db_space n db"
proof -
  from assms obtain a b where a: "rip_db_new_map ma = Some a" and b: "rip_db_new_map mb = Some b"
    and db: "db = \<lparr>ok_routes = a, garbage_routes = b, any_route_changed = False\<rparr>"
    by (auto simp: rip_db_init_def split: if_splits option.splits)
  show "db_inv db" "ok_map db = Map.empty" "garbage_map db = Map.empty"
    "\<not> any_route_changed db" "n < 2 ^ 16 \<Longrightarrow> db_space n db"
    using rip_db_new_map_ok [OF a] rip_db_new_map_ok [OF b] db by (simp_all add: db_inv_def db_space_def)
qed

lemma db_count_all:
  assumes "db_inv db"
  shows "rip_db_count db rip_db_all = card (dom (ok_map db)) + card (dom (garbage_map db))"
  using db_inv_parts(1,2) [OF assms] by (simp add: hm_count_card)

lemma finite_dom_lookup [simp]: "finite (dom (hm_lookup key m))"
  by (simp add: hm_lookup_def finite_dom_map_of)

text \<open>The space left after an update of the two maps.\<close>

lemma db_space_update:
  assumes "db_inv db" "db_inv db'" "db_space (n + k) db"
    and "card (dom (ok_map db')) + card (dom (garbage_map db')) \<le>
      card (dom (ok_map db)) + card (dom (garbage_map db)) + k"
  shows "db_space n db'"
  using assms by (simp add: db_space_def db_count_all del: rip_db_count.simps)

lemma card_dom_upd: "finite (dom m) \<Longrightarrow> card (dom (m(k \<mapsto> v))) \<le> card (dom m) + 1"
  by (simp add: card_insert_if)

lemma card_dom_clear: "finite (dom m) \<Longrightarrow> card (dom (m(k := None))) \<le> card (dom m)"
  by (simp add: card_Diff1_le)

lemma card_dom_move:
  "finite (dom m) \<Longrightarrow> finite (dom g) \<Longrightarrow> m k = Some r \<Longrightarrow>
   card (dom (m(k := None))) + card (dom (g(k \<mapsto> r'))) \<le> card (dom m) + card (dom g)"
  using card.remove [of "dom m" k] by (auto simp: card_insert_if domI)

lemma rip_db_get_refines:
  assumes "db_inv db"
  shows "\<exists>p. rip_db_get db ty e = Some p \<and> map_option (rip_db_read db) p =
    (case ty of rip_db_ok \<Rightarrow> ok_map db (route_key e) | rip_db_garbage \<Rightarrow> garbage_map db (route_key e)
     | rip_db_all \<Rightarrow> (garbage_map db ++ ok_map db) (route_key e))"
proof -
  from hm.get_law [OF db_inv_parts(1) [OF assms], of e] obtain a where
    a: "hashmap_get (ok_routes db) e = Some a"
      "map_option (item_at (ok_routes db)) a = ok_map db (route_key e)" by blast
  from hm.get_law [OF db_inv_parts(2) [OF assms], of e] obtain b where
    b: "hashmap_get (garbage_routes db) e = Some b"
      "map_option (item_at (garbage_routes db)) b = garbage_map db (route_key e)" by blast
  have o: "map_option (rip_db_read db) (map_option In_ok a) = ok_map db (route_key e)"
    "map_option (rip_db_read db) (map_option In_garbage b) = garbage_map db (route_key e)"
    using a b by (simp_all add: option.map_comp comp_def)
  show ?thesis
  proof (cases ty)
    case rip_db_all
    with a b o show ?thesis by (cases a) (auto simp: map_add_def split: option.split)
  qed (use a b o in auto)
qed

lemma rip_db_add_fresh:
  assumes inv: "db_inv db" and sp: "db_space 1 db" and m: "route_mask e \<noteq> 0xFFFFFFFF"
    and f: "ok_map db (route_key e) = None" "garbage_map db (route_key e) = None"
  shows "\<exists>db' s. rip_db_add ma db e = Some (db', e\<lparr>changed := True\<rparr>, s) \<and> db_inv db' \<and>
    garbage_routes db' = garbage_routes db \<and>
    (s = 0 \<and> ok_map db' = (ok_map db)(route_key e \<mapsto> e\<lparr>changed := True\<rparr>) \<and> any_route_changed db' \<or>
     s = 1 \<and> ok_map db' = ok_map db \<and> any_route_changed db' = any_route_changed db \<and> \<not> (\<forall>n. ma n))"
proof -
  let ?e = "e\<lparr>changed := True\<rparr>"
  note I = db_inv_parts [OF inv]
  have "ok_map db (route_key ?e) = None" using f by simp
  from hm.put_fresh [OF I(1) db_space_rooms(1) [OF sp order_refl] this, of ma] obtain ok where
    ok: "hashmap_set ma (ok_routes db) ?e = Some (ok, None)" "hm_inv route_key ok"
    "hashmap_oom ok \<longrightarrow> \<not> (\<forall>n. ma n)"
    "hm_lookup route_key ok = (if hashmap_oom ok then ok_map db else (ok_map db)(route_key e \<mapsto> ?e))"
    unfolding route_key_simps by blast
  have "dom (hm_lookup route_key ok) \<inter> dom (garbage_map db) = {}"
    unfolding ok(4) using I(3) f(2) by (auto simp: domIff)
  with db_inv_ok_upd [OF inv ok(2)] have "db_inv (db\<lparr>ok_routes := ok\<rparr>)" by blast
  with ok m show ?thesis
    by (cases "hashmap_oom ok") (simp_all add: rip_db_add_def Let_def log_route_eq)
qed

lemma rip_db_remove_refines:
  assumes inv: "db_inv db" and sp: "db_space 1 db"
  shows "\<exists>db'. rip_db_remove ma db e = Some (db',
      if ok_map db (route_key e) = None \<and> garbage_map db (route_key e) = None then 1 else 0) \<and>
    db_inv db' \<and> any_route_changed db' = any_route_changed db \<and>
    ok_map db' = (ok_map db)(route_key e := None) \<and>
    garbage_map db' = (garbage_map db)(route_key e := None)"
proof -
  note I = db_inv_parts [OF inv]
  note rooms = db_space_rooms [OF sp order_refl]
  from hm.del_law [OF I(1) rooms(1), of ma e] obtain ok where
    ok: "hashmap_delete ma (ok_routes db) e = Some (ok, ok_map db (route_key e))"
    "hm_inv route_key ok" "hm_lookup route_key ok = (ok_map db)(route_key e := None)" by blast
  from hm.del_law [OF I(2) rooms(2), of ma e] obtain g where
    g: "hashmap_delete ma (garbage_routes db) e = Some (g, garbage_map db (route_key e))"
    "hm_inv route_key g" "hm_lookup route_key g = (garbage_map db)(route_key e := None)" by blast
  show ?thesis
  proof (cases "ok_map db (route_key e)")
    case None
    with ok g I(3) show ?thesis
      by (auto simp: rip_db_remove_def Let_def db_inv_def)
  next
    case (Some r)
    with ok db_disjoint [OF inv Some] I show ?thesis
      by (auto simp: rip_db_remove_def Let_def db_inv_def fun_upd_idem)
  qed
qed

lemma rip_db_move_refines:
  assumes inv: "db_inv db" and sp: "db_space 1 db" and r: "ok_map db (route_key e) = Some r"
  shows "\<exists>db'. rip_db_move_to_garbage ma db e = Some (db', 0) \<and> db_inv db' \<and>
    any_route_changed db' = (any_route_changed db \<or> changed e) \<and>
    ok_map db' = (ok_map db)(route_key e := None) \<and>
    (garbage_map db' = (garbage_map db)(route_key e \<mapsto> r) \<or>
     garbage_map db' = garbage_map db \<and> \<not> (\<forall>n. ma n))"
proof -
  note I = db_inv_parts [OF inv]
  note rooms = db_space_rooms [OF sp order_refl]
  from hm.transfer [OF I(1) rooms(1) I(2) rooms(2) I(3) r, of ma] obtain ok g where
    "hashmap_delete ma (ok_routes db) e = Some (ok, Some r)"
    "hashmap_set ma (garbage_routes db) r = Some (g, None)" "hm_inv route_key ok" "hm_inv route_key g"
    "hm_lookup route_key ok = (ok_map db)(route_key e := None)"
    "dom (hm_lookup route_key ok) \<inter> dom (hm_lookup route_key g) = {}"
    "hashmap_oom g \<longrightarrow> \<not> (\<forall>n. ma n)"
    "hm_lookup route_key g = (if hashmap_oom g then garbage_map db else (garbage_map db)(route_key e \<mapsto> r))"
    by blast
  then show ?thesis
    by (cases "hashmap_oom g") (auto simp: rip_db_move_to_garbage_def Let_def db_inv_def)
qed

section \<open>Iteration over the database\<close>

text \<open>The routes an iteration over the whole database still has to visit, per map.\<close>

definition pend_ok :: "rip_db \<Rightarrow> db_iter \<Rightarrow> rip_route_description list" where
  "pend_ok db iter = (if ok_routes_iterated iter then [] else hm_pending (ok_routes db) (ok_routes_iter iter))"

definition pend_garbage :: "rip_db \<Rightarrow> db_iter \<Rightarrow> rip_route_description list" where
  "pend_garbage db iter = hm_pending (garbage_routes db) (garbage_routes_iter iter)"

fun db_valid :: "rip_db \<Rightarrow> rip_db_ref \<Rightarrow> bool" where
  "db_valid db (In_ok p) = hm_valid (ok_routes db) p"
| "db_valid db (In_garbage p) = hm_valid (garbage_routes db) p"

lemma iter_zero_sel [simp]:
  "ok_routes_iter iter_zero = 0" "garbage_routes_iter iter_zero = 0" "\<not> ok_routes_iterated iter_zero"
  by (simp_all add: iter_zero_def)

lemma iter_garbage_law:
  assumes inv: "db_inv db" and it: "rip_db_iter_garbage db iter = (iter', r)"
  shows "(r = None \<and> pend_garbage db iter = []) \<or>
    (\<exists>p. r = Some (In_garbage p) \<and> pend_garbage db iter = item_at (garbage_routes db) p # pend_garbage db iter' \<and>
      hm_valid (garbage_routes db) p \<and> (\<forall>f. pend_garbage (rip_db_write db (In_garbage p) f) iter' = pend_garbage db iter'))"
    and "ok_routes_iter iter' = ok_routes_iter iter" "ok_routes_iterated iter' = ok_routes_iterated iter"
  using it hm.iter_law [OF db_inv_parts(2) [OF inv], of "garbage_routes_iter iter"]
  by (auto simp: rip_db_iter_garbage_def pend_garbage_def split: prod.splits option.splits)

lemma iter_ok_law:
  assumes inv: "db_inv db" and it: "rip_db_iter_ok db iter = (iter', r)"
  shows "(r = None \<and> hm_pending (ok_routes db) (ok_routes_iter iter) = []) \<or>
    (\<exists>p. r = Some (In_ok p) \<and> hm_valid (ok_routes db) p \<and>
      hm_pending (ok_routes db) (ok_routes_iter iter) =
        item_at (ok_routes db) p # hm_pending (ok_routes db) (ok_routes_iter iter') \<and>
      (\<forall>f. hm_pending (modify_at (ok_routes db) p f) (ok_routes_iter iter') =
        hm_pending (ok_routes db) (ok_routes_iter iter')))"
    and "garbage_routes_iter iter' = garbage_routes_iter iter" "ok_routes_iterated iter' = ok_routes_iterated iter"
  using it hm.iter_law [OF db_inv_parts(1) [OF inv], of "ok_routes_iter iter"]
  by (auto simp: rip_db_iter_ok_def split: prod.splits option.splits)

lemma iter_all_law:
  assumes inv: "db_inv db"
  shows "case rip_db_iter_all db iter of
      (iter', None) \<Rightarrow> pend_ok db iter = [] \<and> pend_garbage db iter = []
    | (iter', Some r) \<Rightarrow> db_valid db r \<and>
        (\<forall>f. pend_ok (rip_db_write db r f) iter' = pend_ok db iter' \<and>
             pend_garbage (rip_db_write db r f) iter' = pend_garbage db iter') \<and>
        (case r of
           In_ok p \<Rightarrow> pend_ok db iter = rip_db_read db r # pend_ok db iter' \<and>
             pend_garbage db iter' = pend_garbage db iter
         | In_garbage p \<Rightarrow> pend_garbage db iter = rip_db_read db r # pend_garbage db iter' \<and>
             pend_ok db iter = [] \<and> pend_ok db iter' = [])"
proof (cases "ok_routes_iterated iter")
  case True
  obtain it r where g: "rip_db_iter_garbage db iter = (it, r)" by fastforce
  from iter_garbage_law [OF inv g] True show ?thesis
    by (auto simp: rip_db_iter_all_def g pend_ok_def)
next
  case False
  obtain it r where ok: "rip_db_iter_ok db iter = (it, r)" by fastforce
  note O = iter_ok_law [OF inv ok]
  obtain it2 r2 where g: "rip_db_iter_garbage db (it\<lparr>ok_routes_iterated := True\<rparr>) = (it2, r2)" by fastforce
  note G = iter_garbage_law [OF inv g]
  have pg: "pend_garbage db (it\<lparr>ok_routes_iterated := True\<rparr>) = pend_garbage db iter"
    using O(2) by (simp add: pend_garbage_def)
  show ?thesis
  proof (cases r)
    case None
    with O G pg False show ?thesis
      by (auto simp: rip_db_iter_all_def ok g pend_ok_def)
  next
    case (Some r')
    with O False show ?thesis
      by (auto simp: rip_db_iter_all_def ok pend_ok_def pend_garbage_def)
  qed
qed

lemma db_write_ok:
  assumes inv: "db_inv db" and v: "db_valid db r" and k: "route_key (f (rip_db_read db r)) = route_key (rip_db_read db r)"
  shows "db_inv (rip_db_write db r f)"
    and "ok_map (rip_db_write db r f) = (case r of
      In_ok p \<Rightarrow> (ok_map db)(route_key (rip_db_read db r) \<mapsto> f (rip_db_read db r)) | _ \<Rightarrow> ok_map db)"
    and "garbage_map (rip_db_write db r f) = (case r of
      In_garbage p \<Rightarrow> (garbage_map db)(route_key (rip_db_read db r) \<mapsto> f (rip_db_read db r)) | _ \<Rightarrow> garbage_map db)"
    and "(case r of In_ok p \<Rightarrow> ok_map db | In_garbage p \<Rightarrow> garbage_map db) (route_key (rip_db_read db r)) =
      Some (rip_db_read db r)"
proof -
  note I = db_inv_parts [OF inv]
  show st: "(case r of In_ok p \<Rightarrow> ok_map db | In_garbage p \<Rightarrow> garbage_map db) (route_key (rip_db_read db r)) =
      Some (rip_db_read db r)"
    using v hm.valid_stored [OF I(1)] hm.valid_stored [OF I(2)] by (cases r) auto
  have w: "db_inv (rip_db_write db r f) \<and> ok_map (rip_db_write db r f) = (case r of
      In_ok p \<Rightarrow> (ok_map db)(route_key (rip_db_read db r) \<mapsto> f (rip_db_read db r)) | _ \<Rightarrow> ok_map db) \<and>
    garbage_map (rip_db_write db r f) = (case r of
      In_garbage p \<Rightarrow> (garbage_map db)(route_key (rip_db_read db r) \<mapsto> f (rip_db_read db r)) | _ \<Rightarrow> garbage_map db)"
  proof (cases r)
    case (In_ok p)
    with hm.write_law [OF I(1), of p f] v k I st show ?thesis by (auto simp: db_inv_def insert_absorb domIff)
  next
    case (In_garbage p)
    with hm.write_law [OF I(2), of p f] v k I st show ?thesis by (auto simp: db_inv_def insert_absorb domIff)
  qed
  then show "db_inv (rip_db_write db r f)"
    "ok_map (rip_db_write db r f) = (case r of
      In_ok p \<Rightarrow> (ok_map db)(route_key (rip_db_read db r) \<mapsto> f (rip_db_read db r)) | _ \<Rightarrow> ok_map db)"
    "garbage_map (rip_db_write db r f) = (case r of
      In_garbage p \<Rightarrow> (garbage_map db)(route_key (rip_db_read db r) \<mapsto> f (rip_db_read db r)) | _ \<Rightarrow> garbage_map db)"
    by blast+
qed

text \<open>Applying \<open>f\<close> to the routes whose key is in \<open>K\<close>.\<close>

definition map_routes ::
  "(rip_route_description \<Rightarrow> rip_route_description) \<Rightarrow> route_id set \<Rightarrow>
   (route_id \<rightharpoonup> rip_route_description) \<Rightarrow> route_id \<rightharpoonup> rip_route_description" where
  "map_routes f K m = (\<lambda>k. if k \<in> K then map_option f (m k) else m k)"

lemma map_routes_empty [simp]: "map_routes f {} m = m"
  by (simp add: map_routes_def)

lemma map_routes_step:
  "m (route_key r) = Some r \<Longrightarrow> route_key r \<notin> K \<Longrightarrow>
   map_routes f K (m(route_key r \<mapsto> f r)) = map_routes f (insert (route_key r) K) m"
  by (auto simp: map_routes_def)

lemma pend_distinct:
  assumes "db_inv db"
  shows "distinct (map route_key (pend_ok db iter))" "distinct (map route_key (pend_garbage db iter))"
  using hm.pending_once [OF db_inv_parts(1) [OF assms]] hm.pending_once [OF db_inv_parts(2) [OF assms]]
  by (auto simp: pend_ok_def pend_garbage_def)

lemma update_all_end:
  "rip_db_iter_all db iter = (iter', None) \<Longrightarrow> rip_db_update_all f db iter = db"
  by (subst rip_db_update_all.simps) simp

lemma update_all_next:
  "rip_db_iter_all db iter = (iter', Some r) \<Longrightarrow>
   rip_db_update_all f db iter = rip_db_update_all f (rip_db_write db r f) iter'"
  by (subst rip_db_update_all.simps) simp

lemma flag_write [simp]: "any_route_changed (rip_db_write db r f) = any_route_changed db"
  by (cases r) simp_all

lemma update_all_refines:
  assumes "db_inv db" and f: "\<And>r. route_key (f r) = route_key r"
  shows "db_inv (rip_db_update_all f db iter) \<and>
    any_route_changed (rip_db_update_all f db iter) = any_route_changed db \<and>
    ok_map (rip_db_update_all f db iter) = map_routes f (route_key ` set (pend_ok db iter)) (ok_map db) \<and>
    garbage_map (rip_db_update_all f db iter) =
      map_routes f (route_key ` set (pend_garbage db iter)) (garbage_map db)"
  using assms(1)
proof (induction "iter_left db iter" arbitrary: db iter rule: less_induct)
  case less
  note law = iter_all_law [OF less.prems, of iter]
  obtain iter' r where it: "rip_db_iter_all db iter = (iter', r)" by fastforce
  show ?case
  proof (cases r)
    case None
    with law it less.prems show ?thesis by (simp add: update_all_end)
  next
    case (Some r')
    let ?db = "rip_db_write db r' f" and ?x = "rip_db_read db r'"
    have it': "rip_db_iter_all db iter = (iter', Some r')" using it Some by simp
    from law it' have v: "db_valid db r'" by simp
    note w = db_write_ok [OF less.prems v, of f, OF f]
    have "iter_left ?db iter' < iter_left db iter" using iter_left_all [OF it'] by simp
    note IH = less.hyps [OF this w(1)]
    note d = pend_distinct [OF less.prems, of iter]
    show ?thesis
    proof (cases r')
      case (In_ok p)
      then have p: "pend_ok db iter = ?x # pend_ok db iter'" "pend_garbage db iter' = pend_garbage db iter"
        "pend_ok ?db iter' = pend_ok db iter'" "pend_garbage ?db iter' = pend_garbage db iter'"
        using law it' by auto
      with IH d w(2-4) In_ok show ?thesis
        unfolding update_all_next [OF it'] by (simp add: map_routes_step del: rip_db_write.simps rip_db_read.simps)
    next
      case (In_garbage p)
      then have p: "pend_garbage db iter = ?x # pend_garbage db iter'" "pend_ok db iter = []"
        "pend_ok ?db iter' = []" "pend_garbage ?db iter' = pend_garbage db iter'"
        using law it' by auto
      with IH d w(2-4) In_garbage show ?thesis
        unfolding update_all_next [OF it'] by (simp add: map_routes_step del: rip_db_write.simps rip_db_read.simps)
    qed
  qed
qed

lemma pend_all:
  assumes "db_inv db"
  shows "set (pend_ok db iter_zero) = ran (ok_map db)" "set (pend_garbage db iter_zero) = ran (garbage_map db)"
  using hm.pending_all [OF db_inv_parts(1) [OF assms]] hm.pending_all [OF db_inv_parts(2) [OF assms]]
  by (auto simp: pend_ok_def pend_garbage_def)

lemma routes_distinct:
  assumes "db_inv db"
  shows "distinct (map route_key (pend_ok db iter_zero @ pend_garbage db iter_zero))"
proof -
  note p = pend_all [OF assms]
  have "route_key ` set (pend_ok db iter_zero) \<inter> route_key ` set (pend_garbage db iter_zero) = {}"
  proof (rule ccontr)
    assume "\<not> ?thesis"
    then obtain a b where ab: "a \<in> ran (ok_map db)" "b \<in> ran (garbage_map db)" "route_key a = route_key b"
      using p by blast
    from ab(1,2) obtain k l where kl: "ok_map db k = Some a" "garbage_map db l = Some b"
      unfolding ran_def by blast
    then have "k = l" using ok_key [OF assms kl(1)] garbage_key [OF assms kl(2)] ab(3) by simp
    with kl db_disjoint [OF assms kl(1)] show False by simp
  qed
  with pend_distinct [OF assms, of iter_zero] show ?thesis by simp
qed

text \<open>A whole loop from the start changes every route.\<close>

lemma map_routes_all:
  assumes "\<And>k r. m k = Some r \<Longrightarrow> route_key r = k"
  shows "map_routes f (route_key ` ran m) m = map_option f \<circ> m"
proof
  fix k show "map_routes f (route_key ` ran m) m k = (map_option f \<circ> m) k"
    using assms [of k] ranI [of m k] by (cases "m k") (force simp: map_routes_def)+
qed

lemma update_all_from_start:
  assumes "db_inv db" and "\<And>r. route_key (f r) = route_key r"
  shows "db_inv (rip_db_update_all f db iter_zero)"
    "any_route_changed (rip_db_update_all f db iter_zero) = any_route_changed db"
    "ok_map (rip_db_update_all f db iter_zero) = map_option f \<circ> ok_map db"
    "garbage_map (rip_db_update_all f db iter_zero) = map_option f \<circ> garbage_map db"
  using update_all_refines [OF assms, of iter_zero] pend_all [OF assms(1)]
    map_routes_all [of "ok_map db" f, OF ok_key [OF assms(1)]]
    map_routes_all [of "garbage_map db" f, OF garbage_key [OF assms(1)]] by simp_all

text \<open>The routes of the database, and the coverage of changed routes by the flag.\<close>

definition db_routes :: "rip_db \<Rightarrow> rip_route_description set" where
  "db_routes db = ran (ok_map db) \<union> ran (garbage_map db)"

definition flag_covers :: "rip_db \<Rightarrow> bool" where
  "flag_covers db \<longleftrightarrow> (\<exists>r\<in>db_routes db. changed r) \<longrightarrow> any_route_changed db"

lemma ran_map_option: "ran (map_option f \<circ> m) = f ` ran m"
  by (auto simp: ran_def)

lemma mark_unchanged_refines:
  assumes inv: "db_inv db" and cov: "flag_covers db"
  defines "db' \<equiv> rip_db_mark_all_routes_as_unchanged db"
  shows "db_inv db'" "\<not> any_route_changed db'"
    "ok_map db' = map_option (\<lambda>r. r\<lparr>changed := False\<rparr>) \<circ> ok_map db"
    "garbage_map db' = map_option (\<lambda>r. r\<lparr>changed := False\<rparr>) \<circ> garbage_map db"
proof -
  let ?f = "\<lambda>r :: rip_route_description. r\<lparr>changed := False\<rparr>"
  have id: "map_option ?f \<circ> m = m" if "\<not> any_route_changed db" "ran m \<subseteq> db_routes db" for m
  proof
    fix k
    have "\<not> changed r" if "m k = Some r" for r
      using cov \<open>\<not> any_route_changed db\<close> \<open>ran m \<subseteq> db_routes db\<close> ranI [of m k r, OF that]
      by (auto simp: flag_covers_def)
    then show "(map_option ?f \<circ> m) k = m k" by (cases "m k") (auto intro!: rip_route_description.equality)
  qed
  have sub: "ran (ok_map db) \<subseteq> db_routes db" "ran (garbage_map db) \<subseteq> db_routes db"
    by (auto simp: db_routes_def)
  have k: "\<And>r. route_key (?f r) = route_key r" by simp
  note u = update_all_from_start [OF inv, of ?f, OF k]
  show "db_inv db'" "\<not> any_route_changed db'"
    using inv u(1) by (simp_all add: db'_def rip_db_mark_all_routes_as_unchanged_def)
  show "ok_map db' = map_option ?f \<circ> ok_map db" "garbage_map db' = map_option ?f \<circ> garbage_map db"
    using u id [OF _ sub(1)] id [OF _ sub(2)]
    by (cases "any_route_changed db"; simp add: db'_def rip_db_mark_all_routes_as_unchanged_def)+
qed

lemma dump_end: "rip_db_iter_all db iter = (iter', None) \<Longrightarrow> rip_db_dump_from names db iter out = Some out"
  by (subst rip_db_dump_from.simps) (simp add: rip_db_iter_const_def)

lemma dump_next:
  "rip_db_iter_all db iter = (iter', Some r) \<Longrightarrow>
   rip_db_dump_from names db iter out = Option.bind (rip_route_description_print names (rip_db_read db r))
     (\<lambda>line. rip_db_dump_from names db iter' (out @ line))"
  by (subst rip_db_dump_from.simps) (simp add: rip_db_iter_const_def)

text \<open>The dump prints each pending route once, the routes in use first.\<close>

lemma dump_from_eq:
  assumes "db_inv db" and "\<And>r. r \<in> set (pend_ok db iter @ pend_garbage db iter) \<Longrightarrow> route_mask r \<noteq> 0xFFFFFFFF"
  shows "rip_db_dump_from names db iter out = Some (out @
    concat (map (\<lambda>r. the (rip_route_description_print names r)) (pend_ok db iter @ pend_garbage db iter)))"
  using assms(2)
proof (induction "iter_left db iter" arbitrary: iter out rule: less_induct)
  case less
  note law = iter_all_law [OF assms(1), of iter]
  obtain iter' r where it: "rip_db_iter_all db iter = (iter', r)" by fastforce
  show ?case
  proof (cases r)
    case None
    with law it show ?thesis by (simp add: dump_end)
  next
    case (Some r')
    then have it': "rip_db_iter_all db iter = (iter', Some r')" using it by simp
    have p: "pend_ok db iter @ pend_garbage db iter =
        rip_db_read db r' # pend_ok db iter' @ pend_garbage db iter'"
      using law it' by (cases r') auto
    with less.prems have "route_mask (rip_db_read db r') \<noteq> 0xFFFFFFFF" by auto
    then obtain line where line: "rip_route_description_print names (rip_db_read db r') = Some line"
      using route_print_None [of names "rip_db_read db r'"] by auto
    with less.hyps [OF iter_left_all [OF it']] less.prems p show ?thesis
      by (simp add: dump_next [OF it'])
  qed
qed

section \<open>Properties\<close>

text \<open>An empty database, and one with a single route, for the examples.\<close>

definition sample_db :: rip_db where
  "sample_db = the (rip_db_init (\<lambda>_. True) (\<lambda>_. True) (\<lambda>_. True))"

lemma sample_db_new: "rip_db_init (\<lambda>_. True) (\<lambda>_. True) (\<lambda>_. True) = Some sample_db"
  by (simp add: sample_db_def rip_db_init_def rip_db_new_map_def hashmap_new_def
      hashmap_new_with_allocator_def Let_def)

lemmas sample_db_ok = rip_db_init_ok [OF sample_db_new]

lemma sample_db_space: "db_space 100 sample_db" "db_space 1 sample_db"
  by (rule sample_db_ok(5), simp)+

definition sample_db1 :: rip_db where
  "sample_db1 = fst (the (rip_db_add (\<lambda>_. True) sample_db zero_route))"

lemma sample_db1_ok:
  "rip_db_add (\<lambda>_. True) sample_db zero_route = Some (sample_db1, zero_route\<lparr>changed := True\<rparr>, 0)"
  "db_inv sample_db1" "ok_map sample_db1 = [route_key zero_route \<mapsto> zero_route\<lparr>changed := True\<rparr>]"
  "garbage_map sample_db1 = Map.empty" "any_route_changed sample_db1"
proof -
  have "route_mask zero_route \<noteq> 0xFFFFFFFF" by (simp add: zero_route_def zero_entry_def)
  from rip_db_add_fresh [OF sample_db_ok(1) sample_db_space(2) this, of "\<lambda>_. True"]
  obtain db' where d: "rip_db_add (\<lambda>_. True) sample_db zero_route = Some (db', zero_route\<lparr>changed := True\<rparr>, 0)"
    "db_inv db'" "garbage_routes db' = garbage_routes sample_db" "any_route_changed db'"
    "ok_map db' = [route_key zero_route \<mapsto> zero_route\<lparr>changed := True\<rparr>]"
    by (auto simp: sample_db_ok)
  then have "sample_db1 = db'" by (simp add: sample_db1_def)
  with d sample_db_ok show
    "rip_db_add (\<lambda>_. True) sample_db zero_route = Some (sample_db1, zero_route\<lparr>changed := True\<rparr>, 0)"
    "db_inv sample_db1" "ok_map sample_db1 = [route_key zero_route \<mapsto> zero_route\<lparr>changed := True\<rparr>]"
    "garbage_map sample_db1 = Map.empty" "any_route_changed sample_db1" by simp_all
qed

lemma sample_db1_space: "db_space 1 sample_db1"
  using db_count_all [OF sample_db1_ok(2)] by (simp add: db_space_def sample_db1_ok)

text \<open>
  C29: moving a route in use to the garbage. \<^verbatim>\<open>rip_db_move_to_garbage\<close> returns 0 and keeps the
  database well formed; the route as it was stored goes from one map to the other, and a changed
  route raises the flag. When the second map cannot grow, the route is lost although the
  status is 0.
\<close>

theorem db_move_moves:
  assumes "db_inv db" "db_space 1 db" "ok_map db (route_key e) = Some r"
  shows "\<exists>db'. rip_db_move_to_garbage ma db e = Some (db', 0) \<and> db_inv db' \<and>
    any_route_changed db' = (any_route_changed db \<or> changed e) \<and>
    ok_map db' = (ok_map db)(route_key e := None) \<and>
    (garbage_map db' = (garbage_map db)(route_key e \<mapsto> r) \<or>
     garbage_map db' = garbage_map db \<and> \<not> (\<forall>n. ma n))"
  using assms by (rule rip_db_move_refines)

theorem db_move_moves_witness:
  "\<exists>db'. rip_db_move_to_garbage (\<lambda>_. True) sample_db1 zero_route = Some (db', 0) \<and>
     ok_map db' = Map.empty \<and> garbage_map db' = [route_key zero_route \<mapsto> zero_route\<lparr>changed := True\<rparr>]"
  using db_move_moves [OF sample_db1_ok(2) sample_db1_space, of zero_route _ "\<lambda>_. True"]
  by (auto simp: sample_db1_ok)

text \<open>
  C30: the dump for the command line client. If no stored route has the mask 255.255.255.255, on
  which the prefix length is undefined, \<^verbatim>\<open>rip_db_dump\<close> appends to the output one line per stored
  route, each route once, the routes in use first.
\<close>

theorem db_dump_complete:
  assumes "db_inv db" "\<And>r. r \<in> db_routes db \<Longrightarrow> route_mask r \<noteq> 0xFFFFFFFF"
  shows "\<exists>oks gs. rip_db_dump names out db = Some (out @
      concat (map (\<lambda>r. the (rip_route_description_print names r)) (oks @ gs))) \<and>
    set oks = ran (ok_map db) \<and> set gs = ran (garbage_map db) \<and> distinct (map route_key (oks @ gs))"
proof (intro exI conjI)
  let ?oks = "pend_ok db iter_zero" and ?gs = "pend_garbage db iter_zero"
  note p = pend_all [OF assms(1)]
  show "rip_db_dump names out db = Some (out @
      concat (map (\<lambda>r. the (rip_route_description_print names r)) (?oks @ ?gs)))"
    unfolding rip_db_dump_def by (rule dump_from_eq [OF assms(1)]) (use p assms(2) in \<open>auto simp: db_routes_def\<close>)
  show "set ?oks = ran (ok_map db)" "set ?gs = ran (garbage_map db)" by (rule p)+
  show "distinct (map route_key (?oks @ ?gs))" by (rule routes_distinct [OF assms(1)])
qed

theorem db_dump_complete_witness: "\<exists>t. rip_db_dump (\<lambda>_. None) [] sample_db1 = Some t"
  using db_dump_complete [OF sample_db1_ok(2), of "\<lambda>_. None" "[]"]
  by (auto simp: db_routes_def sample_db1_ok zero_route_def zero_entry_def)

end
