(* ===== verification/Rip_Os.thy ===== *)
theory Rip_Os
  imports Rip_Common Complex_Main
begin

text \<open>
  The code outside the repository that the daemon calls, as one record of functions: the C
  library's allocator and clock, sockets, timer descriptors, interface names, \<^verbatim>\<open>poll\<close>, and
  libnl. Nothing is assumed of these functions here. Every definition that calls one takes
  the record as its first argument; what a property relies on is a named hypothesis on it.

  The state of the machine outside the process is a value of the type \<open>'w\<close>, threaded through
  every call that may change it. The objects of libnl are opaque: \<open>'r\<close> is \<^verbatim>\<open>struct rtnl_route\<close>,
  \<open>'n\<close> is \<^verbatim>\<open>struct rtnl_nexthop\<close> and \<open>'a\<close> is \<^verbatim>\<open>struct nl_addr\<close>; a setter returns the changed
  object. Releasing memory has no counterpart.

  A datagram is its header and its entries; the two padding bytes of the header are always 0.
\<close>

record datagram =
  dg_header :: rip_header
  dg_entries :: "rip2_entry list"

record msg_buffer =
  header :: rip_header
  entries :: "rip2_entry list"

text \<open>How a handler ends: it returns a status, or the process exits (\<^verbatim>\<open>PANIC\<close>).\<close>

datatype ret = Returned int | Exited

record ('w, 'r, 'n, 'a) os =
  os_malloc :: "'w \<Rightarrow> nat \<Rightarrow> bool"
  os_clock_gettime :: "'w \<Rightarrow> 'w \<times> int \<times> timespec"
  os_rand :: "'w \<Rightarrow> 'w \<times> nat"
  os_rand_max :: nat
  os_if_nametoindex :: "'w \<Rightarrow> string \<Rightarrow> u32"
  os_if_indextoname :: "'w \<Rightarrow> int \<Rightarrow> string option"
  os_inet_pton :: "string \<Rightarrow> in_addr option"
  os_timerfd_create :: "'w \<Rightarrow> 'w \<times> int"
  os_timerfd_settime :: "'w \<Rightarrow> int \<Rightarrow> int \<Rightarrow> int \<Rightarrow> 'w \<times> int"
  os_read :: "'w \<Rightarrow> int \<Rightarrow> 'w \<times> int"
  os_socket :: "'w \<Rightarrow> 'w \<times> int"
  os_so_reuseport :: "'w \<Rightarrow> int \<Rightarrow> 'w \<times> int"
  os_so_bindtodevice :: "'w \<Rightarrow> int \<Rightarrow> string \<Rightarrow> 'w \<times> int"
  os_ip_add_membership :: "'w \<Rightarrow> int \<Rightarrow> int \<Rightarrow> string \<Rightarrow> 'w \<times> int"
  os_ip_multicast_loop :: "'w \<Rightarrow> int \<Rightarrow> 'w \<times> int"
  os_bind :: "'w \<Rightarrow> int \<Rightarrow> u16 \<Rightarrow> 'w \<times> int"
  os_fcntl_nonblock :: "'w \<Rightarrow> int \<Rightarrow> 'w \<times> int"
  os_close :: "'w \<Rightarrow> int \<Rightarrow> 'w"
  os_sendto :: "'w \<Rightarrow> int \<Rightarrow> in_addr \<Rightarrow> u16 \<Rightarrow> datagram \<Rightarrow> 'w \<times> int"
  os_recvfrom :: "'w \<Rightarrow> int \<Rightarrow> nat \<Rightarrow> 'w \<times> int \<times> in_addr \<times> msg_buffer"
  os_poll :: "'w \<Rightarrow> int list \<Rightarrow> 'w \<times> int \<times> (nat \<Rightarrow> u16)"
  os_mq_open_daemon :: "'w \<Rightarrow> 'w \<times> int"
  os_mq_open_cli :: "'w \<Rightarrow> 'w \<times> int"
  os_mq_receive :: "'w \<Rightarrow> int \<Rightarrow> nat \<Rightarrow> 'w \<times> int \<times> u32"
  os_mq_send :: "'w \<Rightarrow> int \<Rightarrow> u32 \<Rightarrow> string \<Rightarrow> 'w \<times> int"
  os_mq_close :: "'w \<Rightarrow> int \<Rightarrow> 'w"
  os_fmemopen :: "'w \<Rightarrow> nat \<Rightarrow> bool"
  os_fwrite :: "nat \<Rightarrow> string \<Rightarrow> string \<times> bool"
  nl_cache_dump_filter :: "'w \<Rightarrow> 'r \<Rightarrow> string"
  nl_cache_mngr_get_fd :: "'w \<Rightarrow> int"
  nl_socket_alloc :: "'w \<Rightarrow> 'w \<times> bool"
  nl_connect :: "'w \<Rightarrow> 'w \<times> int"
  nl_cache_mngr_alloc :: "'w \<Rightarrow> 'w \<times> int"
  nl_cache_mngr_add :: "'w \<Rightarrow> string \<Rightarrow> 'w \<times> int"
  rtnl_route_alloc :: "'w \<Rightarrow> 'w \<times> 'r option"
  rtnl_route_nh_alloc :: "'w \<Rightarrow> 'w \<times> 'n option"
  nl_addr_alloc :: "'w \<Rightarrow> nat \<Rightarrow> 'w \<times> 'a option"
  nl_addr_set_family :: "'a \<Rightarrow> nat \<Rightarrow> 'a"
  nl_addr_set_binary_addr :: "'a \<Rightarrow> in_addr \<Rightarrow> nat \<Rightarrow> 'a \<times> int"
  nl_addr_set_prefixlen :: "'a \<Rightarrow> u8 \<Rightarrow> 'a"
  rtnl_route_nh_set_gateway :: "'n \<Rightarrow> 'a \<Rightarrow> 'n"
  rtnl_route_nh_set_ifindex :: "'n \<Rightarrow> u32 \<Rightarrow> 'n"
  rtnl_route_nh_set_weight :: "'n \<Rightarrow> nat \<Rightarrow> 'n"
  rtnl_route_set_family :: "'r \<Rightarrow> nat \<Rightarrow> 'r \<times> int"
  rtnl_route_set_type :: "'r \<Rightarrow> nat \<Rightarrow> 'r \<times> int"
  rtnl_route_set_table :: "'r \<Rightarrow> nat \<Rightarrow> 'r"
  rtnl_route_set_protocol :: "'r \<Rightarrow> nat \<Rightarrow> 'r"
  rtnl_route_set_priority :: "'r \<Rightarrow> nat \<Rightarrow> 'r"
  rtnl_route_add_nexthop :: "'r \<Rightarrow> 'n \<Rightarrow> 'r"
  rtnl_route_set_dst :: "'r \<Rightarrow> 'a \<Rightarrow> 'r \<times> int"
  rtnl_route_add :: "'w \<Rightarrow> 'r \<Rightarrow> nat \<Rightarrow> 'w \<times> int"
  rtnl_route_delete :: "'w \<Rightarrow> 'r \<Rightarrow> nat \<Rightarrow> 'w \<times> int"
  nl_cache_mngr_data_ready :: "'w \<Rightarrow> 'w \<times> int"

text \<open>No allocation ever fails.\<close>

definition memory_ok :: "('w, 'r, 'n, 'a) os \<Rightarrow> bool" where
  "memory_ok os \<longleftrightarrow> (\<forall>w n. os_malloc os w n)"

text \<open>Constants of the system headers.\<close>

definition AF_INET :: nat where "AF_INET = 2"
definition RTN_UNICAST :: nat where "RTN_UNICAST = 1"
definition RT_TABLE_MAIN :: nat where "RT_TABLE_MAIN = 254"
definition RTPROT_RIP :: nat where "RTPROT_RIP = 189"
definition NLM_F_EXCL :: nat where "NLM_F_EXCL = 0x200"
definition POLLIN :: u16 where "POLLIN = 1"
definition IF_NAMESIZE :: nat where "IF_NAMESIZE = 16"

section \<open>A machine for examples\<close>

text \<open>
  A machine on which every call succeeds and whose state is the kernel's table of routes. A
  route is the list of the attributes set on it, its next hops and its destination. It shows
  that the hypotheses of the properties can hold.
\<close>

type_synonym sample_addr = "nat \<times> in_addr \<times> u8"
type_synonym sample_nexthop = "sample_addr \<times> u32 \<times> nat"
type_synonym sample_route = "nat list \<times> sample_nexthop list \<times> sample_addr"
type_synonym sample_world = "sample_route set"

text \<open>An entry for the network 10.1.0.0/16 with metric 2, as it is on the wire.\<close>

definition sample_entry :: rip2_entry where
  "sample_entry = \<lparr>routing_family_id = htons 2, route_tag = 0, ip_address = htonl 0x0A010000,
     subnet_mask = htonl 0xFFFF0000, next_hop = 0, metric = htonl 2\<rparr>"

definition sample_os :: "(sample_world, sample_route, sample_nexthop, sample_addr) os" where
  "sample_os = \<lparr>
     os_malloc = (\<lambda>w n. True),
     os_clock_gettime = (\<lambda>w. (w, 0, \<lparr>tv_sec = 1000, tv_nsec = 0\<rparr>)),
     os_rand = (\<lambda>w. (w, 1)),
     os_rand_max = 2,
     os_if_nametoindex = (\<lambda>w s. 3),
     os_if_indextoname = (\<lambda>w i. Some ''eth0''),
     os_inet_pton = (\<lambda>s. Some 0x0000010A),
     os_timerfd_create = (\<lambda>w. (w, 7)),
     os_timerfd_settime = (\<lambda>w fd s n. (w, 0)),
     os_read = (\<lambda>w fd. (w, 8)),
     os_socket = (\<lambda>w. (w, 5)),
     os_so_reuseport = (\<lambda>w fd. (w, 0)),
     os_so_bindtodevice = (\<lambda>w fd s. (w, 0)),
     os_ip_add_membership = (\<lambda>w fd i s. (w, 0)),
     os_ip_multicast_loop = (\<lambda>w fd. (w, 0)),
     os_bind = (\<lambda>w fd p. (w, 0)),
     os_fcntl_nonblock = (\<lambda>w fd. (w, 0)),
     os_close = (\<lambda>w fd. w),
     os_sendto = (\<lambda>w fd a p d. (w, int (4 + 20 * length (dg_entries d)))),
     os_recvfrom = (\<lambda>w fd n. (w, 24, 0x0200A8C0, \<lparr>header = \<lparr>command = 2, version = 2\<rparr>, entries = replicate msg_buffer_entries sample_entry\<rparr>)),
     os_poll = (\<lambda>w fds. (w, 1, \<lambda>i. if i = 0 then 1 else 0)),
     os_mq_open_daemon = (\<lambda>w. (w, 6)),
     os_mq_open_cli = (\<lambda>w. (w, 8)),
     os_mq_receive = (\<lambda>w fd n. (w, 4, 1)),
     os_mq_send = (\<lambda>w fd s t. (w, 0)),
     os_mq_close = (\<lambda>w fd. w),
     os_fmemopen = (\<lambda>w n. True),
     os_fwrite = (\<lambda>n t. (take n t, length t > n)),
     nl_cache_dump_filter = (\<lambda>w r. []),
     nl_cache_mngr_get_fd = (\<lambda>w. 9),
     nl_socket_alloc = (\<lambda>w. (w, True)),
     nl_connect = (\<lambda>w. (w, 0)),
     nl_cache_mngr_alloc = (\<lambda>w. (w, 0)),
     nl_cache_mngr_add = (\<lambda>w s. (w, 0)),
     rtnl_route_alloc = (\<lambda>w. (w, Some ([], [], (0, 0, 0)))),
     rtnl_route_nh_alloc = (\<lambda>w. (w, Some ((0, 0, 0), 0, 0))),
     nl_addr_alloc = (\<lambda>w n. (w, Some (0, 0, 0))),
     nl_addr_set_family = (\<lambda>(f, a, p) x. (x, a, p)),
     nl_addr_set_binary_addr = (\<lambda>(f, a, p) x n. ((f, x, p), 0)),
     nl_addr_set_prefixlen = (\<lambda>(f, a, p) x. (f, a, x)),
     rtnl_route_nh_set_gateway = (\<lambda>(g, i, wt) x. (x, i, wt)),
     rtnl_route_nh_set_ifindex = (\<lambda>(g, i, wt) x. (g, x, wt)),
     rtnl_route_nh_set_weight = (\<lambda>(g, i, wt) x. (g, i, x)),
     rtnl_route_set_family = (\<lambda>(as, ns, d) x. ((as @ [x], ns, d), 0)),
     rtnl_route_set_type = (\<lambda>(as, ns, d) x. ((as @ [x], ns, d), 0)),
     rtnl_route_set_table = (\<lambda>(as, ns, d) x. (as @ [x], ns, d)),
     rtnl_route_set_protocol = (\<lambda>(as, ns, d) x. (as @ [x], ns, d)),
     rtnl_route_set_priority = (\<lambda>(as, ns, d) x. (as @ [x], ns, d)),
     rtnl_route_add_nexthop = (\<lambda>(as, ns, d) x. (as, ns @ [x], d)),
     rtnl_route_set_dst = (\<lambda>(as, ns, d) x. ((as, ns, x), 0)),
     rtnl_route_add = (\<lambda>w r f. (insert r w, 0)),
     rtnl_route_delete = (\<lambda>w r f. (w - {r}, 0)),
     nl_cache_mngr_data_ready = (\<lambda>w. (w, 0))\<rparr>"

lemma sample_memory: "memory_ok sample_os" "os_malloc sample_os w = (\<lambda>n. True)"
  by (simp_all add: memory_ok_def sample_os_def)

end
