(* ===== verification/Rip_Config.thy ===== *)
theory Rip_Config
  imports Rip_Prelude "HOL-Library.Monad_Syntax"
begin

text \<open>
  Model of \<^verbatim>\<open>utils/config/parse_rip_config.c\<close>: the configuration file, loaded by libyaml into a
  document of numbered nodes, becomes a \<^verbatim>\<open>struct rip_configuration\<close>. libyaml is not part of the
  repository: a document is a record of the two functions the code calls, and what the calls on
  the parser return is an argument. A node is the tagged union of \<^verbatim>\<open>yaml.h\<close>.

  A pointer to an \<open>int\<close>, a string or an array is an option, with \<open>None\<close> for \<open>NULL\<close>. The
  allocator is a function with a state of its own, so each call may succeed or fail. The outer
  \<open>None\<close> of a result is undefined behaviour: a null or uninitialised pointer that is
  dereferenced, a member of the union that was not set, an index out of range.
\<close>

section \<open>Configurations and documents\<close>

record rip_interface =
  ifc_dev :: "string option"

record advertised_network =
  net_address :: "string option"
  net_prefix :: "int option"
  net_dev :: "string option"

record rip_configuration =
  cfg_version :: "int option"
  rip_interfaces :: "rip_interface list option"
  rip_interfaces_n :: nat
  advertised_networks :: "advertised_network list option"
  advertised_networks_n :: nat

definition zero_configuration :: rip_configuration where
  "zero_configuration = \<lparr>cfg_version = None, rip_interfaces = None, rip_interfaces_n = 0,
     advertised_networks = None, advertised_networks_n = 0\<rparr>"

datatype yaml_node =
    YAML_NO_NODE
  | YAML_SCALAR_NODE string
  | YAML_SEQUENCE_NODE "int list"
  | YAML_MAPPING_NODE "(int \<times> int) list"

record yaml_document =
  yaml_document_get_node :: "int \<Rightarrow> yaml_node option"
  yaml_document_get_root_node :: "yaml_node option"

text \<open>What opening the file, initialising the parser and loading the document return.\<close>

record config_source =
  file_opened :: bool
  parser_initialized :: bool
  parser_loaded :: "yaml_document option"

type_synonym 'm allocator = "'m \<Rightarrow> nat \<Rightarrow> 'm \<times> bool"

section \<open>Strings and numbers\<close>

text \<open>The bytes of a scalar, which libyaml ends with a \<open>NUL\<close>, as a C string.\<close>

definition c_str :: "string \<Rightarrow> string" where
  "c_str = takeWhile (\<lambda>c. c \<noteq> CHR 0x00)"

text \<open>\<^verbatim>\<open>KEY_NAME_CMP(key, name) == 0\<close>: \<open>strncmp\<close> compares only as many characters as the name has.\<close>

definition KEY_NAME_CMP :: "string \<Rightarrow> string \<Rightarrow> bool" where
  "KEY_NAME_CMP key name \<longleftrightarrow> take (length name) (c_str key) = name"

definition is_space :: "char \<Rightarrow> bool" where
  "is_space c \<longleftrightarrow> of_char c = (32::nat) \<or> 9 \<le> (of_char c :: nat) \<and> of_char c \<le> (13::nat)"

definition digit_value :: "char \<Rightarrow> nat" where
  "digit_value c = (let n = of_char c in
     if 48 \<le> n \<and> n \<le> 57 then n - 48 else if 97 \<le> n \<and> n \<le> 122 then n - 87
     else if 65 \<le> n \<and> n \<le> 90 then n - 55 else 36)"

fun read_digits :: "nat \<Rightarrow> nat \<Rightarrow> string \<Rightarrow> nat \<times> string" where
  "read_digits base acc [] = (acc, [])"
| "read_digits base acc (c # cs) =
     (if digit_value c < base then read_digits base (base * acc + digit_value c) cs else (acc, c # cs))"

definition LONG_MAX :: int where "LONG_MAX = 2 ^ 63 - 1"
definition LONG_MIN :: int where "LONG_MIN = - (2 ^ 63)"

fun read_sign :: "string \<Rightarrow> bool \<times> string" where
  "read_sign [] = (False, [])"
| "read_sign (c # cs) = (if c = CHR ''-'' then (True, cs) else if c = CHR ''+'' then (False, cs) else (False, c # cs))"

definition read_base :: "string \<Rightarrow> nat \<times> string" where
  "read_base s =
     (if 3 \<le> length s \<and> s ! 0 = CHR ''0'' \<and> (s ! 1 = CHR ''x'' \<or> s ! 1 = CHR ''X'') \<and> digit_value (s ! 2) < 16
      then (16, drop 2 s)
      else if s \<noteq> [] \<and> s ! 0 = CHR ''0'' then (8, s) else (10, s))"

text \<open>\<^verbatim>\<open>strtol(str, &end, 0)\<close>: the value, the rest of the string and whether \<^verbatim>\<open>errno\<close> is \<^verbatim>\<open>ERANGE\<close>.\<close>

definition strtol :: "string \<Rightarrow> int \<times> string \<times> bool" where
  "strtol str =
     (let (neg, s) = read_sign (dropWhile is_space str);
          (base, s) = read_base s;
          (n, rest) = read_digits base 0 s;
          v = (if neg then - int n else int n) in
      if length rest = length s then (0, str, False)
      else if v > LONG_MAX then (LONG_MAX, rest, True)
      else if v < LONG_MIN then (LONG_MIN, rest, True)
      else (v, rest, False))"

text \<open>The value stored, converted from \<open>long\<close> to \<open>int\<close>; \<open>None\<close> is the return value 1.\<close>

definition str_to_int :: "string \<Rightarrow> int option" where
  "str_to_int str =
     (let (val, temp, erange) = strtol str in
      if temp = str \<or> temp \<noteq> [] \<or> (val = LONG_MIN \<or> val = LONG_MAX) \<and> erange then None
      else Some (sint (word_of_int val :: 32 word)))"

section \<open>Pairs of scalars\<close>

abbreviation key_not_found :: int where
  "key_not_found \<equiv> 2"

text \<open>\<open>out\<close> is the value the out parameter points to before and after the call.\<close>

definition extract_str_from_str_str_pair ::
  "'m allocator \<Rightarrow> 'm \<Rightarrow> yaml_document \<Rightarrow> int \<times> int \<Rightarrow> string \<Rightarrow> string option \<Rightarrow> 'm \<times> string option \<times> int" where
  "extract_str_from_str_str_pair malloc m document pair key_name out =
     (case (yaml_document_get_node document (fst pair), yaml_document_get_node document (snd pair)) of
        (Some (YAML_SCALAR_NODE key), Some (YAML_SCALAR_NODE val)) \<Rightarrow>
          if KEY_NAME_CMP key key_name then
            let (m, ok) = malloc m (length (c_str val) + 1) in (m, if ok then Some (c_str val) else None, 0)
          else (m, out, key_not_found)
      | _ \<Rightarrow> (m, out, 1))"

definition extract_int_from_str_str_pair ::
  "'m allocator \<Rightarrow> 'm \<Rightarrow> yaml_document \<Rightarrow> int \<times> int \<Rightarrow> string \<Rightarrow> int option \<Rightarrow> ('m \<times> int option \<times> int) option" where
  "extract_int_from_str_str_pair malloc m document pair key_name out =
     (case extract_str_from_str_str_pair malloc m document pair key_name None of (m, str, status) \<Rightarrow>
      if status \<noteq> 0 then Some (m, out, status)
      else do {
        s \<leftarrow> str;
        case str_to_int s of
          None \<Rightarrow> Some (m, out, 1)
        | Some tmp \<Rightarrow> let (m, ok) = malloc m 4 in if ok then Some (m, Some tmp, 0) else None
      })"

section \<open>Sequences of mappings\<close>

text \<open>
  \<^verbatim>\<open>parse_sequence_of_mappings\<close> is given the callbacks \<open>cb_length\<close>, which allocates the array, and
  \<open>cb_pair\<close>, which stores what a pair says in the element with the given index.
\<close>

fun sequence_pairs ::
  "('m \<Rightarrow> nat \<Rightarrow> int \<times> int \<Rightarrow> 'e list option \<Rightarrow> ('m \<times> 'e list option \<times> int) option) \<Rightarrow>
   'm \<Rightarrow> nat \<Rightarrow> (int \<times> int) list \<Rightarrow> 'e list option \<Rightarrow> ('m \<times> 'e list option \<times> int) option" where
  "sequence_pairs cb_pair m seq_idx [] arr = Some (m, arr, 0)"
| "sequence_pairs cb_pair m seq_idx (p # ps) arr = do {
     (m, arr, ec) \<leftarrow> cb_pair m seq_idx p arr;
     if ec \<noteq> 0 then Some (m, arr, 1) else sequence_pairs cb_pair m seq_idx ps arr
   }"

fun sequence_items ::
  "yaml_document \<Rightarrow> ('m \<Rightarrow> nat \<Rightarrow> int \<times> int \<Rightarrow> 'e list option \<Rightarrow> ('m \<times> 'e list option \<times> int) option) \<Rightarrow>
   'm \<Rightarrow> nat \<Rightarrow> int list \<Rightarrow> 'e list option \<Rightarrow> ('m \<times> 'e list option \<times> int) option" where
  "sequence_items document cb_pair m seq_idx [] arr = Some (m, arr, 0)"
| "sequence_items document cb_pair m seq_idx (item # items) arr =
     (case yaml_document_get_node document item of
        Some (YAML_MAPPING_NODE pairs) \<Rightarrow> do {
          (m, arr, ec) \<leftarrow> sequence_pairs cb_pair m seq_idx pairs arr;
          if ec \<noteq> 0 then Some (m, arr, 1) else sequence_items document cb_pair m (seq_idx + 1) items arr
        }
      | _ \<Rightarrow> sequence_items document cb_pair m seq_idx items arr)"

definition parse_sequence_of_mappings ::
  "yaml_document \<Rightarrow> int \<Rightarrow> ('m \<Rightarrow> nat \<Rightarrow> nat \<Rightarrow> 'm \<times> 'e list option \<times> nat \<times> int) \<Rightarrow>
   ('m \<Rightarrow> nat \<Rightarrow> int \<times> int \<Rightarrow> 'e list option \<Rightarrow> ('m \<times> 'e list option \<times> int) option) \<Rightarrow>
   'm \<Rightarrow> 'e list option \<Rightarrow> nat \<Rightarrow> ('m \<times> 'e list option \<times> nat \<times> int) option" where
  "parse_sequence_of_mappings document item cb_length cb_pair m arr n =
     (case yaml_document_get_node document item of
        Some (YAML_SEQUENCE_NODE items) \<Rightarrow>
          (case cb_length m (length items) n of (m, arr, n, ec) \<Rightarrow>
           if ec \<noteq> 0 then Some (m, arr, n, 1)
           else do {
             (m, arr, ec) \<leftarrow> sequence_items document cb_pair m 0 items arr;
             Some (m, arr, n, ec)
           })
      | _ \<Rightarrow> Some (m, arr, n, 1))"

section \<open>Interfaces\<close>

definition parse_rip_interfaces_length ::
  "'m allocator \<Rightarrow> 'm \<Rightarrow> nat \<Rightarrow> nat \<Rightarrow> 'm \<times> rip_interface list option \<times> nat \<times> int" where
  "parse_rip_interfaces_length malloc m sequence_length n =
     (case malloc m (8 * sequence_length) of (m, ok) \<Rightarrow>
      if ok then (m, Some (replicate sequence_length \<lparr>ifc_dev = None\<rparr>), sequence_length, 0)
      else (m, None, n, 1))"

definition parse_rip_interfaces_item ::
  "'m allocator \<Rightarrow> yaml_document \<Rightarrow> 'm \<Rightarrow> nat \<Rightarrow> int \<times> int \<Rightarrow> rip_interface list option \<Rightarrow>
   ('m \<times> rip_interface list option \<times> int) option" where
  "parse_rip_interfaces_item malloc document m sequence_idx mapping_pair ifcs = do {
     view \<leftarrow> ifcs;
     if sequence_idx < length view then
       let ifc = view ! sequence_idx;
           (m, d, ec) = extract_str_from_str_str_pair malloc m document mapping_pair ''dev'' (ifc_dev ifc);
           ifc = ifc\<lparr>ifc_dev := d\<rparr>
       in Some (m, Some (view[sequence_idx := ifc]), if ec = 1 then 1 else 0)
     else None
   }"

definition parse_rip_interfaces ::
  "'m allocator \<Rightarrow> 'm \<Rightarrow> yaml_document \<Rightarrow> int \<Rightarrow> rip_interface list option \<Rightarrow> nat \<Rightarrow>
   ('m \<times> rip_interface list option \<times> nat \<times> int) option" where
  "parse_rip_interfaces malloc m document item out n =
     parse_sequence_of_mappings document item (parse_rip_interfaces_length malloc)
       (parse_rip_interfaces_item malloc document) m out n"

section \<open>Advertised networks\<close>

definition zero_network :: advertised_network where
  "zero_network = \<lparr>net_address = None, net_prefix = None, net_dev = None\<rparr>"

definition parse_rip_advertised_networks_length ::
  "'m allocator \<Rightarrow> 'm \<Rightarrow> nat \<Rightarrow> nat \<Rightarrow> 'm \<times> advertised_network list option \<times> nat \<times> int" where
  "parse_rip_advertised_networks_length malloc m sequence_length n =
     (case malloc m (24 * sequence_length) of (m, ok) \<Rightarrow>
      if ok then (m, Some (replicate sequence_length zero_network), sequence_length, 0)
      else (m, None, n, 1))"

definition parse_rip_advertised_networks_item ::
  "'m allocator \<Rightarrow> yaml_document \<Rightarrow> 'm \<Rightarrow> nat \<Rightarrow> int \<times> int \<Rightarrow> advertised_network list option \<Rightarrow>
   ('m \<times> advertised_network list option \<times> int) option" where
  "parse_rip_advertised_networks_item malloc document m sequence_idx mapping_pair adv_nets = do {
     view \<leftarrow> adv_nets;
     if sequence_idx < length view then
       let net = view ! sequence_idx;
           (m, d, ec) = extract_str_from_str_str_pair malloc m document mapping_pair ''dev'' (net_dev net);
           net = net\<lparr>net_dev := d\<rparr>
       in if ec = 1 then Some (m, Some (view[sequence_idx := net]), 1)
       else do {
         (m, p, ec) \<leftarrow> extract_int_from_str_str_pair malloc m document mapping_pair ''prefix'' (net_prefix net);
         let net = net\<lparr>net_prefix := p\<rparr>;
         if ec = 1 then Some (m, Some (view[sequence_idx := net]), 1)
         else
           let (m, a, ec) = extract_str_from_str_str_pair malloc m document mapping_pair ''address'' (net_address net);
               net = net\<lparr>net_address := a\<rparr>
           in Some (m, Some (view[sequence_idx := net]), if ec = 1 then 1 else 0)
       }
     else None
   }"

definition parse_rip_advertised_networks ::
  "'m allocator \<Rightarrow> 'm \<Rightarrow> yaml_document \<Rightarrow> int \<Rightarrow> advertised_network list option \<Rightarrow> nat \<Rightarrow>
   ('m \<times> advertised_network list option \<times> nat \<times> int) option" where
  "parse_rip_advertised_networks malloc m document item out n =
     parse_sequence_of_mappings document item (parse_rip_advertised_networks_length malloc)
       (parse_rip_advertised_networks_item malloc document) m out n"

section \<open>The configuration\<close>

text \<open>The type of the node with the version is not checked: the scalar member of another node is garbage.\<close>

definition parse_rip_version ::
  "'m allocator \<Rightarrow> 'm \<Rightarrow> yaml_document \<Rightarrow> int \<Rightarrow> ('m \<times> int option \<times> int) option" where
  "parse_rip_version malloc m document item =
     (case malloc m 4 of (m, ok) \<Rightarrow>
      if \<not> ok then Some (m, None, 1)
      else case yaml_document_get_node document item of
        None \<Rightarrow> Some (m, Some 0, 1)
      | Some (YAML_SCALAR_NODE s) \<Rightarrow>
          (case str_to_int (c_str s) of None \<Rightarrow> Some (m, Some 0, 1) | Some v \<Rightarrow> Some (m, Some v, 0))
      | Some _ \<Rightarrow> None)"

text \<open>The condition \<^verbatim>\<open>key->type == YAML_SCALAR_NODE && KEY_NAME_CMP(key, name) == 0\<close>.\<close>

fun key_is :: "yaml_node \<Rightarrow> string \<Rightarrow> bool" where
  "key_is (YAML_SCALAR_NODE key) name = KEY_NAME_CMP key name"
| "key_is _ name = False"

text \<open>One pair of the mapping under \<^verbatim>\<open>rip_configuration\<close>.\<close>

definition parse_rip_configuration_pair ::
  "'m allocator \<Rightarrow> 'm \<Rightarrow> yaml_document \<Rightarrow> int \<times> int \<Rightarrow> rip_configuration \<Rightarrow> ('m \<times> rip_configuration \<times> int) option" where
  "parse_rip_configuration_pair malloc m document it cfg =
     (case yaml_document_get_node document (fst it) of
        None \<Rightarrow> Some (m, cfg, 0)
      | Some key \<Rightarrow> do {
          (m, cfg, ec) \<leftarrow>
            (if key_is key ''version'' then do {
               (m, v, ec) \<leftarrow> parse_rip_version malloc m document (snd it);
               Some (m, cfg\<lparr>cfg_version := v\<rparr>, ec)
             } else Some (m, cfg, 0));
          if ec \<noteq> 0 then Some (m, cfg, 1)
          else do {
            (m, cfg, ec) \<leftarrow>
              (if key_is key ''rip_interfaces'' then do {
                 (m, arr, n, ec) \<leftarrow> parse_rip_interfaces malloc m document (snd it)
                    (rip_interfaces cfg) (rip_interfaces_n cfg);
                 Some (m, cfg\<lparr>rip_interfaces := arr, rip_interfaces_n := n\<rparr>, ec)
               } else Some (m, cfg, 0));
            if ec \<noteq> 0 then Some (m, cfg, 1)
            else do {
              (m, cfg, ec) \<leftarrow>
                (if key_is key ''advertised_networks'' then do {
                   (m, arr, n, ec) \<leftarrow> parse_rip_advertised_networks malloc m document (snd it)
                      (advertised_networks cfg) (advertised_networks_n cfg);
                   Some (m, cfg\<lparr>advertised_networks := arr, advertised_networks_n := n\<rparr>, ec)
                 } else Some (m, cfg, 0));
              Some (m, cfg, if ec \<noteq> 0 then 1 else 0)
            }
          }
        })"

fun parse_rip_configuration_pairs ::
  "'m allocator \<Rightarrow> 'm \<Rightarrow> yaml_document \<Rightarrow> (int \<times> int) list \<Rightarrow> rip_configuration \<Rightarrow>
   ('m \<times> rip_configuration \<times> int) option" where
  "parse_rip_configuration_pairs malloc m document [] cfg = Some (m, cfg, 0)"
| "parse_rip_configuration_pairs malloc m document (it # its) cfg = do {
     (m, cfg, ec) \<leftarrow> parse_rip_configuration_pair malloc m document it cfg;
     if ec \<noteq> 0 then Some (m, cfg, 1) else parse_rip_configuration_pairs malloc m document its cfg
   }"

text \<open>
  The root node is used without a check: it may be missing (an empty file) or have another type,
  and the first pair of an empty mapping is read.
\<close>

definition parse_rip_configuration ::
  "'m allocator \<Rightarrow> 'm \<Rightarrow> yaml_document \<Rightarrow> yaml_node option \<Rightarrow> ('m \<times> rip_configuration \<times> int) option" where
  "parse_rip_configuration malloc m document node =
     (case node of
        Some (YAML_MAPPING_NODE (pair # _)) \<Rightarrow>
          (case (yaml_document_get_node document (fst pair), yaml_document_get_node document (snd pair)) of
             (Some (YAML_SCALAR_NODE key), Some (YAML_MAPPING_NODE its)) \<Rightarrow>
               if \<not> KEY_NAME_CMP key ''rip_configuration'' then Some (m, zero_configuration, 1)
               else parse_rip_configuration_pairs malloc m document its zero_configuration
           | _ \<Rightarrow> Some (m, zero_configuration, 1))
      | _ \<Rightarrow> None)"

text \<open>A loop over the first \<open>n\<close> elements of an array that returns 1 at the first one that fails a check.\<close>

fun check_items :: "('e \<Rightarrow> bool) \<Rightarrow> 'e list \<Rightarrow> nat \<Rightarrow> int option" where
  "check_items ok xs 0 = Some 0"
| "check_items ok [] (Suc n) = None"
| "check_items ok (x # xs) (Suc n) = (if ok x then check_items ok xs n else Some 1)"

definition rip_configuration_validate :: "rip_configuration \<Rightarrow> int option" where
  "rip_configuration_validate cfg =
     (case (cfg_version cfg, rip_interfaces cfg) of
        (Some _, Some ifcs) \<Rightarrow> do {
          ec \<leftarrow> check_items (\<lambda>ifc. ifc_dev ifc \<noteq> None) ifcs (rip_interfaces_n cfg);
          if ec \<noteq> 0 then Some 1
          else if advertised_networks_n cfg > 0 then do {
            nets \<leftarrow> advertised_networks cfg;
            check_items (\<lambda>net. net_dev net \<noteq> None \<and> net_prefix net \<noteq> None \<and> net_address net \<noteq> None)
              nets (advertised_networks_n cfg)
          }
          else Some 0
        }
      | _ \<Rightarrow> Some 1)"

text \<open>The elements a loop up to \<open>n\<close> reads, if all of them exist.\<close>

definition array_view :: "'e list option \<Rightarrow> nat \<Rightarrow> 'e list option" where
  "array_view p n = (if n = 0 then Some [] else do { xs \<leftarrow> p; if n \<le> length xs then Some (take n xs) else None })"

text \<open>Printing is defined if the pointers it dereferences are set and its indices are in range.\<close>

definition rip_configuration_print :: "rip_configuration \<Rightarrow> unit option" where
  "rip_configuration_print cfg = do {
     v \<leftarrow> cfg_version cfg;
     ifcs \<leftarrow> (if rip_interfaces_n cfg > 0 then rip_interfaces cfg else Some []);
     ec \<leftarrow> check_items (\<lambda>ifc. ifc_dev ifc \<noteq> None) ifcs (rip_interfaces_n cfg);
     if ec \<noteq> 0 then None
     else if advertised_networks_n cfg > 0 then do {
       nets \<leftarrow> advertised_networks cfg;
       ec \<leftarrow> check_items (\<lambda>net. net_address net \<noteq> None \<and> net_prefix net \<noteq> None \<and> net_dev net \<noteq> None)
         nets (advertised_networks_n cfg);
       if ec \<noteq> 0 then None else Some ()
     }
     else Some ()
   }"

text \<open>
  When the parser cannot be initialised, the clean-up deletes a document that was never
  initialised; a document that failed to load is left empty by libyaml.
\<close>

definition rip_configuration_read_and_parse ::
  "'m allocator \<Rightarrow> 'm \<Rightarrow> config_source \<Rightarrow> rip_configuration \<Rightarrow> ('m \<times> rip_configuration \<times> int) option" where
  "rip_configuration_read_and_parse malloc m src cfg =
     (if \<not> parser_initialized src then None
      else case parser_loaded src of
        None \<Rightarrow> Some (m, cfg, 1)
      | Some document \<Rightarrow> do {
          (m, cfg, ec) \<leftarrow> parse_rip_configuration malloc m document (yaml_document_get_root_node document);
          Some (m, cfg, if ec \<noteq> 0 then 1 else 0)
        })"

text \<open>When the file cannot be opened, \<^verbatim>\<open>fclose\<close> is called with a null pointer.\<close>

definition rip_read_config ::
  "'m allocator \<Rightarrow> 'm \<Rightarrow> config_source \<Rightarrow> rip_configuration \<Rightarrow> ('m \<times> rip_configuration \<times> int) option" where
  "rip_read_config malloc m src cfg =
     (if \<not> file_opened src then None
      else do {
        (m, cfg, ec) \<leftarrow> rip_configuration_read_and_parse malloc m src cfg;
        if ec \<noteq> 0 then Some (m, cfg, 1)
        else do {
          ec \<leftarrow> rip_configuration_validate cfg;
          Some (m, cfg, if ec \<noteq> 0 then 1 else 0)
        }
      })"

text \<open>
  The blocks that are given back to the allocator, in order: \<^verbatim>\<open>free\<close> of a null pointer does nothing, and a loop over an array
  that does not exist is undefined.
\<close>

datatype config_block =
    Block_int int
  | Block_string string
  | Block_interfaces "rip_interface list"
  | Block_networks "advertised_network list"

definition free_ptr :: "('p \<Rightarrow> config_block) \<Rightarrow> 'p option \<Rightarrow> config_block list" where
  "free_ptr block p = (case p of None \<Rightarrow> [] | Some x \<Rightarrow> [block x])"

definition rip_configuration_destroy :: "rip_configuration option \<Rightarrow> config_block list option" where
  "rip_configuration_destroy rip_config =
     (case rip_config of
        None \<Rightarrow> Some []
      | Some cfg \<Rightarrow> do {
          nets \<leftarrow> array_view (advertised_networks cfg) (advertised_networks_n cfg);
          ifcs \<leftarrow> array_view (rip_interfaces cfg) (rip_interfaces_n cfg);
          Some (free_ptr Block_int (cfg_version cfg) @
            concat (map (\<lambda>net. free_ptr Block_string (net_address net) @ free_ptr Block_string (net_dev net) @
              free_ptr Block_int (net_prefix net)) nets) @
            free_ptr Block_networks (advertised_networks cfg) @
            concat (map (\<lambda>ifc. free_ptr Block_string (ifc_dev ifc)) ifcs) @
            free_ptr Block_interfaces (rip_interfaces cfg))
        })"

section \<open>Reading numbers\<close>

lemma digit_value_digit [simp]: "d < 10 \<Longrightarrow> digit_value (char_of (48 + d :: nat)) = d"
  by (simp add: digit_value_def Let_def)

lemma read_digits_append:
  assumes "\<forall>c\<in>set xs. digit_value c < base"
  shows "read_digits base acc (xs @ ys) = read_digits base (fold (\<lambda>c a. base * a + digit_value c) xs acc) ys"
  using assms by (induction xs arbitrary: acc) auto

lemma show_nat_digits: "c \<in> set (show_nat n) \<Longrightarrow> \<exists>d<10. c = char_of (48 + d :: nat)"
proof (induction n rule: show_nat.induct)
  case (1 n)
  from "1.prems" have "n < 10 \<and> c = char_of (48 + n) \<or> \<not> n < 10 \<and> c \<in> set (show_nat (n div 10)) \<or>
      c = char_of (48 + n mod 10)"
    by (subst (asm) show_nat.simps) (auto split: if_splits)
  with "1.IH" show ?case by (metis mod_less_divisor zero_less_numeral)
qed

lemma show_nat_value: "fold (\<lambda>c a. 10 * a + digit_value c) (show_nat n) 0 = n"
proof (induction n rule: show_nat.induct)
  case (1 n)
  then show ?case by (subst show_nat.simps) simp
qed

lemma read_show_nat: "read_digits 10 0 (show_nat n) = (n, [])"
proof -
  have "\<forall>c\<in>set (show_nat n). digit_value c < 10" using show_nat_digits by fastforce
  from read_digits_append [OF this, of 0 "[]"] show ?thesis by (simp add: show_nat_value)
qed

text \<open>A number starts with the digit 0 only if it is 0.\<close>

lemma show_nat_head:
  "\<exists>d cs. show_nat n = char_of (48 + d :: nat) # cs \<and> d < 10 \<and> (d = 0 \<longrightarrow> n = 0 \<and> cs = [])"
proof (induction n rule: show_nat.induct)
  case (1 n)
  show ?case
  proof (cases "n < 10")
    case True
    then show ?thesis by (intro exI [of _ n] exI [of _ "[]"]) (subst show_nat.simps, simp)
  next
    case False
    with 1 obtain d cs where "show_nat (n div 10) = char_of (48 + d :: nat) # cs" "d < 10" "d = 0 \<longrightarrow> n div 10 = 0"
      by blast
    with False show ?thesis
      by (intro exI [of _ d] exI [of _ "cs @ [char_of (48 + n mod 10)]"]) (subst show_nat.simps, auto)
  qed
qed

lemma strtol_show_nat:
  "strtol (show_nat n) = (if int n > LONG_MAX then (LONG_MAX, [], True) else (int n, [], False))"
  "strtol (CHR ''-'' # show_nat n) = (if - int n < LONG_MIN then (LONG_MIN, [], True) else (- int n, [], False))"
proof -
  obtain d cs where h: "show_nat n = char_of (48 + d :: nat) # cs" "d < 10" "d = 0 \<longrightarrow> n = 0 \<and> cs = []"
    using show_nat_head by blast
  have c: "\<not> is_space (char_of (48 + d :: nat))" "char_of (48 + d :: nat) \<noteq> CHR ''-''" "char_of (48 + d :: nat) \<noteq> CHR ''+''"
    using h(2) by (auto simp: is_space_def dest: arg_cong [of _ _ "of_char :: char \<Rightarrow> nat"])
  have z: "char_of (48 + d :: nat) = CHR ''0'' \<longleftrightarrow> d = 0"
  proof
    show "char_of (48 + d :: nat) = CHR ''0'' \<Longrightarrow> d = 0"
      using h(2) by (auto dest: arg_cong [of _ _ "of_char :: char \<Rightarrow> nat"])
    have "char_of (48::nat) = CHR ''0''" by code_simp
    then show "d = 0 \<Longrightarrow> char_of (48 + d :: nat) = CHR ''0''" by simp
  qed
  have "\<exists>base. read_base (show_nat n) = (base, show_nat n) \<and> read_digits base 0 (show_nat n) = (n, [])"
  proof (cases "d = 0")
    case True
    with h z have "show_nat n = [CHR ''0'']" "n = 0" by simp_all
    then show ?thesis by (simp add: read_base_def digit_value_def)
  next
    case False
    then have "read_base (show_nat n) = (10, show_nat n)" using h(1) z by (simp add: read_base_def)
    then show ?thesis using read_show_nat by blast
  qed
  then obtain base where b: "read_base (show_nat n) = (base, show_nat n)" "read_digits base 0 (show_nat n) = (n, [])"
    by blast
  have s: "dropWhile is_space (show_nat n) = show_nat n" "read_sign (show_nat n) = (False, show_nat n)" "show_nat n \<noteq> []"
    using c by (simp_all add: h(1))
  show "strtol (show_nat n) = (if int n > LONG_MAX then (LONG_MAX, [], True) else (int n, [], False))"
    using b s by (simp add: strtol_def LONG_MIN_def)
  show "strtol (CHR ''-'' # show_nat n) = (if - int n < LONG_MIN then (LONG_MIN, [], True) else (- int n, [], False))"
    using b s(3) by (simp add: strtol_def is_space_def LONG_MAX_def LONG_MIN_def)
qed

text \<open>
  C37: numbers in the configuration. On the decimal text of an integer \<^verbatim>\<open>str_to_int\<close> returns the
  integer if it fits an \<open>int\<close>; a larger one that fits a \<open>long\<close> is accepted and cut to its low
  32 bits; any other is an error.
\<close>

theorem str_to_int_decimal:
  "str_to_int (show_int v) =
     (if - (2 ^ 31) \<le> v \<and> v < 2 ^ 31 then Some v
      else if LONG_MIN \<le> v \<and> v \<le> LONG_MAX then Some (sint (word_of_int v :: 32 word))
      else None)"
proof -
  have "strtol (show_int v) = (if v > LONG_MAX then (LONG_MAX, [], True)
      else if v < LONG_MIN then (LONG_MIN, [], True) else (v, [], False))"
    by (simp add: show_int_def strtol_show_nat LONG_MAX_def LONG_MIN_def)
  moreover have "show_int v \<noteq> []" using show_nat_head [of "nat v"] by (auto simp: show_int_def)
  moreover have "sint (word_of_int v :: 32 word) = v" if "- (2 ^ 31) \<le> v \<and> v < 2 ^ 31"
    using that by (simp add: signed_take_bit_int_eq_self_iff sint_sbintrunc')
  ultimately show ?thesis by (simp add: str_to_int_def LONG_MAX_def LONG_MIN_def)
qed

section \<open>What a document says\<close>

text \<open>The value of the last pair of scalars whose key starts with a name.\<close>

definition value_step :: "yaml_document \<Rightarrow> string \<Rightarrow> int \<times> int \<Rightarrow> string option \<Rightarrow> string option" where
  "value_step document name p acc =
     (case (yaml_document_get_node document (fst p), yaml_document_get_node document (snd p)) of
        (Some (YAML_SCALAR_NODE key), Some (YAML_SCALAR_NODE val)) \<Rightarrow>
          if KEY_NAME_CMP key name then Some (c_str val) else acc
      | _ \<Rightarrow> acc)"

definition last_value :: "yaml_document \<Rightarrow> string \<Rightarrow> (int \<times> int) list \<Rightarrow> string option" where
  "last_value document name ps = fold (value_step document name) ps None"

text \<open>The value node of the last pair whose key starts with a name.\<close>

definition child_step :: "yaml_document \<Rightarrow> string \<Rightarrow> int \<times> int \<Rightarrow> int option \<Rightarrow> int option" where
  "child_step document name p acc =
     (case yaml_document_get_node document (fst p) of
        Some key \<Rightarrow> if key_is key name then Some (snd p) else acc
      | None \<Rightarrow> acc)"

definition last_child :: "yaml_document \<Rightarrow> string \<Rightarrow> (int \<times> int) list \<Rightarrow> int option" where
  "last_child document name ps = fold (child_step document name) ps None"

definition mappings :: "yaml_document \<Rightarrow> int list \<Rightarrow> (int \<times> int) list list" where
  "mappings document items = concat (map (\<lambda>i. case yaml_document_get_node document i of
     Some (YAML_MAPPING_NODE ps) \<Rightarrow> [ps] | _ \<Rightarrow> []) items)"

definition interface_of :: "yaml_document \<Rightarrow> (int \<times> int) list \<Rightarrow> rip_interface" where
  "interface_of document ps = \<lparr>ifc_dev = last_value document ''dev'' ps\<rparr>"

definition network_of :: "yaml_document \<Rightarrow> (int \<times> int) list \<Rightarrow> advertised_network" where
  "network_of document ps = \<lparr>net_address = last_value document ''address'' ps,
     net_prefix = Option.bind (last_value document ''prefix'' ps) str_to_int,
     net_dev = last_value document ''dev'' ps\<rparr>"

text \<open>
  What an array, its length and the node they are read from have to do with each other: there is
  one element per item, each item is a mapping, and the element is what the mapping says.
\<close>

definition array_of ::
  "yaml_document \<Rightarrow> (yaml_document \<Rightarrow> (int \<times> int) list \<Rightarrow> 'e) \<Rightarrow> int option \<Rightarrow> 'e list option \<Rightarrow> nat \<Rightarrow> bool" where
  "array_of document f child arr n \<longleftrightarrow>
     (case child of
        None \<Rightarrow> arr = None \<and> n = 0
      | Some c \<Rightarrow> \<exists>items pss. yaml_document_get_node document c = Some (YAML_SEQUENCE_NODE items) \<and>
          map (yaml_document_get_node document) items = map (Some \<circ> YAML_MAPPING_NODE) pss \<and>
          n = length items \<and> arr = Some (map (f document) pss))"

text \<open>A pointer that is not null has the given value.\<close>

definition agrees :: "'a option \<Rightarrow> 'a option \<Rightarrow> bool" where
  "agrees p v \<longleftrightarrow> p = None \<or> p = v"

lemma agrees_simps [simp]: "agrees None v" "agrees v v" "agrees (Some x) v \<longleftrightarrow> v = Some x"
  by (auto simp: agrees_def)

lemma last_snoc [simp]:
  "last_value document name [] = None"
  "last_value document name (ps @ [p]) = value_step document name p (last_value document name ps)"
  "last_child document name [] = None"
  "last_child document name (ps @ [p]) = child_step document name p (last_child document name ps)"
  by (simp_all add: last_value_def last_child_def)

lemma extract_str_agrees:
  assumes "extract_str_from_str_str_pair malloc m document p name out = (m', out', ec)" "ec \<noteq> 1"
    and "agrees out (last_value document name ps)"
  shows "agrees out' (last_value document name (ps @ [p]))"
  using assms by (auto simp: extract_str_from_str_str_pair_def value_step_def
      split: option.splits yaml_node.splits if_splits prod.splits)

lemma extract_int_agrees:
  assumes "extract_int_from_str_str_pair malloc m document p name out = Some (m', out', ec)" "ec \<noteq> 1"
    and "agrees out (Option.bind (last_value document name ps) str_to_int)"
  shows "agrees out' (Option.bind (last_value document name (ps @ [p])) str_to_int)"
proof -
  obtain m1 str status where
    s: "extract_str_from_str_str_pair malloc m document p name None = (m1, str, status)" by (metis prod_cases3)
  obtain m2 ok where "malloc m1 4 = (m2, ok)" by fastforce
  with s assms show ?thesis
    by (auto simp: extract_int_from_str_str_pair_def extract_str_from_str_str_pair_def value_step_def
        split: option.splits yaml_node.splits if_splits prod.splits bind_splits)
qed

section \<open>The contract of the callbacks\<close>

text \<open>
  The two loops of \<^verbatim>\<open>parse_sequence_of_mappings\<close> are shared by two pairs of callbacks. What they
  rely on is that a callback changes only the element with the given index, that it fails in no
  other way than by its status while allocation succeeds, and that the element agrees with the
  pairs seen so far.
\<close>

locale sequence_callback =
  fixes cb :: "'m \<Rightarrow> nat \<Rightarrow> int \<times> int \<Rightarrow> 'e list option \<Rightarrow> ('m \<times> 'e list option \<times> int) option"
    and seen :: "(int \<times> int) list \<Rightarrow> 'e \<Rightarrow> bool" and zero :: 'e and safe :: bool
  assumes seen_zero: "seen [] zero"
    and cb_step: "cb m i p (Some xs) = Some (m', arr, ec) \<Longrightarrow> i < length xs \<Longrightarrow>
      \<exists>x. arr = Some (xs[i := x]) \<and> (ec = 0 \<longrightarrow> seen ps (xs ! i) \<longrightarrow> seen (ps @ [p]) x)"
    and cb_total: "safe \<Longrightarrow> i < length xs \<Longrightarrow> cb m i p (Some xs) \<noteq> None"
begin

lemma pairs_seen:
  assumes "sequence_pairs cb m i ps (Some xs) = Some (m', arr, ec)" "i < length xs" "seen qs (xs ! i)"
  shows "\<exists>x. arr = Some (xs[i := x]) \<and> (ec = 0 \<longrightarrow> seen (qs @ ps) x)"
  using assms
proof (induction ps arbitrary: m xs qs)
  case Nil
  then show ?case by (metis append_Nil2 list_update_id option.inject prod.inject sequence_pairs.simps(1))
next
  case (Cons p ps)
  from Cons.prems(1) obtain m1 arr1 ec1 where c: "cb m i p (Some xs) = Some (m1, arr1, ec1)"
    and r: "if ec1 \<noteq> 0 then (m', arr, ec) = (m1, arr1, 1)
      else sequence_pairs cb m1 i ps arr1 = Some (m', arr, ec)"
    by (auto simp: bind_eq_Some_conv split: if_splits)
  from cb_step [OF c Cons.prems(2), of qs] obtain x where
    x: "arr1 = Some (xs[i := x])" "ec1 = 0 \<longrightarrow> seen (qs @ [p]) x" using Cons.prems(3) by blast
  show ?case
  proof (cases "ec1 = 0")
    case True
    with r x Cons.IH [of m1 "xs[i := x]" "qs @ [p]"] Cons.prems(2) show ?thesis by auto
  next
    case False
    with r x show ?thesis by auto
  qed
qed

lemma items_seen:
  assumes "sequence_items document cb m (length ds) items (Some (ds @ replicate k zero)) = Some (m', arr, ec)"
    and "length items \<le> k"
  shows "\<exists>xs. arr = Some xs \<and> length xs = length ds + k \<and>
    (ec = 0 \<longrightarrow> (\<exists>ys. xs = ds @ ys @ replicate (k - length ys) zero \<and> list_all2 seen (mappings document items) ys))"
  using assms
proof (induction items arbitrary: m ds k)
  case (Cons item items)
  show ?case
  proof (cases "\<exists>ps. yaml_document_get_node document item = Some (YAML_MAPPING_NODE ps)")
    case True
    then obtain ps where ps: "yaml_document_get_node document item = Some (YAML_MAPPING_NODE ps)" by blast
    from Cons.prems(2) obtain k' where k: "k = Suc k'" "length items \<le> k'" by (cases k) auto
    let ?xs = "ds @ replicate k zero"
    from Cons.prems(1) ps obtain m1 arr1 ec1 where
      c: "sequence_pairs cb m (length ds) ps (Some ?xs) = Some (m1, arr1, ec1)"
      and r: "if ec1 \<noteq> 0 then (m', arr, ec) = (m1, arr1, 1)
        else sequence_items document cb m1 (length ds + 1) items arr1 = Some (m', arr, ec)"
      by (auto simp: bind_eq_Some_conv split: if_splits)
    have "length ds < length ?xs" "seen [] (?xs ! length ds)" using k seen_zero by (simp_all add: nth_append)
    from pairs_seen [OF c this] obtain x where
      x: "arr1 = Some (?xs[length ds := x])" "ec1 = 0 \<longrightarrow> seen ps x" by auto
    have u: "?xs[length ds := x] = (ds @ [x]) @ replicate k' zero" using k(1) by simp
    show ?thesis
    proof (cases "ec1 = 0")
      case True
      then have s: "sequence_items document cb m1 (length (ds @ [x])) items (Some ((ds @ [x]) @ replicate k' zero)) =
          Some (m', arr, ec)" using r x(1) unfolding u by simp
      from Cons.IH [OF s k(2)] obtain xs where
        i: "arr = Some xs" "length xs = length (ds @ [x]) + k'"
        "ec = 0 \<longrightarrow> (\<exists>ys. xs = (ds @ [x]) @ ys @ replicate (k' - length ys) zero \<and>
           list_all2 seen (mappings document items) ys)" by blast
      have "\<exists>ys. xs = ds @ ys @ replicate (k - length ys) zero \<and> list_all2 seen (mappings document (item # items)) ys"
        if "ec = 0"
      proof -
        from i(3) that obtain ys where "xs = (ds @ [x]) @ ys @ replicate (k' - length ys) zero"
          "list_all2 seen (mappings document items) ys" by blast
        with x(2) True ps k(1) show ?thesis by (intro exI [of _ "x # ys"]) (simp add: mappings_def)
      qed
      with i(1,2) k(1) show ?thesis by simp
    next
      case False
      with r x(1) show ?thesis by simp
    qed
  next
    case False
    then have skip: "sequence_items document cb m (length ds) (item # items) arr0 =
        sequence_items document cb m (length ds) items arr0" for arr0
      by (auto split: option.splits yaml_node.splits)
    have "mappings document (item # items) = mappings document items"
      using False by (auto simp: mappings_def split: option.splits yaml_node.splits)
    with Cons.IH [of m ds k] Cons.prems show ?thesis unfolding skip by simp
  qed
qed (auto simp: mappings_def)

lemma pairs_total:
  assumes "safe" "i < length xs"
  shows "\<exists>m' ys ec. sequence_pairs cb m i ps (Some xs) = Some (m', Some ys, ec) \<and> length ys = length xs"
  using assms(2)
proof (induction ps arbitrary: m xs)
  case (Cons p ps)
  from cb_total [OF assms(1) Cons.prems] obtain m1 arr1 ec1 where c: "cb m i p (Some xs) = Some (m1, arr1, ec1)"
    by (metis not_None_eq prod_cases3)
  with cb_step [OF c Cons.prems] obtain x where "arr1 = Some (xs[i := x])" by blast
  with c Cons.IH [of "xs[i := x]" m1] Cons.prems show ?case by auto
qed simp

lemma items_total:
  assumes "safe" "i + length items \<le> length xs"
  shows "sequence_items document cb m i items (Some xs) \<noteq> None"
  using assms(2)
proof (induction items arbitrary: m i xs)
  case (Cons item items)
  show ?case
  proof (cases "\<exists>ps. yaml_document_get_node document item = Some (YAML_MAPPING_NODE ps)")
    case True
    then obtain ps where ps: "yaml_document_get_node document item = Some (YAML_MAPPING_NODE ps)" by blast
    have "i < length xs" using Cons.prems by simp
    from pairs_total [OF assms(1) this, of m ps] obtain m1 ys ec where
      "sequence_pairs cb m i ps (Some xs) = Some (m1, Some ys, ec)" "length ys = length xs" by blast
    with ps Cons.IH [of "i + 1" ys m1] Cons.prems show ?thesis by auto
  next
    case False
    with Cons.IH [of i xs m] Cons.prems show ?thesis by (auto split: option.splits yaml_node.splits)
  qed
qed simp

end

text \<open>With a callback that allocates the array.\<close>

locale sequence_parser = sequence_callback cb seen zero safe
  for cb :: "'m \<Rightarrow> nat \<Rightarrow> int \<times> int \<Rightarrow> 'e list option \<Rightarrow> ('m \<times> 'e list option \<times> int) option"
    and seen zero safe +
  fixes cb_length :: "'m \<Rightarrow> nat \<Rightarrow> nat \<Rightarrow> 'm \<times> 'e list option \<times> nat \<times> int"
  assumes length_law: "cb_length m len n = (m', arr, n', 0) \<Longrightarrow> arr = Some (replicate len zero) \<and> n' = len"
begin

lemma sequence_read:
  assumes "parse_sequence_of_mappings document item cb_length cb m arr0 n0 = Some (m', arr, n, 0)"
  shows "\<exists>items ys. yaml_document_get_node document item = Some (YAML_SEQUENCE_NODE items) \<and> n = length items \<and>
    arr = Some (ys @ replicate (n - length ys) zero) \<and> list_all2 seen (mappings document items) ys"
proof -
  from assms obtain items m1 arr1 where
    i: "yaml_document_get_node document item = Some (YAML_SEQUENCE_NODE items)"
    "cb_length m (length items) n0 = (m1, arr1, n, 0)"
    "sequence_items document cb m1 0 items arr1 = Some (m', arr, 0)"
    by (auto simp: parse_sequence_of_mappings_def bind_eq_Some_conv
        split: option.splits yaml_node.splits prod.splits if_splits)
  from length_law [OF i(2)] have l: "arr1 = Some (replicate (length items) zero)" "n = length items" by simp_all
  from items_seen [of document m1 "[]" items "length items" m' arr 0] i(3) l obtain ys where
    "arr = Some (ys @ replicate (n - length ys) zero)" "list_all2 seen (mappings document items) ys" by auto
  with i(1) l(2) show ?thesis by blast
qed

lemma sequence_total:
  assumes "safe"
  shows "parse_sequence_of_mappings document item cb_length cb m arr0 n0 \<noteq> None"
proof -
  have "sequence_items document cb m1 0 items arr \<noteq> None"
    if "cb_length m (length items) n0 = (m1, arr, n, 0)" for items m1 arr n
    using items_total [OF assms, of 0 items] length_law [OF that] by simp
  then show ?thesis
    by (auto simp: parse_sequence_of_mappings_def bind_eq_None_conv simp del: not_None_eq
        split: option.splits yaml_node.splits prod.splits)
qed

end

text \<open>The two instances.\<close>

definition never_fails :: "'m allocator \<Rightarrow> bool" where
  "never_fails malloc \<longleftrightarrow> (\<forall>m n. snd (malloc m n))"

definition interface_seen :: "yaml_document \<Rightarrow> (int \<times> int) list \<Rightarrow> rip_interface \<Rightarrow> bool" where
  "interface_seen document ps ifc \<longleftrightarrow> agrees (ifc_dev ifc) (ifc_dev (interface_of document ps))"

definition network_seen :: "yaml_document \<Rightarrow> (int \<times> int) list \<Rightarrow> advertised_network \<Rightarrow> bool" where
  "network_seen document ps net \<longleftrightarrow> agrees (net_address net) (net_address (network_of document ps)) \<and>
     agrees (net_prefix net) (net_prefix (network_of document ps)) \<and>
     agrees (net_dev net) (net_dev (network_of document ps))"

lemma extract_int_total:
  assumes "never_fails malloc"
  shows "extract_int_from_str_str_pair malloc m document p name out \<noteq> None"
proof -
  have "snd (malloc m n)" for m n using assms by (simp add: never_fails_def)
  then have "malloc m n \<noteq> (m', False)" for m n m' by (metis snd_conv)
  then show ?thesis
    by (auto simp: extract_int_from_str_str_pair_def extract_str_from_str_str_pair_def
        split: option.splits yaml_node.splits prod.splits if_splits)
qed

lemma interfaces_step:
  assumes "parse_rip_interfaces_item malloc document m i p (Some xs) = Some (m', arr, ec)" "i < length xs"
  shows "\<exists>x. arr = Some (xs[i := x]) \<and> (ec = 0 \<longrightarrow> interface_seen document ps (xs ! i) \<longrightarrow> interface_seen document (ps @ [p]) x)"
proof -
  obtain m1 d ec1 where
    e: "extract_str_from_str_str_pair malloc m document p ''dev'' (ifc_dev (xs ! i)) = (m1, d, ec1)" by (metis prod_cases3)
  from extract_str_agrees [OF e] e assms show ?thesis
    by (auto simp: parse_rip_interfaces_item_def interface_seen_def interface_of_def Let_def split: if_splits)
qed

lemma networks_step:
  assumes "parse_rip_advertised_networks_item malloc document m i p (Some xs) = Some (m', arr, ec)" "i < length xs"
  shows "\<exists>x. arr = Some (xs[i := x]) \<and> (ec = 0 \<longrightarrow> network_seen document ps (xs ! i) \<longrightarrow> network_seen document (ps @ [p]) x)"
proof -
  let ?x = "xs ! i"
  obtain m1 d ec1 where
    e: "extract_str_from_str_str_pair malloc m document p ''dev'' (net_dev ?x) = (m1, d, ec1)" by (metis prod_cases3)
  show ?thesis
  proof (cases "ec1 = 1")
    case True
    with e assms show ?thesis by (auto simp: parse_rip_advertised_networks_item_def Let_def)
  next
    case False
    with e assms obtain m2 q ec2 where
      q: "extract_int_from_str_str_pair malloc m1 document p ''prefix'' (net_prefix ?x) = Some (m2, q, ec2)"
      by (auto simp: parse_rip_advertised_networks_item_def bind_eq_Some_conv Let_def)
    obtain m3 a ec3 where
      a: "extract_str_from_str_str_pair malloc m2 document p ''address'' (net_address ?x) = (m3, a, ec3)"
      by (metis prod_cases3)
    from extract_str_agrees [OF e False] extract_int_agrees [OF q] extract_str_agrees [OF a] e q a False assms
    show ?thesis
      by (auto simp: parse_rip_advertised_networks_item_def network_seen_def network_of_def Let_def split: if_splits)
  qed
qed

interpretation ifc: sequence_parser "parse_rip_interfaces_item malloc document" "interface_seen document"
  "\<lparr>ifc_dev = None\<rparr>" "never_fails malloc" "parse_rip_interfaces_length malloc"
  for malloc :: "'m allocator" and document
proof
  show "interface_seen document [] \<lparr>ifc_dev = None\<rparr>" by (simp add: interface_seen_def)
  show "parse_rip_interfaces_item malloc document m i p (Some xs) \<noteq> None" if "i < length xs" for m i p xs
    using that by (auto simp: parse_rip_interfaces_item_def Let_def split: prod.splits)
qed (use interfaces_step in \<open>auto simp: parse_rip_interfaces_length_def split: prod.splits if_splits\<close>)

interpretation net: sequence_parser "parse_rip_advertised_networks_item malloc document" "network_seen document"
  zero_network "never_fails malloc" "parse_rip_advertised_networks_length malloc"
  for malloc :: "'m allocator" and document
proof
  show "network_seen document [] zero_network" by (simp add: network_seen_def zero_network_def)
  show "parse_rip_advertised_networks_item malloc document m i p (Some xs) \<noteq> None"
    if "never_fails malloc" "i < length xs" for m i p xs
    using that(2) extract_int_total [OF that(1)]
    by (auto simp: parse_rip_advertised_networks_item_def bind_eq_None_conv Let_def simp del: not_None_eq
        split: prod.splits)
qed (use networks_step in \<open>auto simp: parse_rip_advertised_networks_length_def split: prod.splits if_splits\<close>)

section \<open>The configuration read so far\<close>

definition version_of :: "yaml_document \<Rightarrow> int option \<Rightarrow> int option \<Rightarrow> bool" where
  "version_of document child v \<longleftrightarrow>
     (case child of
        None \<Rightarrow> v = None
      | Some c \<Rightarrow> \<exists>s. yaml_document_get_node document c = Some (YAML_SCALAR_NODE s) \<and>
          v = str_to_int (c_str s) \<and> v \<noteq> None)"

text \<open>An array while its elements are not known to be complete.\<close>

definition array_seen ::
  "yaml_document \<Rightarrow> ((int \<times> int) list \<Rightarrow> 'e \<Rightarrow> bool) \<Rightarrow> 'e \<Rightarrow> int option \<Rightarrow> 'e list option \<Rightarrow> nat \<Rightarrow> bool" where
  "array_seen document seen zero child arr n \<longleftrightarrow>
     (case child of
        None \<Rightarrow> arr = None \<and> n = 0
      | Some c \<Rightarrow> \<exists>items ys. yaml_document_get_node document c = Some (YAML_SEQUENCE_NODE items) \<and> n = length items \<and>
          arr = Some (ys @ replicate (n - length ys) zero) \<and> list_all2 seen (mappings document items) ys)"

definition config_seen :: "yaml_document \<Rightarrow> (int \<times> int) list \<Rightarrow> rip_configuration \<Rightarrow> bool" where
  "config_seen document its0 cfg \<longleftrightarrow>
     version_of document (last_child document ''version'' its0) (cfg_version cfg) \<and>
     array_seen document (interface_seen document) \<lparr>ifc_dev = None\<rparr> (last_child document ''rip_interfaces'' its0)
       (rip_interfaces cfg) (rip_interfaces_n cfg) \<and>
     array_seen document (network_seen document) zero_network (last_child document ''advertised_networks'' its0)
       (advertised_networks cfg) (advertised_networks_n cfg)"

text \<open>What the configuration of a document is when it is complete.\<close>

definition config_of :: "yaml_document \<Rightarrow> (int \<times> int) list \<Rightarrow> rip_configuration \<Rightarrow> bool" where
  "config_of document its0 cfg \<longleftrightarrow>
     version_of document (last_child document ''version'' its0) (cfg_version cfg) \<and>
     array_of document interface_of (last_child document ''rip_interfaces'' its0)
       (rip_interfaces cfg) (rip_interfaces_n cfg) \<and>
     array_of document network_of (last_child document ''advertised_networks'' its0)
       (advertised_networks cfg) (advertised_networks_n cfg)"

definition complete :: "rip_configuration \<Rightarrow> bool" where
  "complete cfg \<longleftrightarrow> cfg_version cfg \<noteq> None \<and>
     (\<exists>ifcs. rip_interfaces cfg = Some ifcs \<and> length ifcs = rip_interfaces_n cfg \<and>
        (\<forall>ifc\<in>set ifcs. ifc_dev ifc \<noteq> None)) \<and>
     (\<forall>nets. advertised_networks cfg = Some nets \<longrightarrow> length nets = advertised_networks_n cfg \<and>
        (\<forall>net\<in>set nets. net_dev net \<noteq> None \<and> net_prefix net \<noteq> None \<and> net_address net \<noteq> None)) \<and>
     (advertised_networks cfg = None \<longrightarrow> advertised_networks_n cfg = 0)"

lemma three_steps:
  assumes "do {
      (m, c, ec) \<leftarrow> a;
      if ec \<noteq> 0 then Some (m, c, 1 :: int)
      else do {
        (m, c, ec) \<leftarrow> b m c;
        if ec \<noteq> (0 :: int) then Some (m, c, 1)
        else do { (m, c, ec) \<leftarrow> d m c; Some (m, c, if ec \<noteq> (0 :: int) then 1 else 0) }
      }
    } = Some (m', c', 0)"
  shows "\<exists>m1 c1 m2 c2. a = Some (m1, c1, 0 :: int) \<and> b m1 c1 = Some (m2, c2, 0) \<and> d m2 c2 = Some (m', c', 0)"
  using assms by (auto simp: bind_eq_Some_conv split: if_splits)

lemma three_steps_total:
  assumes "a \<noteq> None" "\<And>m c. b m c \<noteq> None" "\<And>m c. d m c \<noteq> None"
  shows "do {
      (m, c, ec) \<leftarrow> a;
      if ec \<noteq> 0 then Some (m, c, 1 :: int)
      else do {
        (m, c, ec) \<leftarrow> b m c;
        if ec \<noteq> (0 :: int) then Some (m, c, 1)
        else do { (m, c, ec) \<leftarrow> d m c; Some (m, c, if ec \<noteq> (0 :: int) then 1 else 0) }
      }
    } \<noteq> None"
  using assms by (auto split: bind_splits simp del: not_None_eq)

lemma pair_seen:
  assumes "parse_rip_configuration_pair malloc m document p cfg = Some (m', cfg', 0)" "config_seen document its0 cfg"
  shows "config_seen document (its0 @ [p]) cfg'"
proof (cases "yaml_document_get_node document (fst p)")
  case None
  with assms show ?thesis by (simp add: parse_rip_configuration_pair_def config_seen_def child_step_def)
next
  case (Some key)
  have v: "version_of document (Some (snd p)) v" if "parse_rip_version malloc m1 document (snd p) = Some (m2, v, 0)" for m1 m2 v
    using that
    by (auto simp: parse_rip_version_def version_of_def split: prod.splits if_splits option.splits yaml_node.splits)
      (metis not_None_eq)
  have i: "array_seen document (interface_seen document) \<lparr>ifc_dev = None\<rparr> (Some (snd p)) arr n"
    if "parse_rip_interfaces malloc m1 document (snd p) arr0 n0 = Some (m2, arr, n, 0)" for m1 arr0 n0 m2 arr n
    using ifc.sequence_read [OF that [unfolded parse_rip_interfaces_def]] by (simp add: array_seen_def)
  have n: "array_seen document (network_seen document) zero_network (Some (snd p)) arr n"
    if "parse_rip_advertised_networks malloc m1 document (snd p) arr0 n0 = Some (m2, arr, n, 0)" for m1 arr0 n0 m2 arr n
    using net.sequence_read [OF that [unfolded parse_rip_advertised_networks_def]] by (simp add: array_seen_def)
  from three_steps [OF assms(1) [unfolded parse_rip_configuration_pair_def Some option.case]] obtain m1 c1 m2 c2 where
    c1: "(if key_is key ''version'' then do {
        (m, v, ec) \<leftarrow> parse_rip_version malloc m document (snd p); Some (m, cfg\<lparr>cfg_version := v\<rparr>, ec)
      } else Some (m, cfg, 0)) = Some (m1, c1, 0)" and
    c2: "(if key_is key ''rip_interfaces'' then do {
        (m, arr, n, ec) \<leftarrow> parse_rip_interfaces malloc m1 document (snd p) (rip_interfaces c1) (rip_interfaces_n c1);
        Some (m, c1\<lparr>rip_interfaces := arr, rip_interfaces_n := n\<rparr>, ec)
      } else Some (m1, c1, 0)) = Some (m2, c2, 0)" and
    c3: "(if key_is key ''advertised_networks'' then do {
        (m, arr, n, ec) \<leftarrow> parse_rip_advertised_networks malloc m2 document (snd p)
          (advertised_networks c2) (advertised_networks_n c2);
        Some (m, c2\<lparr>advertised_networks := arr, advertised_networks_n := n\<rparr>, ec)
      } else Some (m2, c2, 0)) = Some (m', cfg', 0)"
    by blast
  from c1 have v': "\<exists>u. c1 = cfg\<lparr>cfg_version := u\<rparr> \<and>
      (if key_is key ''version'' then version_of document (Some (snd p)) u else u = cfg_version cfg)"
    by (auto simp: bind_eq_Some_conv split: if_splits intro: v)
  from c2 have i': "\<exists>arr n. c2 = c1\<lparr>rip_interfaces := arr, rip_interfaces_n := n\<rparr> \<and>
      (if key_is key ''rip_interfaces'' then array_seen document (interface_seen document) \<lparr>ifc_dev = None\<rparr> (Some (snd p)) arr n
       else arr = rip_interfaces c1 \<and> n = rip_interfaces_n c1)"
    by (auto simp: bind_eq_Some_conv split: if_splits intro: i)
  from c3 have n': "\<exists>arr n. cfg' = c2\<lparr>advertised_networks := arr, advertised_networks_n := n\<rparr> \<and>
      (if key_is key ''advertised_networks'' then array_seen document (network_seen document) zero_network (Some (snd p)) arr n
       else arr = advertised_networks c2 \<and> n = advertised_networks_n c2)"
    by (auto simp: bind_eq_Some_conv split: if_splits intro: n)
  from v' i' n' assms(2) Some show ?thesis
    by (auto simp: config_seen_def child_step_def)
qed

lemma pairs_config_seen:
  assumes "parse_rip_configuration_pairs malloc m document its cfg = Some (m', cfg', 0)" "config_seen document its0 cfg"
  shows "config_seen document (its0 @ its) cfg'"
  using assms
proof (induction its arbitrary: m cfg its0)
  case (Cons it its)
  from Cons.prems(1) obtain m1 cfg1 where
    c: "parse_rip_configuration_pair malloc m document it cfg = Some (m1, cfg1, 0)"
    "parse_rip_configuration_pairs malloc m1 document its cfg1 = Some (m', cfg', 0)"
    by (auto simp: bind_eq_Some_conv split: if_splits)
  from Cons.IH [OF c(2) pair_seen [OF c(1) Cons.prems(2)]] show ?case by simp
qed simp

lemma check_items_iff: "check_items ok xs n = Some 0 \<longleftrightarrow> n \<le> length xs \<and> (\<forall>x\<in>set (take n xs). ok x)"
  by (induction ok xs n rule: check_items.induct) auto

lemma length_mappings: "length (mappings document items) \<le> length items"
  by (induction items) (auto simp: mappings_def split: option.splits yaml_node.splits)

lemma mappings_all:
  assumes "length (mappings document items) = length items"
  shows "map (yaml_document_get_node document) items = map (Some \<circ> YAML_MAPPING_NODE) (mappings document items)"
  using assms
proof (induction items)
  case (Cons item items)
  then show ?case using length_mappings [of document items]
    by (auto simp: mappings_def split: option.splits yaml_node.splits)
qed (simp add: mappings_def)

lemma array_complete:
  assumes a: "array_seen document seen zero child arr n"
    and ok: "\<And>xs. arr = Some xs \<Longrightarrow> 0 < n \<Longrightarrow> \<forall>x\<in>set (take n xs). ok x" "\<not> ok zero"
    and f: "\<And>ps x. seen ps x \<Longrightarrow> ok x \<Longrightarrow> x = f document ps"
  shows "array_of document f child arr n \<and> (\<forall>xs. arr = Some xs \<longrightarrow> length xs = n \<and> (\<forall>x\<in>set xs. ok x))"
proof (cases child)
  case (Some c)
  with a obtain items ys where
    i: "yaml_document_get_node document c = Some (YAML_SEQUENCE_NODE items)" "n = length items"
    and arr: "arr = Some (ys @ replicate (n - length ys) zero)" and l: "list_all2 seen (mappings document items) ys"
    by (auto simp: array_seen_def)
  have len: "length ys = length (mappings document items)" "length ys \<le> n"
    using list_all2_lengthD [OF l] length_mappings [of document items] i(2) by simp_all
  have "\<forall>x\<in>set (ys @ replicate (n - length ys) zero). ok x"
    using ok(1) [OF arr] len(2) by (cases "n = 0") simp_all
  with ok(2) have all: "\<forall>x\<in>set ys. ok x" "n = length ys" using len(2) by (auto simp: set_replicate_conv_if split: if_splits)
  from l all(1) have "ys = map (f document) (mappings document items)"
    by (induction rule: list_all2_induct) (auto dest: f)
  with arr all i mappings_all [of document items] len show ?thesis
    using Some by (auto simp: array_of_def)
qed (use a in \<open>simp add: array_seen_def array_of_def\<close>)

lemma validate_complete:
  assumes "rip_configuration_validate cfg = Some 0" "config_seen document its cfg"
  shows "config_of document its cfg \<and> complete cfg"
proof -
  from assms(1) obtain v ifcs where v: "cfg_version cfg = Some v" "rip_interfaces cfg = Some ifcs"
    and c: "check_items (\<lambda>ifc. ifc_dev ifc \<noteq> None) ifcs (rip_interfaces_n cfg) = Some 0"
    and d: "if advertised_networks_n cfg > 0 then do {
        nets \<leftarrow> advertised_networks cfg;
        check_items (\<lambda>net. net_dev net \<noteq> None \<and> net_prefix net \<noteq> None \<and> net_address net \<noteq> None) nets (advertised_networks_n cfg)
      } = Some 0 else True"
    by (auto simp: rip_configuration_validate_def bind_eq_Some_conv split: option.splits if_splits)
  have i: "array_of document interface_of (last_child document ''rip_interfaces'' its) (rip_interfaces cfg) (rip_interfaces_n cfg) \<and>
      (\<forall>xs. rip_interfaces cfg = Some xs \<longrightarrow> length xs = rip_interfaces_n cfg \<and> (\<forall>x\<in>set xs. ifc_dev x \<noteq> None))"
    using c v(2) by (intro array_complete [OF conjunct1 [OF conjunct2 [OF assms(2) [unfolded config_seen_def]]]])
      (auto simp: check_items_iff interface_seen_def interface_of_def)
  have n: "array_of document network_of (last_child document ''advertised_networks'' its)
        (advertised_networks cfg) (advertised_networks_n cfg) \<and>
      (\<forall>xs. advertised_networks cfg = Some xs \<longrightarrow> length xs = advertised_networks_n cfg \<and>
        (\<forall>x\<in>set xs. net_dev x \<noteq> None \<and> net_prefix x \<noteq> None \<and> net_address x \<noteq> None))"
    using d by (intro array_complete [OF conjunct2 [OF conjunct2 [OF assms(2) [unfolded config_seen_def]]]])
      (auto simp: check_items_iff network_seen_def network_of_def zero_network_def)
  have z: "advertised_networks cfg = None \<longrightarrow> advertised_networks_n cfg = 0"
    using conjunct1 [OF n] by (auto simp: array_of_def split: option.splits)
  from i n z v assms(2) show ?thesis by (auto simp: config_of_def complete_def config_seen_def)
qed

lemma read_config_parts:
  assumes "rip_read_config malloc m src cfg0 = Some (m', cfg, 0)"
  shows "\<exists>document pair rest key its. parser_loaded src = Some document \<and>
    yaml_document_get_root_node document = Some (YAML_MAPPING_NODE (pair # rest)) \<and>
    yaml_document_get_node document (fst pair) = Some (YAML_SCALAR_NODE key) \<and> KEY_NAME_CMP key ''rip_configuration'' \<and>
    yaml_document_get_node document (snd pair) = Some (YAML_MAPPING_NODE its) \<and>
    config_of document its cfg \<and> complete cfg"
proof -
  from assms obtain document where d: "parser_loaded src = Some document"
    "parse_rip_configuration malloc m document (yaml_document_get_root_node document) = Some (m', cfg, 0)"
    "rip_configuration_validate cfg = Some 0"
    by (auto simp: rip_read_config_def rip_configuration_read_and_parse_def bind_eq_Some_conv
        split: if_splits option.splits)
  from d(2) obtain pair rest key its where
    p: "yaml_document_get_root_node document = Some (YAML_MAPPING_NODE (pair # rest))"
    "yaml_document_get_node document (fst pair) = Some (YAML_SCALAR_NODE key)" "KEY_NAME_CMP key ''rip_configuration''"
    "yaml_document_get_node document (snd pair) = Some (YAML_MAPPING_NODE its)"
    "parse_rip_configuration_pairs malloc m document its zero_configuration = Some (m', cfg, 0)"
    by (auto simp: parse_rip_configuration_def split: option.splits yaml_node.splits list.splits if_splits)
  have "config_seen document [] zero_configuration"
    by (simp add: config_seen_def version_of_def array_seen_def zero_configuration_def)
  from validate_complete [OF d(3) pairs_config_seen [OF p(5) this]] d(1) p(1-4) show ?thesis
    unfolding append_Nil by blast
qed

lemma pair_total:
  assumes "never_fails malloc"
    and "\<And>key n. yaml_document_get_node document (fst p) = Some key \<Longrightarrow> key_is key ''version'' \<Longrightarrow>
      yaml_document_get_node document (snd p) = Some n \<Longrightarrow> \<exists>s. n = YAML_SCALAR_NODE s"
  shows "parse_rip_configuration_pair malloc m document p cfg \<noteq> None"
proof -
  have v: "parse_rip_version malloc m1 document (snd p) \<noteq> None"
    if "yaml_document_get_node document (fst p) = Some key" "key_is key ''version''" for m1 key
    using assms(2) [OF that] by (auto simp: parse_rip_version_def split: prod.splits option.splits yaml_node.splits)
  have i: "parse_rip_interfaces malloc m1 document (snd p) arr n \<noteq> None"
    "parse_rip_advertised_networks malloc m1 document (snd p) arr' n \<noteq> None" for m1 arr arr' n
    unfolding parse_rip_interfaces_def parse_rip_advertised_networks_def
    by (rule ifc.sequence_total [OF assms(1)] net.sequence_total [OF assms(1)])+
  show ?thesis
  proof (cases "yaml_document_get_node document (fst p)")
    case (Some key)
    then show ?thesis unfolding parse_rip_configuration_pair_def Some option.case
      by (intro three_steps_total) (use v [OF Some] i in \<open>auto split: bind_splits simp del: not_None_eq\<close>)
  qed (simp add: parse_rip_configuration_pair_def)
qed

lemma pairs_config_total:
  assumes "never_fails malloc"
    and "\<And>p key n. p \<in> set its \<Longrightarrow> yaml_document_get_node document (fst p) = Some key \<Longrightarrow> key_is key ''version'' \<Longrightarrow>
      yaml_document_get_node document (snd p) = Some n \<Longrightarrow> \<exists>s. n = YAML_SCALAR_NODE s"
  shows "parse_rip_configuration_pairs malloc m document its cfg \<noteq> None"
  using assms(2)
proof (induction its arbitrary: m cfg)
  case (Cons it its)
  have "parse_rip_configuration_pair malloc m document it cfg \<noteq> None"
    by (rule pair_total [OF assms(1)], rule Cons.prems [of it]) simp_all
  moreover have "parse_rip_configuration_pairs malloc m1 document its cfg1 \<noteq> None" for m1 cfg1
    by (rule Cons.IH, rule Cons.prems) simp_all
  ultimately show ?case by (auto split: bind_splits simp del: not_None_eq)
qed simp

lemma check_items_total: "n \<le> length xs \<Longrightarrow> check_items ok xs n \<noteq> None"
  by (induction ok xs n rule: check_items.induct) auto

lemma array_seen_length: "array_seen document seen zero child (Some xs) n \<Longrightarrow> n \<le> length xs"
  by (auto simp: array_seen_def split: option.splits)

lemma validate_total:
  assumes "config_seen document its cfg"
  shows "rip_configuration_validate cfg \<noteq> None"
proof -
  have i: "check_items ok ifcs (rip_interfaces_n cfg) \<noteq> None" if "rip_interfaces cfg = Some ifcs" for ok ifcs
    using assms that by (auto simp: config_seen_def intro!: check_items_total array_seen_length simp del: not_None_eq)
  have n: "check_items ok nets (advertised_networks_n cfg) \<noteq> None" if "advertised_networks cfg = Some nets" for ok nets
    using assms that by (auto simp: config_seen_def intro!: check_items_total array_seen_length simp del: not_None_eq)
  have "advertised_networks cfg = None \<Longrightarrow> advertised_networks_n cfg = 0"
    using assms by (auto simp: config_seen_def array_seen_def split: option.splits)
  then show ?thesis
    using i n by (cases "rip_interfaces cfg"; cases "advertised_networks cfg"; cases "cfg_version cfg")
      (auto simp: rip_configuration_validate_def bind_eq_None_conv simp del: not_None_eq)
qed

lemma complete_views:
  assumes "complete cfg"
  shows "rip_configuration_print cfg = Some ()"
    "\<exists>ifcs. array_view (rip_interfaces cfg) (rip_interfaces_n cfg) = Some ifcs \<and> rip_interfaces cfg = Some ifcs"
    "\<exists>nets. array_view (advertised_networks cfg) (advertised_networks_n cfg) = Some nets \<and>
       length nets = advertised_networks_n cfg \<and> (case advertised_networks cfg of None \<Rightarrow> nets = [] | Some ns \<Rightarrow> ns = nets)"
proof -
  have i: "check_items ok xs n = Some 0" if "length xs = n" "\<forall>x\<in>set xs. ok x" for ok and xs :: "rip_interface list" and n
    using that by (simp add: check_items_iff)
  have n: "check_items ok xs n = Some 0" if "length xs = n" "\<forall>x\<in>set xs. ok x" for ok and xs :: "advertised_network list" and n
    using that by (simp add: check_items_iff)
  show "rip_configuration_print cfg = Some ()"
    using assms i n by (cases "advertised_networks cfg") (auto simp: complete_def rip_configuration_print_def)
  show "\<exists>ifcs. array_view (rip_interfaces cfg) (rip_interfaces_n cfg) = Some ifcs \<and> rip_interfaces cfg = Some ifcs"
    using assms by (auto simp: complete_def array_view_def)
  show "\<exists>nets. array_view (advertised_networks cfg) (advertised_networks_n cfg) = Some nets \<and>
       length nets = advertised_networks_n cfg \<and> (case advertised_networks cfg of None \<Rightarrow> nets = [] | Some ns \<Rightarrow> ns = nets)"
    using assms by (cases "advertised_networks cfg") (auto simp: complete_def array_view_def)
qed

text \<open>
  Releasing an accepted configuration: nothing undefined is read, and the blocks are the version, one name per interface, an
  address, a device and a prefix per network, and the arrays.
\<close>

lemma destroy_complete:
  assumes "complete cfg"
  shows "\<exists>bs. rip_configuration_destroy (Some cfg) = Some bs \<and> length bs = 2 + rip_interfaces_n cfg +
    3 * advertised_networks_n cfg + (if advertised_networks cfg = None then 0 else 1)"
proof -
  from complete_views(2,3) [OF assms] obtain ifcs nets where
    v: "array_view (rip_interfaces cfg) (rip_interfaces_n cfg) = Some ifcs" "rip_interfaces cfg = Some ifcs"
    "array_view (advertised_networks cfg) (advertised_networks_n cfg) = Some nets" "length nets = advertised_networks_n cfg"
    "case advertised_networks cfg of None \<Rightarrow> nets = [] | Some ns \<Rightarrow> ns = nets" by blast
  let ?n = "\<lambda>net. free_ptr Block_string (net_address net) @ free_ptr Block_string (net_dev net) @ free_ptr Block_int (net_prefix net)"
  let ?i = "\<lambda>ifc. free_ptr Block_string (ifc_dev ifc)"
  have "map (length \<circ> ?n) nets = map (\<lambda>_. 3) nets"
    using assms v(5) by (intro map_cong) (auto simp: complete_def free_ptr_def split: option.splits)
  then have n: "length (concat (map ?n nets)) = 3 * advertised_networks_n cfg"
    using v(4) by (simp add: length_concat sum_list_triv flip: map_map)
  have "map (length \<circ> ?i) ifcs = map (\<lambda>_. 1) ifcs"
    using assms v(2) by (intro map_cong) (auto simp: complete_def free_ptr_def)
  then have i: "length (concat (map ?i ifcs)) = rip_interfaces_n cfg"
    using assms v(2) by (auto simp: complete_def length_concat sum_list_triv simp flip: map_map)
  show ?thesis using assms v n i
    by (auto simp: rip_configuration_destroy_def complete_def free_ptr_def simp del: length_concat)
qed

text \<open>
  The document of the unit test in \<^verbatim>\<open>tests/parse_rip_config_test.c\<close>, with the nodes in the order in
  which libyaml numbers them.
\<close>

definition sample_nodes :: "yaml_node list" where
  "sample_nodes =
    [YAML_MAPPING_NODE [(2, 3)], YAML_SCALAR_NODE ''rip_configuration'', YAML_MAPPING_NODE [(4, 5), (6, 7), (17, 18)],
     YAML_SCALAR_NODE ''version'', YAML_SCALAR_NODE ''2'', YAML_SCALAR_NODE ''rip_interfaces'',
     YAML_SEQUENCE_NODE [8, 11, 14],
     YAML_MAPPING_NODE [(9, 10)], YAML_SCALAR_NODE ''dev'', YAML_SCALAR_NODE ''eth0'',
     YAML_MAPPING_NODE [(12, 13)], YAML_SCALAR_NODE ''dev'', YAML_SCALAR_NODE ''eth1'',
     YAML_MAPPING_NODE [(15, 16)], YAML_SCALAR_NODE ''dev'', YAML_SCALAR_NODE ''eth3'',
     YAML_SCALAR_NODE ''advertised_networks'', YAML_SEQUENCE_NODE [19, 26],
     YAML_MAPPING_NODE [(20, 21), (22, 23), (24, 25)], YAML_SCALAR_NODE ''address'', YAML_SCALAR_NODE ''10.03.40.0'',
     YAML_SCALAR_NODE ''prefix'', YAML_SCALAR_NODE ''24'', YAML_SCALAR_NODE ''dev'', YAML_SCALAR_NODE ''eth1'',
     YAML_MAPPING_NODE [(27, 28), (29, 30), (31, 32)], YAML_SCALAR_NODE ''address'', YAML_SCALAR_NODE ''10.100.33.0'',
     YAML_SCALAR_NODE ''prefix'', YAML_SCALAR_NODE ''25'', YAML_SCALAR_NODE ''dev'', YAML_SCALAR_NODE ''eth0'']"

definition document_of :: "yaml_node list \<Rightarrow> yaml_document" where
  "document_of nodes = \<lparr>
     yaml_document_get_node = (\<lambda>i. if 1 \<le> i \<and> nat i \<le> length nodes then Some (nodes ! (nat i - 1)) else None),
     yaml_document_get_root_node = (case nodes of [] \<Rightarrow> None | n # _ \<Rightarrow> Some n)\<rparr>"

definition sample_source :: config_source where
  "sample_source = \<lparr>file_opened = True, parser_initialized = True, parser_loaded = Some (document_of sample_nodes)\<rparr>"

definition sample_config :: rip_configuration where
  "sample_config = \<lparr>cfg_version = Some 2,
     rip_interfaces = Some [\<lparr>ifc_dev = Some ''eth0''\<rparr>, \<lparr>ifc_dev = Some ''eth1''\<rparr>, \<lparr>ifc_dev = Some ''eth3''\<rparr>],
     rip_interfaces_n = 3,
     advertised_networks = Some
       [\<lparr>net_address = Some ''10.03.40.0'', net_prefix = Some 24, net_dev = Some ''eth1''\<rparr>,
        \<lparr>net_address = Some ''10.100.33.0'', net_prefix = Some 25, net_dev = Some ''eth0''\<rparr>],
     advertised_networks_n = 2\<rparr>"

lemma sample_read: "rip_read_config (\<lambda>m n. (m, True)) () sample_source zero_configuration = Some ((), sample_config, 0)"
  by code_simp

text \<open>
  C18: an accepted configuration is the one in the document. When \<^verbatim>\<open>rip_read_config\<close> returns 0, the
  root of the document is a mapping whose first key starts with \<^verbatim>\<open>rip_configuration\<close>; the version,
  the interfaces and the networks are those of the last pair with the key; every item of the two
  sequences is a mapping, and element \<open>i\<close> of the array holds the last values item \<open>i\<close> has for its
  keys, with no pointer left null. This holds whichever allocations fail.
\<close>

theorem read_config_correct:
  assumes "rip_read_config malloc m src cfg0 = Some (m', cfg, 0)"
  shows "\<exists>document pair rest key its. parser_loaded src = Some document \<and>
    yaml_document_get_root_node document = Some (YAML_MAPPING_NODE (pair # rest)) \<and>
    yaml_document_get_node document (fst pair) = Some (YAML_SCALAR_NODE key) \<and> KEY_NAME_CMP key ''rip_configuration'' \<and>
    yaml_document_get_node document (snd pair) = Some (YAML_MAPPING_NODE its) \<and>
    config_of document its cfg \<and> complete cfg"
  by (rule read_config_parts [OF assms])

theorem read_config_correct_witness:
  "rip_read_config (\<lambda>m n. (m, True)) () sample_source zero_configuration = Some ((), sample_config, 0) \<and>
   complete sample_config"
  using read_config_correct [OF sample_read] sample_read by blast

text \<open>The values of the C types behind \<open>int\<close> and \<open>string\<close> in the model.\<close>

definition c_int :: "int \<Rightarrow> bool" where
  "c_int v \<longleftrightarrow> - (2 ^ 31) \<le> v \<and> v < 2 ^ 31"

definition c_string :: "string \<Rightarrow> bool" where
  "c_string s \<longleftrightarrow> CHR 0x00 \<notin> set s"

definition typed_network :: "advertised_network \<Rightarrow> bool" where
  "typed_network net \<longleftrightarrow> (\<exists>a p d. net = \<lparr>net_address = Some a, net_prefix = Some p, net_dev = Some d\<rparr> \<and>
     c_string a \<and> c_int p \<and> c_string d)"

definition typed_interface :: "rip_interface \<Rightarrow> bool" where
  "typed_interface ifc \<longleftrightarrow> (\<exists>d. ifc = \<lparr>ifc_dev = Some d\<rparr> \<and> c_string d)"

lemma str_to_int_typed: "str_to_int s = Some v \<Longrightarrow> c_int v"
  using sint_greater_eq [of "word_of_int (fst (strtol s)) :: 32 word"] sint_less [of "word_of_int (fst (strtol s)) :: 32 word"]
  by (auto simp: str_to_int_def c_int_def split: prod.splits if_splits)

lemma c_str_typed: "c_string (c_str s)"
  using set_takeWhileD [of "CHR 0x00" _ s] unfolding c_string_def c_str_def by blast

lemma last_value_typed: "last_value document name ps = Some s \<Longrightarrow> c_string s"
  by (induction ps arbitrary: s rule: rev_induct)
    (auto simp: last_value_def value_step_def c_str_typed split: option.splits yaml_node.splits if_splits)

lemma array_of_elements:
  assumes "array_of document f child (Some xs) n" "x \<in> set xs"
  shows "\<exists>ps. x = f document ps"
  using assms by (auto simp: array_of_def split: option.splits)



text \<open>
  C19: reading a configuration is free of undefined behaviour as long as the file can be opened,
  the parser initialised, no allocation fails, the document has a mapping that is not empty as
  its root and the version is not a sequence or a mapping: no null pointer is dereferenced and
  every index is inside its array, also when items are skipped or keys are missing. (Without the
  conditions on the file, the parser and the root this fails.)
\<close>

theorem read_config_defined:
  assumes "file_opened src" "parser_initialized src" "never_fails malloc"
    and "\<And>document. parser_loaded src = Some document \<Longrightarrow> \<exists>pair rest.
      yaml_document_get_root_node document = Some (YAML_MAPPING_NODE (pair # rest)) \<and>
      (\<forall>its p key n. yaml_document_get_node document (snd pair) = Some (YAML_MAPPING_NODE its) \<longrightarrow> p \<in> set its \<longrightarrow>
         yaml_document_get_node document (fst p) = Some key \<longrightarrow> key_is key ''version'' \<longrightarrow>
         yaml_document_get_node document (snd p) = Some n \<longrightarrow> (\<exists>s. n = YAML_SCALAR_NODE s))"
  shows "rip_read_config malloc m src cfg \<noteq> None"
proof (cases "parser_loaded src")
  case None
  with assms(1,2) show ?thesis by (simp add: rip_read_config_def rip_configuration_read_and_parse_def)
next
  case (Some document)
  from assms(4) [OF this] obtain pair rest where
    r: "yaml_document_get_root_node document = Some (YAML_MAPPING_NODE (pair # rest))"
    and v: "\<And>its p key n. yaml_document_get_node document (snd pair) = Some (YAML_MAPPING_NODE its) \<Longrightarrow> p \<in> set its \<Longrightarrow>
      yaml_document_get_node document (fst p) = Some key \<Longrightarrow> key_is key ''version'' \<Longrightarrow>
      yaml_document_get_node document (snd p) = Some n \<Longrightarrow> \<exists>s. n = YAML_SCALAR_NODE s" by blast
  have t: "parse_rip_configuration_pairs malloc m document its zero_configuration \<noteq> None"
    if "yaml_document_get_node document (snd pair) = Some (YAML_MAPPING_NODE its)" for its
    by (rule pairs_config_total [OF assms(3)]) (rule v [OF that])
  have p: "parse_rip_configuration malloc m document (Some (YAML_MAPPING_NODE (pair # rest))) \<noteq> None"
    using t by (auto simp: parse_rip_configuration_def simp del: not_None_eq split: option.splits yaml_node.splits)
  have "config_seen document [] zero_configuration"
    by (simp add: config_seen_def version_of_def array_seen_def zero_configuration_def)
  then have "rip_configuration_validate cfg' \<noteq> None"
    if "parse_rip_configuration malloc m document (Some (YAML_MAPPING_NODE (pair # rest))) = Some (m', cfg', 0)" for m' cfg'
    using that pairs_config_seen validate_total
    by (fastforce simp: parse_rip_configuration_def split: option.splits yaml_node.splits if_splits)
  with p Some r assms(1,2) show ?thesis
    by (auto simp: rip_read_config_def rip_configuration_read_and_parse_def bind_eq_None_conv simp del: not_None_eq)
qed

theorem read_config_defined_witness:
  "rip_read_config (\<lambda>m n. (m, True)) () sample_source zero_configuration \<noteq> None"
proof (rule read_config_defined)
  fix document assume "parser_loaded sample_source = Some document"
  then have d: "document = document_of sample_nodes" by (simp add: sample_source_def)
  have r: "yaml_document_get_root_node document = Some (YAML_MAPPING_NODE [(2, 3)])"
    unfolding d by code_simp
  have n: "yaml_document_get_node document 3 = Some (YAML_MAPPING_NODE [(4, 5), (6, 7), (17, 18)])"
    "yaml_document_get_node document 5 = Some (YAML_SCALAR_NODE ''2'')"
    "\<not> key_is (YAML_SCALAR_NODE ''rip_interfaces'') ''version''" "\<not> key_is (YAML_SCALAR_NODE ''advertised_networks'') ''version''"
    "yaml_document_get_node document 6 = Some (YAML_SCALAR_NODE ''rip_interfaces'')"
    "yaml_document_get_node document 17 = Some (YAML_SCALAR_NODE ''advertised_networks'')"
    unfolding d by code_simp+
  show "\<exists>pair rest. yaml_document_get_root_node document = Some (YAML_MAPPING_NODE (pair # rest)) \<and>
      (\<forall>its p key n. yaml_document_get_node document (snd pair) = Some (YAML_MAPPING_NODE its) \<longrightarrow> p \<in> set its \<longrightarrow>
         yaml_document_get_node document (fst p) = Some key \<longrightarrow> key_is key ''version'' \<longrightarrow>
         yaml_document_get_node document (snd p) = Some n \<longrightarrow> (\<exists>s. n = YAML_SCALAR_NODE s))"
    using r n by (intro exI [of _ "(2, 3)"] exI [of _ "[]"]) auto
qed (simp_all add: sample_source_def never_fails_def)

end
