(* ===== verification/Rip_Socket.thy ===== *)
theory Rip_Socket
  imports Rip_Os Rip_Config
begin

text \<open>
  Model of \<^verbatim>\<open>utils/network/socket.c\<close>, \<^verbatim>\<open>rip_socket.c\<close> and the growing array of
  \<^verbatim>\<open>utils/da_array.h\<close>: creation and configuration of the receive and transmit socket of each
  interface. A failed \<^verbatim>\<open>assert\<close> ends the process. A write through the null pointer that a
  failed \<^verbatim>\<open>realloc\<close> leaves in a growing array, and the use of a name that fills its array
  without a terminating zero, are undefined (\<open>None\<close>).
\<close>

section \<open>Growing arrays\<close>

record 'a da_vec =
  da_items :: "'a list"
  da_capacity :: nat

definition da_empty :: "'a da_vec" where
  "da_empty = \<lparr>da_items = [], da_capacity = 0\<rparr>"

definition da_append :: "(nat \<Rightarrow> bool) \<Rightarrow> nat \<Rightarrow> 'a da_vec \<Rightarrow> 'a \<Rightarrow> 'a da_vec option" where
  "da_append realloc sz xs x =
     (if length (da_items xs) \<ge> da_capacity xs then
        let c = (if da_capacity xs = 0 then 64 else da_capacity xs * 2)
        in if realloc (c * sz) then Some (xs\<lparr>da_capacity := c, da_items := da_items xs @ [x]\<rparr>)
           else None
      else Some (xs\<lparr>da_items := da_items xs @ [x]\<rparr>))"

definition sizeof_rip_ifc :: nat where "sizeof_rip_ifc = 48"

section \<open>socket.c\<close>

definition RIP_UDP_PORT :: u16 where "RIP_UDP_PORT = 520"
definition RIP_MULTICAST_ADDR :: string where "RIP_MULTICAST_ADDR = ''224.0.0.9''"

definition socket_create_udp_socket ::
  "('w, 'r, 'n, 'a) os \<Rightarrow> 'w \<Rightarrow> int \<Rightarrow> 'w \<times> int \<times> int" where
  "socket_create_udp_socket os w fd =
     (let (w, soc_fd) = os_socket os w in
      if soc_fd < 0 then (w, fd, 1) else (w, soc_fd, 0))"

text \<open>A call on a descriptor that must not be 0.\<close>

definition asserted_call :: "int \<Rightarrow> 'w \<Rightarrow> ('w \<Rightarrow> 'w \<times> int) \<Rightarrow> 'w \<times> ret" where
  "asserted_call fd w f =
     (if fd = 0 then (w, Exited)
      else let (w, ec) = f w in (w, Returned (if ec < 0 then 1 else 0)))"

definition socket_set_allow_reuse_port :: "('w, 'r, 'n, 'a) os \<Rightarrow> 'w \<Rightarrow> int \<Rightarrow> 'w \<times> ret" where
  "socket_set_allow_reuse_port os w fd = asserted_call fd w (\<lambda>w. os_so_reuseport os w fd)"

definition socket_bind_port :: "('w, 'r, 'n, 'a) os \<Rightarrow> 'w \<Rightarrow> int \<Rightarrow> u16 \<Rightarrow> 'w \<times> ret" where
  "socket_bind_port os w fd port = asserted_call fd w (\<lambda>w. os_bind os w fd (htons port))"

definition socket_join_multicast ::
  "('w, 'r, 'n, 'a) os \<Rightarrow> 'w \<Rightarrow> int \<Rightarrow> int \<Rightarrow> string \<Rightarrow> 'w \<times> ret" where
  "socket_join_multicast os w fd ifi address =
     asserted_call fd w (\<lambda>w. os_ip_add_membership os w fd ifi address)"

definition socket_disable_multicast_loopback :: "('w, 'r, 'n, 'a) os \<Rightarrow> 'w \<Rightarrow> int \<Rightarrow> 'w \<times> ret" where
  "socket_disable_multicast_loopback os w fd = asserted_call fd w (\<lambda>w. os_ip_multicast_loop os w fd)"

definition socket_bind_to_device :: "('w, 'r, 'n, 'a) os \<Rightarrow> 'w \<Rightarrow> int \<Rightarrow> string \<Rightarrow> 'w \<times> ret" where
  "socket_bind_to_device os w fd name =
     (if fd = 0 then (w, Exited)
      else if name = [] then (w, Returned 1)
      else asserted_call fd w (\<lambda>w. os_so_bindtodevice os w fd name))"

definition socket_set_nonblocking :: "('w, 'r, 'n, 'a) os \<Rightarrow> 'w \<Rightarrow> int \<Rightarrow> 'w \<times> ret" where
  "socket_set_nonblocking os w fd = asserted_call fd w (\<lambda>w. os_fcntl_nonblock os w fd)"

section \<open>rip_socket.c\<close>

text \<open>The shape \<^verbatim>\<open>if (f(...)) return 1;\<close>.\<close>

definition check_then :: "'w \<times> ret \<Rightarrow> ('w \<Rightarrow> 'w \<times> ret) \<Rightarrow> 'w \<times> ret" where
  "check_then r k = (case r of
     (w, Exited) \<Rightarrow> (w, Exited)
   | (w, Returned s) \<Rightarrow> if s \<noteq> 0 then (w, Returned 1) else k w)"

definition setup_socket_multicast_rx ::
  "('w, 'r, 'n, 'a) os \<Rightarrow> 'w \<Rightarrow> rip_socket \<Rightarrow> rip_socket \<times> 'w \<times> ret" where
  "setup_socket_multicast_rx os w sock =
     (let (w, fd, ec) = socket_create_udp_socket os w (sock_fd sock); sock = sock\<lparr>sock_fd := fd\<rparr> in
      if ec \<noteq> 0 then (sock, w, Returned 1)
      else (sock,
        check_then (socket_set_nonblocking os w (sock_fd sock)) (\<lambda>w.
        check_then (socket_bind_to_device os w (sock_fd sock) (if_name sock)) (\<lambda>w.
        check_then (socket_set_allow_reuse_port os w (sock_fd sock)) (\<lambda>w.
        check_then (socket_bind_port os w (sock_fd sock) RIP_UDP_PORT) (\<lambda>w.
        check_then (socket_join_multicast os w (sock_fd sock) (sock_if_index sock) RIP_MULTICAST_ADDR) (\<lambda>w.
        (w, Returned 0))))))))"

definition rip_setup_tx_socket :: "('w, 'r, 'n, 'a) os \<Rightarrow> 'w \<Rightarrow> rip_socket \<Rightarrow> 'w \<times> ret" where
  "rip_setup_tx_socket os w sock =
     check_then (socket_bind_to_device os w (sock_fd sock) (if_name sock)) (\<lambda>w.
     check_then (socket_set_allow_reuse_port os w (sock_fd sock)) (\<lambda>w.
     check_then (socket_bind_port os w (sock_fd sock) RIP_UDP_PORT) (\<lambda>w.
     (w, Returned 0))))"

definition setup_socket_multicast_tx :: "('w, 'r, 'n, 'a) os \<Rightarrow> 'w \<Rightarrow> rip_socket \<Rightarrow> 'w \<times> ret" where
  "setup_socket_multicast_tx os w sock =
     check_then (rip_setup_tx_socket os w sock) (\<lambda>w.
     check_then (socket_disable_multicast_loopback os w (sock_fd sock)) (\<lambda>w.
     (w, Returned 0)))"

definition rip_create_socket_ifindex ::
  "('w, 'r, 'n, 'a) os \<Rightarrow> 'w \<Rightarrow> rip_socket \<Rightarrow> int \<Rightarrow> rip_socket \<times> 'w \<times> int" where
  "rip_create_socket_ifindex os w socket ifindex =
     (let socket = socket\<lparr>sock_if_index := ifindex\<rparr> in
      case os_if_indextoname os w (sock_if_index socket) of
        None \<Rightarrow> (socket, w, 1)
      | Some name \<Rightarrow>
          let socket = socket\<lparr>if_name := name\<rparr>;
              (w, fd, ec) = socket_create_udp_socket os w (sock_fd socket);
              socket = socket\<lparr>sock_fd := fd\<rparr>
          in if ec \<noteq> 0 then (socket, w, 1) else (socket, w, 0))"

text \<open>The result is undefined when the name has exactly \<^verbatim>\<open>IF_NAMESIZE\<close> characters.\<close>

definition rip_create_socket_ifname ::
  "('w, 'r, 'n, 'a) os \<Rightarrow> 'w \<Rightarrow> rip_socket \<Rightarrow> string \<Rightarrow> (rip_socket \<times> 'w \<times> int) option" where
  "rip_create_socket_ifname os w socket ifname =
     (let ifname_size = length ifname in
      if ifname_size = 0 \<or> ifname_size > IF_NAMESIZE then Some (socket, w, 1)
      else if ifname_size = IF_NAMESIZE then None
      else let socket = socket\<lparr>if_name := ifname\<rparr>;
               idx = os_if_nametoindex os w (if_name socket);
               socket = socket\<lparr>sock_if_index := sint idx\<rparr>
      in if idx = 0 then Some (socket, w, 1)
      else let (w, fd, ec) = socket_create_udp_socket os w (sock_fd socket);
               socket = socket\<lparr>sock_fd := fd\<rparr>
      in if ec \<noteq> 0 then Some (socket, w, 1) else Some (socket, w, 0))"

definition zero_socket :: rip_socket where
  "zero_socket = \<lparr>sock_fd = 0, if_name = [], sock_if_index = 0\<rparr>"

text \<open>The loop over the interfaces of the configuration; a null name is dereferenced.\<close>

fun rip_create_sockets ::
  "('w, 'r, 'n, 'a) os \<Rightarrow> 'w \<Rightarrow> rip_interface list \<Rightarrow> rip_ifc da_vec \<Rightarrow> (rip_ifc da_vec \<times> 'w \<times> int) option" where
  "rip_create_sockets os w [] rip_ifcs = Some (rip_ifcs, w, 0)"
| "rip_create_sockets os w (interface_cfg # rest) rip_ifcs = do {
     dev \<leftarrow> ifc_dev interface_cfg;
     (rx, w, ec) \<leftarrow> rip_create_socket_ifname os w zero_socket dev;
     if ec \<noteq> 0 then Some (rip_ifcs, w, 1)
     else do {
       (tx, w, ec) \<leftarrow> rip_create_socket_ifname os w zero_socket dev;
       if ec \<noteq> 0 then Some (rip_ifcs, w, 1)
       else do {
         rip_ifcs \<leftarrow> da_append (os_malloc os w) sizeof_rip_ifc rip_ifcs \<lparr>socket_rx = rx, socket_tx = tx\<rparr>;
         rip_create_sockets os w rest rip_ifcs
       }
     }
   }"

text \<open>The loop over the interfaces; \<open>done\<close> are those already set up.\<close>

fun rip_setup_sockets_from ::
  "('w, 'r, 'n, 'a) os \<Rightarrow> 'w \<Rightarrow> rip_ifc list \<Rightarrow> rip_ifc list \<Rightarrow> rip_ifc list \<times> 'w \<times> ret" where
  "rip_setup_sockets_from os w passed [] = (passed, w, Returned 0)"
| "rip_setup_sockets_from os w passed (ifc # rest) =
     (let (rx, w, rc) = setup_socket_multicast_rx os w (socket_rx ifc); ifc = ifc\<lparr>socket_rx := rx\<rparr> in
      if rc = Exited then (passed @ ifc # rest, w, Exited)
      else if rc \<noteq> Returned 0 then (passed @ ifc # rest, w, Returned 1)
      else let (w, rc) = setup_socket_multicast_tx os w (socket_tx ifc) in
      if rc = Exited then (passed @ ifc # rest, w, Exited)
      else if rc \<noteq> Returned 0 then (passed @ ifc # rest, w, Returned 1)
      else rip_setup_sockets_from os w (passed @ [ifc]) rest)"

definition rip_setup_sockets ::
  "('w, 'r, 'n, 'a) os \<Rightarrow> 'w \<Rightarrow> rip_ifc da_vec \<Rightarrow> rip_ifc da_vec \<times> 'w \<times> ret" where
  "rip_setup_sockets os w ifcs =
     (let (xs, w, rc) = rip_setup_sockets_from os w [] (da_items ifcs)
      in (ifcs\<lparr>da_items := xs\<rparr>, w, rc))"

section \<open>Properties\<close>

lemma da_append_items:
  "da_append ra sz xs x = Some ys \<Longrightarrow> da_items ys = da_items xs @ [x]"
  by (auto simp: da_append_def Let_def split: if_splits)

lemma da_append_total: "\<forall>n. ra n \<Longrightarrow> \<exists>ys. da_append ra sz xs x = Some ys"
  by (simp add: da_append_def Let_def)

lemma da_append_capacity:
  assumes "da_append ra sz xs x = Some ys" "length (da_items xs) \<le> da_capacity xs"
  shows "length (da_items ys) \<le> da_capacity ys"
  using assms by (auto simp: da_append_def Let_def Suc_le_eq split: if_splits)

text \<open>The interface a rx or tx socket is created for.\<close>

lemma create_socket_ifname_ok:
  assumes "rip_create_socket_ifname os w s name = Some (s', w', 0)"
  shows "if_name s' = name" "sock_if_index s' = sint (os_if_nametoindex os w name)"
    "os_if_nametoindex os w name \<noteq> 0" "0 \<le> sock_fd s'" "0 < length name" "length name < IF_NAMESIZE"
  using assms
  by (auto simp: rip_create_socket_ifname_def socket_create_udp_socket_def Let_def
      split: if_splits prod.splits)

lemma create_sockets_names:
  assumes "rip_create_sockets os w ifcs v = Some (v', w', 0)"
  shows "map (\<lambda>i. Some (if_name (socket_rx i))) (da_items v') = map (\<lambda>i. Some (if_name (socket_rx i))) (da_items v) @ map ifc_dev ifcs \<and>
    map (\<lambda>i. Some (if_name (socket_tx i))) (da_items v') = map (\<lambda>i. Some (if_name (socket_tx i))) (da_items v) @ map ifc_dev ifcs"
  using assms
proof (induction ifcs arbitrary: w v)
  case (Cons ifc ifcs)
  from Cons.prems obtain dev rx w1 tx w2 v1 where d: "ifc_dev ifc = Some dev" and c:
    "rip_create_socket_ifname os w zero_socket dev = Some (rx, w1, 0)"
    "rip_create_socket_ifname os w1 zero_socket dev = Some (tx, w2, 0)"
    "da_append (os_malloc os w2) sizeof_rip_ifc v \<lparr>socket_rx = rx, socket_tx = tx\<rparr> = Some v1"
    "rip_create_sockets os w2 ifcs v1 = Some (v', w', 0)"
    by (auto simp: bind_eq_Some_conv split: if_splits prod.splits)
  from Cons.IH [OF c(4)] create_socket_ifname_ok(1) [OF c(1)] create_socket_ifname_ok(1) [OF c(2)]
    da_append_items [OF c(3)] d
  show ?case by simp
qed simp

end
