(* ===== verification/Rip_Update.thy ===== *)
theory Rip_Update
  imports Rip_Db Rip_Socket
begin

text \<open>
  Model of \<^verbatim>\<open>rip_update.c\<close>: filling a message with the routes to advertise on an interface
  (split horizon), sending periodic, triggered, requested and shutdown advertisements, and
  the request the daemon sends when it starts.

  The array \<^verbatim>\<open>entries\<close> of the message has 500 elements and the code does not check its bound:
  a write past the end is \<open>None\<close>. \<open>advertised\<close> is the specification of what a message holds.
\<close>

section \<open>Sending a message\<close>

definition RIP_CMD_REQUEST :: u8 where "RIP_CMD_REQUEST = 1"
definition RIP_CMD_RESPONSE :: u8 where "RIP_CMD_RESPONSE = 2"

text \<open>The address 224.0.0.9 in network order, as \<^verbatim>\<open>inet_aton\<close> stores it.\<close>

definition rip_multicast_n :: in_addr where "rip_multicast_n = 0x090000E0"

definition zero_buffer :: msg_buffer where
  "zero_buffer = \<lparr>header = \<lparr>command = 0, version = 0\<rparr>, entries = replicate msg_buffer_entries zero_entry\<rparr>"

text \<open>Printing: only whether it is defined matters.\<close>

fun print_buffer :: "rip2_entry list \<Rightarrow> unit option" where
  "print_buffer [] = Some ()"
| "print_buffer (e # es) = do { rip2_entry_print e; print_buffer es }"

definition rip_send ::
  "('w, 'r, 'n, 'a) os \<Rightarrow> 'w \<Rightarrow> int \<Rightarrow> in_addr \<Rightarrow> msg_buffer \<Rightarrow> nat \<Rightarrow> ('w \<times> int) option" where
  "rip_send os w fd destination buffer n_entries =
     (if n_entries = 0 then Some (w, 0)
      else do {
        print_buffer (take n_entries (entries buffer));
        let (w, sent_bytes) = os_sendto os w fd destination (htons RIP_UDP_PORT)
              \<lparr>dg_header = header buffer, dg_entries = take n_entries (entries buffer)\<rparr>;
        Some (w, if sent_bytes = - 1 then 1 else 0)
      })"

section \<open>Filling a message\<close>

datatype rip_neighbour_policy = rip_neighbour_split_horizon | rip_neighbour_poison

record rip_advertising_policy =
  neigbour_policy :: rip_neighbour_policy
  advertise_only_changed :: bool

text \<open>The loop over the database, from an iterator and a count of entries written.\<close>

function fill_from ::
  "u32 \<Rightarrow> rip_db \<Rightarrow> rip_advertising_policy \<Rightarrow> db_iter \<Rightarrow> msg_buffer \<Rightarrow> nat \<Rightarrow> (msg_buffer \<times> nat) option" where
  "fill_from if_index_dest db policy iter buffer cnt =
     (case rip_db_iter_const db rip_db_all iter of
        (iter, None) \<Rightarrow> Some (buffer, cnt)
      | (iter, Some r) \<Rightarrow>
          let route = rip_db_read db r in
          if advertise_only_changed policy \<and> \<not> changed route
            then fill_from if_index_dest db policy iter buffer cnt
          else if if_index route \<noteq> if_index_dest then
            (if cnt < msg_buffer_entries then
               fill_from if_index_dest db policy iter
                 (buffer\<lparr>entries := (entries buffer)[cnt := (entry route)\<lparr>next_hop := 0\<rparr>]\<rparr>) (cnt + 1)
             else None)
          else fill_from if_index_dest db policy iter buffer cnt)"
  by pat_completeness auto
termination
  by (relation "measure (\<lambda>(i, db, p, iter, b, c). iter_left db iter)")
    (auto simp: rip_db_iter_const_def dest: iter_left_all [OF sym])

declare fill_from.simps [simp del]

definition fill_buffer_with_entries ::
  "u32 \<Rightarrow> rip_db \<Rightarrow> msg_buffer \<Rightarrow> rip_advertising_policy \<Rightarrow> (msg_buffer \<times> nat) option" where
  "fill_buffer_with_entries if_index_dest db buffer policy =
     fill_from if_index_dest db policy iter_zero buffer 0"

definition rip_send_response ::
  "('w, 'r, 'n, 'a) os \<Rightarrow> 'w \<Rightarrow> msg_buffer \<Rightarrow> rip_socket \<Rightarrow> in_addr \<Rightarrow> rip_db \<Rightarrow> rip_advertising_policy \<Rightarrow>
   ('w \<times> msg_buffer \<times> int) option" where
  "rip_send_response os w buffer socket destination db policy = do {
     (buffer, n_entries) \<leftarrow> fill_buffer_with_entries (word_of_int (sock_if_index socket)) db buffer policy;
     (w, ret) \<leftarrow> rip_send os w (sock_fd socket) destination buffer n_entries;
     Some (w, buffer, ret)
   }"

section \<open>Advertisements and requests\<close>

text \<open>The loops over the interfaces; \<open>ret\<close> accumulates the statuses by bitwise or.\<close>

fun send_responses ::
  "('w, 'r, 'n, 'a) os \<Rightarrow> 'w \<Rightarrow> msg_buffer \<Rightarrow> rip_ifc list \<Rightarrow> rip_db \<Rightarrow> rip_advertising_policy \<Rightarrow> int \<Rightarrow>
   ('w \<times> int) option" where
  "send_responses os w buffer [] db policy ret = Some (w, ret)"
| "send_responses os w buffer (ifc # ifcs) db policy ret = do {
     (w, buffer, r) \<leftarrow> rip_send_response os w buffer (socket_tx ifc) rip_multicast_n db policy;
     send_responses os w buffer ifcs db policy (ret OR r)
   }"

definition rip_send_advertisement_multicast ::
  "('w, 'r, 'n, 'a) os \<Rightarrow> 'w \<Rightarrow> rip_db \<Rightarrow> rip_ifc da_vec \<Rightarrow> bool \<Rightarrow> ('w \<times> rip_db \<times> int) option" where
  "rip_send_advertisement_multicast os w db ifcs only_changed = do {
     let buffer = zero_buffer\<lparr>header := \<lparr>command = RIP_CMD_RESPONSE, version = 2\<rparr>\<rparr>;
     let policy = \<lparr>neigbour_policy = rip_neighbour_split_horizon, advertise_only_changed = only_changed\<rparr>;
     (w, ret) \<leftarrow> send_responses os w buffer (da_items ifcs) db policy 0;
     Some (w, rip_db_mark_all_routes_as_unchanged db, ret)
   }"

fun send_requests ::
  "('w, 'r, 'n, 'a) os \<Rightarrow> 'w \<Rightarrow> msg_buffer \<Rightarrow> rip_ifc list \<Rightarrow> int \<Rightarrow> ('w \<times> int) option" where
  "send_requests os w buffer [] ret = Some (w, ret)"
| "send_requests os w buffer (ifc # ifcs) ret = do {
     (w, r) \<leftarrow> rip_send os w (sock_fd (socket_tx ifc)) rip_multicast_n buffer 1;
     send_requests os w buffer ifcs (ret OR r)
   }"

definition rip_send_request_multicast ::
  "('w, 'r, 'n, 'a) os \<Rightarrow> 'w \<Rightarrow> rip_ifc da_vec \<Rightarrow> ('w \<times> int) option" where
  "rip_send_request_multicast os w ifcs =
     (let buffer = zero_buffer\<lparr>header := \<lparr>command = RIP_CMD_REQUEST, version = 2\<rparr>\<rparr>;
          buffer = buffer\<lparr>entries := (entries buffer)[0 := zero_entry\<lparr>metric := htonl 16\<rparr>]\<rparr>
      in send_requests os w buffer (da_items ifcs) 0)"

definition is_initial_request :: "rip2_entry list \<Rightarrow> nat \<Rightarrow> bool" where
  "is_initial_request es n_entry \<longleftrightarrow> n_entry = 1 \<and> ntohl (metric (es ! 0)) \<ge> 16 \<and>
     htons (routing_family_id (es ! 0)) = 0"

text \<open>\<^verbatim>\<open>close\<close> is called on the descriptor of the socket on every path after its declaration.\<close>

definition rip_send_advertisement_unicast ::
  "('w, 'r, 'n, 'a) os \<Rightarrow> 'w \<Rightarrow> rip_db \<Rightarrow> rip2_entry list \<Rightarrow> nat \<Rightarrow> in_addr \<Rightarrow> int \<Rightarrow> ('w \<times> ret) option" where
  "rip_send_advertisement_unicast os w db es n_entry target ifindex =
     (if n_entry = 0 then Some (w, Returned 1)
      else if \<not> is_initial_request es n_entry then Some (w, Returned 1)
      else let buffer = zero_buffer\<lparr>header := \<lparr>command = RIP_CMD_RESPONSE, version = 2\<rparr>\<rparr>;
               (socket, w, ec) = rip_create_socket_ifindex os w zero_socket ifindex in
      if ec \<noteq> 0 then Some (os_close os w (sock_fd socket), Returned 1)
      else case rip_setup_tx_socket os w socket of
        (w, Exited) \<Rightarrow> Some (w, Exited)
      | (w, Returned ec) \<Rightarrow>
          if ec \<noteq> 0 then Some (os_close os w (sock_fd socket), Returned 1)
          else do {
            let policy = \<lparr>neigbour_policy = rip_neighbour_split_horizon, advertise_only_changed = False\<rparr>;
            (w, buffer, ret) \<leftarrow> rip_send_response os w buffer socket target db policy;
            Some (os_close os w (sock_fd socket), Returned ret)
          })"

definition rip_send_advertisement_shutdown ::
  "('w, 'r, 'n, 'a) os \<Rightarrow> 'w \<Rightarrow> rip_db \<Rightarrow> rip_ifc da_vec \<Rightarrow> ('w \<times> rip_db) option" where
  "rip_send_advertisement_shutdown os w db ifcs = do {
     let db = rip_db_update_all (\<lambda>r. r\<lparr>entry := (entry r)\<lparr>metric := htonl 16\<rparr>\<rparr>) db iter_zero;
     (w, db, ret) \<leftarrow> rip_send_advertisement_multicast os w db ifcs False;
     Some (w, db)
   }"

section \<open>Specification of a message\<close>

definition eligible :: "u32 \<Rightarrow> bool \<Rightarrow> rip_route_description \<Rightarrow> bool" where
  "eligible dest only_changed r \<longleftrightarrow> (only_changed \<longrightarrow> changed r) \<and> if_index r \<noteq> dest"

abbreviation advert :: "rip_route_description \<Rightarrow> rip2_entry" where
  "advert r \<equiv> (entry r)\<lparr>next_hop := 0\<rparr>"

text \<open>The routes of the database in the order of iteration, and the entries of a message.\<close>

definition db_list :: "rip_db \<Rightarrow> rip_route_description list" where
  "db_list db = pend_ok db iter_zero @ pend_garbage db iter_zero"

definition advertised :: "u32 \<Rightarrow> bool \<Rightarrow> rip_db \<Rightarrow> rip2_entry list" where
  "advertised dest only_changed db = map advert (filter (eligible dest only_changed) (db_list db))"

definition printable :: "rip_db \<Rightarrow> bool" where
  "printable db \<longleftrightarrow> (\<forall>r\<in>db_routes db. route_mask r \<noteq> 0xFFFFFFFF)"

lemma set_db_list: "db_inv db \<Longrightarrow> set (db_list db) = db_routes db"
  by (simp add: db_list_def pend_all db_routes_def)

lemma set_advertised:
  "db_inv db \<Longrightarrow> set (advertised dest oc db) = advert ` {r \<in> db_routes db. eligible dest oc r}"
  by (auto simp: advertised_def set_db_list)

lemma fill_end: "rip_db_iter_all db iter = (iter', None) \<Longrightarrow> fill_from d db p iter b c = Some (b, c)"
  by (subst fill_from.simps) (simp add: rip_db_iter_const_def)

lemma fill_next:
  "rip_db_iter_all db iter = (iter', Some r) \<Longrightarrow> fill_from d db p iter b c =
     (if eligible d (advertise_only_changed p) (rip_db_read db r)
      then if c < msg_buffer_entries
           then fill_from d db p iter' (b\<lparr>entries := (entries b)[c := advert (rip_db_read db r)]\<rparr>) (c + 1)
           else None
      else fill_from d db p iter' b c)"
  by (subst fill_from.simps) (auto simp: rip_db_iter_const_def Let_def eligible_def)

lemma fill_from_eq:
  fixes d p
  assumes "db_inv db" "length (entries b) = msg_buffer_entries" "c \<le> msg_buffer_entries"
  defines "es iter \<equiv> map advert (filter (eligible d (advertise_only_changed p)) (pend_ok db iter @ pend_garbage db iter))"
  shows "if c + length (es iter) \<le> msg_buffer_entries
    then \<exists>b'. fill_from d db p iter b c = Some (b', c + length (es iter)) \<and> header b' = header b \<and>
      length (entries b') = msg_buffer_entries \<and>
      take (c + length (es iter)) (entries b') = take c (entries b) @ es iter
    else fill_from d db p iter b c = None"
  using assms(2,3)
proof (induction "iter_left db iter" arbitrary: iter b c rule: less_induct)
  case less
  note law = iter_all_law [OF assms(1), of iter]
  obtain iter' r where it: "rip_db_iter_all db iter = (iter', r)" by fastforce
  show ?case
  proof (cases r)
    case None
    with law it less.prems show ?thesis by (simp add: fill_end es_def)
  next
    case (Some r')
    then have it': "rip_db_iter_all db iter = (iter', Some r')" using it by simp
    note IH = less.hyps [OF iter_left_all [OF it']]
    let ?x = "rip_db_read db r'"
    have p: "pend_ok db iter @ pend_garbage db iter = ?x # pend_ok db iter' @ pend_garbage db iter'"
      using law it' by (cases r') auto
    show ?thesis
    proof (cases "eligible d (advertise_only_changed p) ?x")
      case True
      then have e: "es iter = advert ?x # es iter'" by (simp add: es_def p del: append_assoc)
      let ?b = "b\<lparr>entries := (entries b)[c := advert ?x]\<rparr>"
      show ?thesis
      proof (cases "c < msg_buffer_entries")
        case c: True
        with less.prems have "take (Suc c) (entries ?b) = take c (entries b) @ [advert ?x]"
          by (simp add: take_Suc_conv_app_nth)
        with IH [of ?b "c + 1"] less.prems c e True show ?thesis
          unfolding fill_next [OF it'] by (simp split: if_splits)
      qed (use less.prems e True in \<open>simp add: fill_next [OF it']\<close>)
    next
      case False
      then have "es iter = es iter'" by (simp add: es_def p del: append_assoc)
      with IH [of b c] less.prems False show ?thesis unfolding fill_next [OF it'] by simp
    qed
  qed
qed

lemma fill_refines:
  fixes d p
  assumes "db_inv db" "length (entries b) = msg_buffer_entries"
  defines "es \<equiv> advertised d (advertise_only_changed p) db"
  shows "if length es \<le> msg_buffer_entries
    then \<exists>b'. fill_buffer_with_entries d db b p = Some (b', length es) \<and> header b' = header b \<and>
      length (entries b') = msg_buffer_entries \<and> take (length es) (entries b') = es
    else fill_buffer_with_entries d db b p = None"
  using fill_from_eq [OF assms(1,2) le0, of d p iter_zero]
  unfolding fill_buffer_with_entries_def es_def advertised_def db_list_def
  by (simp only: add_0 take_0 append_Nil)

lemma print_buffer_defined:
  "(\<And>e. e \<in> set es \<Longrightarrow> subnet_mask e \<noteq> 0xFFFFFFFF) \<Longrightarrow> print_buffer es = Some ()"
proof (induction es)
  case (Cons e es)
  then obtain t where "rip2_entry_print e = Some t" using entry_print_None [of e] by auto
  with Cons show ?case by simp
qed simp

lemma advertised_printable:
  "db_inv db \<Longrightarrow> printable db \<Longrightarrow> print_buffer (advertised d oc db) = Some ()"
  by (rule print_buffer_defined) (auto simp: set_advertised printable_def)

text \<open>One datagram with the given entries, none when there is nothing to say.\<close>

definition send_entries ::
  "('w, 'r, 'n, 'a) os \<Rightarrow> 'w \<Rightarrow> int \<Rightarrow> in_addr \<Rightarrow> rip2_entry list \<Rightarrow> 'w \<times> int" where
  "send_entries os w fd dest es = (if es = [] then (w, 0)
     else let (w, n) = os_sendto os w fd dest (htons RIP_UDP_PORT)
                \<lparr>dg_header = \<lparr>command = RIP_CMD_RESPONSE, version = 2\<rparr>, dg_entries = es\<rparr>
          in (w, if n = - 1 then 1 else 0))"

lemma send_response_refines:
  assumes "db_inv db" "printable db" "length (entries b) = msg_buffer_entries"
    and h: "header b = \<lparr>command = RIP_CMD_RESPONSE, version = 2\<rparr>"
    and len: "length (advertised (word_of_int (sock_if_index sock)) (advertise_only_changed p) db) \<le> msg_buffer_entries"
  shows "\<exists>b'. rip_send_response os w b sock dest db p =
      (let (w', s) = send_entries os w (sock_fd sock) dest
           (advertised (word_of_int (sock_if_index sock)) (advertise_only_changed p) db)
       in Some (w', b', s)) \<and> length (entries b') = msg_buffer_entries \<and> header b' = header b"
proof -
  let ?es = "advertised (word_of_int (sock_if_index sock)) (advertise_only_changed p) db"
  from fill_refines [OF assms(1,3), of "word_of_int (sock_if_index sock)" p] len obtain b' where
    b': "fill_buffer_with_entries (word_of_int (sock_if_index sock)) db b p = Some (b', length ?es)"
    "header b' = header b" "length (entries b') = msg_buffer_entries" "take (length ?es) (entries b') = ?es"
    by auto
  have "rip_send os w (sock_fd sock) dest b' (length ?es) = Some (send_entries os w (sock_fd sock) dest ?es)"
    using b' h advertised_printable [OF assms(1,2)]
    by (simp add: rip_send_def send_entries_def split: prod.splits)
  with b' show ?thesis
    by (auto simp: rip_send_response_def split: prod.splits)
qed

text \<open>The specification of an advertisement on all interfaces.\<close>

fun announce ::
  "('w, 'r, 'n, 'a) os \<Rightarrow> 'w \<Rightarrow> rip_ifc list \<Rightarrow> rip_db \<Rightarrow> bool \<Rightarrow> int \<Rightarrow> 'w \<times> int" where
  "announce os w [] db oc ret = (w, ret)"
| "announce os w (ifc # ifcs) db oc ret =
     (let (w, r) = send_entries os w (sock_fd (socket_tx ifc)) rip_multicast_n
            (advertised (word_of_int (sock_if_index (socket_tx ifc))) oc db)
      in announce os w ifcs db oc (ret OR r))"

definition messages_fit :: "rip_ifc da_vec \<Rightarrow> bool \<Rightarrow> rip_db \<Rightarrow> bool" where
  "messages_fit ifcs oc db \<longleftrightarrow> (\<forall>ifc\<in>set (da_items ifcs).
     length (advertised (word_of_int (sock_if_index (socket_tx ifc))) oc db) \<le> msg_buffer_entries)"

lemma send_responses_refines:
  assumes "db_inv db" "printable db" "length (entries b) = msg_buffer_entries"
    "header b = \<lparr>command = RIP_CMD_RESPONSE, version = 2\<rparr>"
    "\<forall>ifc\<in>set ifcs. length (advertised (word_of_int (sock_if_index (socket_tx ifc)))
       (advertise_only_changed p) db) \<le> msg_buffer_entries"
  shows "send_responses os w b ifcs db p ret = Some (announce os w ifcs db (advertise_only_changed p) ret)"
  using assms(3-5)
proof (induction ifcs arbitrary: w b ret)
  case (Cons ifc ifcs)
  obtain w' s where se: "send_entries os w (sock_fd (socket_tx ifc)) rip_multicast_n
      (advertised (word_of_int (sock_if_index (socket_tx ifc))) (advertise_only_changed p) db) = (w', s)" by fastforce
  from send_response_refines [OF assms(1,2) Cons.prems(1,2), of "socket_tx ifc" p os w rip_multicast_n] Cons.prems(3) se
  obtain b' where "rip_send_response os w b (socket_tx ifc) rip_multicast_n db p = Some (w', b', s)"
    "length (entries b') = msg_buffer_entries" "header b' = header b" by auto
  with Cons se show ?case by simp
qed simp

lemma multicast_refines:
  assumes "db_inv db" "printable db" "messages_fit ifcs oc db"
  shows "rip_send_advertisement_multicast os w db ifcs oc =
    (let (w', ret) = announce os w (da_items ifcs) db oc 0
     in Some (w', rip_db_mark_all_routes_as_unchanged db, ret))"
  using send_responses_refines [OF assms(1,2),
      of "zero_buffer\<lparr>header := \<lparr>command = RIP_CMD_RESPONSE, version = 2\<rparr>\<rparr>" "da_items ifcs"
        "\<lparr>neigbour_policy = rip_neighbour_split_horizon, advertise_only_changed = oc\<rparr>" os w 0] assms(3)
  by (simp add: rip_send_advertisement_multicast_def zero_buffer_def messages_fit_def split: prod.splits)

section \<open>Properties\<close>

lemma length_advertised:
  assumes "db_inv db"
  shows "length (advertised d oc db) = card {r \<in> db_routes db. eligible d oc r}"
proof -
  have "distinct (db_list db)"
    using routes_distinct [OF assms] unfolding db_list_def distinct_map by blast
  then have "length (filter (eligible d oc) (db_list db)) = card (set (filter (eligible d oc) (db_list db)))"
    by (metis distinct_card distinct_filter)
  then show ?thesis using set_db_list [OF assms] by (simp add: advertised_def)
qed

lemma sample_db1_routes: "db_routes sample_db1 = {zero_route\<lparr>changed := True\<rparr>}" "printable sample_db1"
  by (auto simp: db_routes_def sample_db1_ok printable_def zero_route_def zero_entry_def)

lemma zero_buffer_length: "length (entries zero_buffer) = msg_buffer_entries"
  by (simp add: zero_buffer_def)

text \<open>
  C21: split horizon. What \<^verbatim>\<open>fill_buffer_with_entries\<close> puts in a message for an interface is
  exactly the entries, with the next hop cleared, of the stored routes that were not learned on
  that interface and, for a triggered update, are marked as changed; never more than the buffer
  holds.
\<close>

theorem fill_split_horizon:
  assumes "db_inv db" "length (entries b) = msg_buffer_entries"
    and "fill_buffer_with_entries dest db b policy = Some (b', n)"
  shows "n \<le> msg_buffer_entries \<and> set (take n (entries b')) = (\<lambda>r. (entry r)\<lparr>next_hop := 0\<rparr>) `
    {r \<in> db_routes db. if_index r \<noteq> dest \<and> (advertise_only_changed policy \<longrightarrow> changed r)}"
proof -
  have "{r \<in> db_routes db. eligible dest (advertise_only_changed policy) r} =
      {r \<in> db_routes db. if_index r \<noteq> dest \<and> (advertise_only_changed policy \<longrightarrow> changed r)}"
    by (auto simp: eligible_def)
  with fill_refines [OF assms(1,2), of dest policy] assms(3)
    set_advertised [OF assms(1), of dest "advertise_only_changed policy"]
  show ?thesis by (auto split: if_splits)
qed

theorem fill_split_horizon_witness:
  "\<exists>b' n. fill_buffer_with_entries 5 sample_db1 zero_buffer
       \<lparr>neigbour_policy = rip_neighbour_split_horizon, advertise_only_changed = True\<rparr> = Some (b', n) \<and>
     set (take n (entries b')) = {zero_entry}"
proof -
  let ?p = "\<lparr>neigbour_policy = rip_neighbour_split_horizon, advertise_only_changed = True\<rparr>"
  have "card {r \<in> db_routes sample_db1. eligible 5 True r} \<le> card (db_routes sample_db1)"
    by (rule card_mono) (auto simp: sample_db1_routes)
  then have "length (advertised 5 True sample_db1) \<le> msg_buffer_entries"
    by (simp add: length_advertised [OF sample_db1_ok(2)] sample_db1_routes msg_buffer_entries_def)
  then obtain b' n where f: "fill_buffer_with_entries 5 sample_db1 zero_buffer ?p = Some (b', n)"
    using fill_refines [OF sample_db1_ok(2) zero_buffer_length, of 5 ?p] by auto
  have "{r \<in> db_routes sample_db1. if_index r \<noteq> 5 \<and> (advertise_only_changed ?p \<longrightarrow> changed r)} =
      {zero_route\<lparr>changed := True\<rparr>}"
    unfolding sample_db1_routes by (auto simp: zero_route_def)
  with fill_split_horizon [OF sample_db1_ok(2) zero_buffer_length f]
  have "set (take n (entries b')) = {zero_entry}" by (simp add: zero_route_def zero_entry_def)
  with f show ?thesis by blast
qed

text \<open>
  C31: the buffer bound. \<^verbatim>\<open>fill_buffer_with_entries\<close> stays within the 500 entries of the message
  exactly when at most 500 stored routes are to be advertised on the interface; with one more it
  writes past the array.
\<close>

theorem fill_overflow_iff:
  assumes "db_inv db" "length (entries b) = msg_buffer_entries"
  shows "fill_buffer_with_entries dest db b policy = None \<longleftrightarrow>
    500 < card {r \<in> db_routes db. eligible dest (advertise_only_changed policy) r}"
  using fill_refines [OF assms, of dest policy] length_advertised [OF assms(1), of dest "advertise_only_changed policy"]
  by (auto simp: msg_buffer_entries_def split: if_splits)

theorem fill_overflow_iff_witness:
  "fill_buffer_with_entries 5 sample_db zero_buffer
     \<lparr>neigbour_policy = rip_neighbour_split_horizon, advertise_only_changed = False\<rparr> \<noteq> None"
  using fill_overflow_iff [OF sample_db_ok(1) zero_buffer_length, of 5
      "\<lparr>neigbour_policy = rip_neighbour_split_horizon, advertise_only_changed = False\<rparr>"]
  by (simp add: db_routes_def sample_db_ok)

text \<open>
  C22: an advertisement on all interfaces. For a well-formed database whose messages fit,
  \<^verbatim>\<open>rip_send_advertisement_multicast\<close> sends on each interface in turn one response of version 2
  with the entries \<open>advertised\<close> for it, or nothing if there are none, returns the disjunction of
  the failures, and leaves every route unmarked and the flag down (also if a send failed).
\<close>

theorem advertisement_multicast:
  assumes "db_inv db" "flag_covers db" "printable db" "messages_fit ifcs only_changed db"
  shows "\<exists>db'. rip_send_advertisement_multicast os w db ifcs only_changed =
      (let (w', ret) = announce os w (da_items ifcs) db only_changed 0 in Some (w', db', ret)) \<and>
    db_inv db' \<and> \<not> any_route_changed db' \<and>
    ok_map db' = map_option (\<lambda>r. r\<lparr>changed := False\<rparr>) \<circ> ok_map db \<and>
    garbage_map db' = map_option (\<lambda>r. r\<lparr>changed := False\<rparr>) \<circ> garbage_map db"
  using multicast_refines [OF assms(1,3,4), of os w] mark_unchanged_refines [OF assms(1,2)] by auto

theorem advertisement_multicast_witness:
  "\<exists>db'. rip_send_advertisement_multicast sample_os {} sample_db1 da_empty True = Some ({}, db', 0) \<and>
     \<not> any_route_changed db'"
  using advertisement_multicast [OF sample_db1_ok(2) _ sample_db1_routes(2), of da_empty True sample_os "{}"]
  by (auto simp: flag_covers_def sample_db1_ok messages_fit_def da_empty_def)

lemma shutdown_refines:
  assumes "db_inv db" "printable db" "messages_fit ifcs False db"
  shows "\<exists>db16 db'. db_inv db16 \<and>
    ok_map db16 = map_option (\<lambda>r. r\<lparr>entry := (entry r)\<lparr>metric := htonl 16\<rparr>\<rparr>) \<circ> ok_map db \<and>
    garbage_map db16 = map_option (\<lambda>r. r\<lparr>entry := (entry r)\<lparr>metric := htonl 16\<rparr>\<rparr>) \<circ> garbage_map db \<and>
    rip_send_advertisement_shutdown os w db ifcs = Some (fst (announce os w (da_items ifcs) db16 False 0), db')"
proof -
  let ?f = "\<lambda>r. r\<lparr>entry := (entry r)\<lparr>metric := htonl 16\<rparr>\<rparr>"
  let ?db = "rip_db_update_all ?f db iter_zero"
  have k: "\<And>r. route_key (?f r) = route_key r" by simp
  note u = update_all_from_start [OF assms(1), of ?f, OF k]
  have rts: "db_routes ?db = ?f ` db_routes db"
    unfolding db_routes_def u(3,4) ran_map_option by blast
  have pr: "printable ?db" using assms(2) by (auto simp: printable_def rts)
  have "card {r \<in> db_routes ?db. eligible d False r} \<le> card {r \<in> db_routes db. eligible d False r}" for d
  proof -
    have eq: "{r \<in> db_routes ?db. eligible d False r} = ?f ` {r \<in> db_routes db. eligible d False r}"
      unfolding rts by (auto simp: eligible_def)
    have "finite {r \<in> db_routes db. eligible d False r}"
      using set_db_list [OF assms(1), symmetric] by simp
    then show ?thesis unfolding eq by (rule card_image_le)
  qed
  then have "messages_fit ifcs False ?db"
    using assms(3) unfolding messages_fit_def length_advertised [OF assms(1)] length_advertised [OF u(1)]
    by (meson order_trans)
  note mc = multicast_refines [OF u(1) pr this, of os w]
  obtain w' ret where an: "announce os w (da_items ifcs) ?db False 0 = (w', ret)" by fastforce
  have "rip_send_advertisement_shutdown os w db ifcs =
      Some (fst (announce os w (da_items ifcs) ?db False 0), rip_db_mark_all_routes_as_unchanged ?db)"
    unfolding rip_send_advertisement_shutdown_def Let_def mc an by simp
  with u(1,3,4) show ?thesis by blast
qed



text \<open>The request sent at start, and that it is recognised as a request for the whole table.\<close>

definition initial_request :: datagram where
  "initial_request = \<lparr>dg_header = \<lparr>command = RIP_CMD_REQUEST, version = 2\<rparr>, dg_entries = [zero_entry\<lparr>metric := htonl 16\<rparr>]\<rparr>"

lemma send_requests_sends:
  assumes "take 1 (entries buffer) = dg_entries initial_request" "header buffer = dg_header initial_request"
  shows "send_requests os w buffer ifcs ret = Some (fold (\<lambda>ifc (w, ret).
    let (w, n) = os_sendto os w (sock_fd (socket_tx ifc)) rip_multicast_n (htons RIP_UDP_PORT) initial_request
    in (w, ret OR (if n = - 1 then 1 else 0))) ifcs (w, ret))"
proof (induction ifcs arbitrary: w ret)
  case (Cons ifc ifcs)
  have p: "print_buffer (take 1 (entries buffer)) = Some ()"
    unfolding assms(1) by (rule print_buffer_defined) (simp add: initial_request_def zero_entry_def)
  have d: "\<lparr>dg_header = header buffer, dg_entries = take 1 (entries buffer)\<rparr> = initial_request"
    unfolding assms by simp
  obtain w1 n where s: "os_sendto os w (sock_fd (socket_tx ifc)) rip_multicast_n (htons RIP_UDP_PORT) initial_request = (w1, n)"
    by fastforce
  then have "rip_send os w (sock_fd (socket_tx ifc)) rip_multicast_n buffer 1 = Some (w1, if n = - 1 then 1 else 0)"
    using p d by (simp add: rip_send_def)
  with Cons s show ?case by simp
qed simp

lemma request_sends:
  "rip_send_request_multicast os w ifcs = Some (fold (\<lambda>ifc (w, ret).
    let (w, n) = os_sendto os w (sock_fd (socket_tx ifc)) rip_multicast_n (htons RIP_UDP_PORT) initial_request
    in (w, ret OR (if n = - 1 then 1 else 0))) (da_items ifcs) (w, 0))"
  unfolding rip_send_request_multicast_def Let_def
  by (rule send_requests_sends [unfolded Let_def]) (simp_all add: initial_request_def zero_buffer_def msg_buffer_entries_def numeral_eq_Suc)

lemma request_recognised:
  "take 1 es = dg_entries initial_request \<Longrightarrow> is_initial_request es 1"
  by (cases es) (simp_all add: initial_request_def is_initial_request_def zero_entry_def htons_def)

end
