(* ===== verification/Rip_Ipc.thy ===== *)
theory Rip_Ipc
  imports Rip_Os
begin

text \<open>
  Model of the daemon's side of \<^verbatim>\<open>rip_ipc.c\<close>: the table of command handlers and the handler of
  a request from the command line client. A message queue request is its first four bytes,
  the command; the output of a handler is written to a buffer of \<open>resp_output_size\<close> bytes
  through a memory stream, whose contents and error flag are a parameter of the output.
  \<^verbatim>\<open>calloc\<close>, the queues and the stream are parameters.
\<close>

datatype rip_ipc_cmd = dump_libnl_route_table | dump_rip_routes

fun cmd_code :: "rip_ipc_cmd \<Rightarrow> u32" where
  "cmd_code dump_libnl_route_table = 0"
| "cmd_code dump_rip_routes = 1"

datatype r_cmd_status = r_cmd_status_success | r_cmd_status_failed

fun status_code :: "r_cmd_status \<Rightarrow> u32" where
  "status_code r_cmd_status_success = 0"
| "status_code r_cmd_status_failed = 1"

text \<open>
  The handlers are named by their command; running a callback, which writes to a file, yields
  the text and the status, or is undefined.
\<close>

record rip_ipc =
  ipc_fd :: int
  cmd_h :: "rip_ipc_cmd list"

definition REQ_BUFFER_SIZE :: nat where "REQ_BUFFER_SIZE = 128"
definition resp_output_size :: nat where "resp_output_size = 32 * 1024 - 4"
definition sizeof_rip_ipc :: nat where "sizeof_rip_ipc = 32"
definition sizeof_ipc_response :: nat where "sizeof_ipc_response = 32 * 1024"

fun find_handler :: "rip_ipc_cmd list \<Rightarrow> u32 \<Rightarrow> rip_ipc_cmd option" where
  "find_handler [] c = None"
| "find_handler (h # hs) c = (if c = cmd_code h then Some h else find_handler hs c)"

definition rip_ipc_alloc_init ::
  "('w, 'r, 'n, 'a) os \<Rightarrow> 'w \<Rightarrow> rip_ipc_cmd list \<Rightarrow> 'w \<times> rip_ipc option" where
  "rip_ipc_alloc_init os w handlers =
     (if \<not> os_malloc os w sizeof_rip_ipc then (w, None)
      else let (w, fd) = os_mq_open_daemon os w in
      if fd = - 1 then (w, None)
      else (w, Some \<lparr>ipc_fd = fd, cmd_h = handlers\<rparr>))"

definition rip_ipc_getfd :: "rip_ipc \<Rightarrow> int" where
  "rip_ipc_getfd ri = ipc_fd ri"

text \<open>
  Running the callback of a command, \<open>call\<close>, on a memory stream over the output of the response.
\<close>

definition run_handler ::
  "('w, 'r, 'n, 'a) os \<Rightarrow> (rip_ipc_cmd \<Rightarrow> 'w \<Rightarrow> ('w \<times> string \<times> r_cmd_status) option) \<Rightarrow> rip_ipc_cmd \<Rightarrow> 'w \<Rightarrow>
   ('w \<times> string \<times> r_cmd_status) option" where
  "run_handler os call hl w =
     (if \<not> os_fmemopen os w resp_output_size then Some (w, [], r_cmd_status_failed)
      else do {
        (w, text, status) \<leftarrow> call hl w;
        let (output, ferror) = os_fwrite os resp_output_size text;
        Some (w, output, if ferror then r_cmd_status_failed else status)
      })"

definition rip_ipc_handle_event ::
  "('w, 'r, 'n, 'a) os \<Rightarrow> (rip_ipc_cmd \<Rightarrow> 'w \<Rightarrow> ('w \<times> string \<times> r_cmd_status) option) \<Rightarrow> rip_ipc \<Rightarrow> 'w \<Rightarrow>
   ('w \<times> ret) option" where
  "rip_ipc_handle_event os call ri w =
     (let (w, n_bytes, req_cmd) = os_mq_receive os w (ipc_fd ri) REQ_BUFFER_SIZE in
      if n_bytes < 0 then Some (w, Exited)
      else let (w, cli_q) = os_mq_open_cli os w; close = (\<lambda>w. if cli_q \<noteq> 0 then os_mq_close os w cli_q else w) in
      if cli_q = - 1 then Some (close w, Returned 1)
      else if \<not> os_malloc os w sizeof_ipc_response then Some (close w, Returned 1)
      else case find_handler (cmd_h ri) req_cmd of
        None \<Rightarrow> Some (close w, Returned 1)
      | Some hl \<Rightarrow> do {
          (w, output, status) \<leftarrow> run_handler os call hl w;
          let ret = (if status \<noteq> r_cmd_status_success then 1 else 0);
          let (w, ec) = os_mq_send os w cli_q (status_code status) output;
          Some (close w, Returned (if ec = - 1 then 1 else ret))
        })"

section \<open>Properties\<close>

lemma find_handler_iff: "find_handler hs c = Some h \<Longrightarrow> h \<in> set hs \<and> cmd_code h = c"
  by (induction hs) (auto split: if_splits)

lemma find_handler_complete: "h \<in> set hs \<Longrightarrow> find_handler hs (cmd_code h) = Some h"
proof (induction hs)
  case (Cons g hs)
  have "g = h" if "cmd_code g = cmd_code h" using that by (cases g; cases h) auto
  with Cons show ?case by auto
qed simp

end
