(* ===== verification/Rip_Route.thy ===== *)
theory Rip_Route
  imports Rip_Ipc
begin

text \<open>
  Model of \<^verbatim>\<open>rip_route.c\<close>: how a route description becomes a libnl route object, and its
  installation in and removal from the kernel's table. The four objects are allocated and
  filled in the order of the code; every failing call takes the error path.

  \<open>kernel_laws\<close> states what the callers rely on: the kernel's table is a set of routes to
  which \<^verbatim>\<open>rtnl_route_add\<close> adds and from which \<^verbatim>\<open>rtnl_route_delete\<close> removes.
\<close>

section \<open>Operations\<close>

definition rip_fill_next_hop ::
  "('w, 'r, 'n, 'a) os \<Rightarrow> 'n \<Rightarrow> 'a \<Rightarrow> u32 \<Rightarrow> 'n" where
  "rip_fill_next_hop os nh nh_addr nh_if_index =
     (let nh = rtnl_route_nh_set_gateway os nh nh_addr;
          nh = rtnl_route_nh_set_ifindex os nh nh_if_index
      in rtnl_route_nh_set_weight os nh 50)"

text \<open>\<open>None\<close> is the return value 1; otherwise the filled object.\<close>

definition rip_fill_route ::
  "('w, 'r, 'n, 'a) os \<Rightarrow> 'r \<Rightarrow> 'a \<Rightarrow> 'n \<Rightarrow> u8 \<Rightarrow> 'r option" where
  "rip_fill_route os route dest nh m =
     (let (route, ec) = rtnl_route_set_family os route AF_INET in
      if ec < 0 then None
      else let (route, ec) = rtnl_route_set_type os route RTN_UNICAST in
      if ec < 0 then None
      else let route = rtnl_route_set_table os route RT_TABLE_MAIN;
               route = rtnl_route_set_protocol os route RTPROT_RIP;
               route = rtnl_route_set_priority os route (20 + unat m);
               route = rtnl_route_add_nexthop os route nh;
               (route, ec) = rtnl_route_set_dst os route dest in
      if ec < 0 then None
      else Some route)"

definition rip_fill_nl_addr ::
  "('w, 'r, 'n, 'a) os \<Rightarrow> in_addr \<Rightarrow> u8 \<Rightarrow> 'a \<Rightarrow> 'a option" where
  "rip_fill_nl_addr os addr prefix_len nl_addr =
     (let nl_addr = nl_addr_set_family os nl_addr AF_INET;
          (nl_addr, ec) = nl_addr_set_binary_addr os nl_addr addr 4 in
      if ec < 0 then None
      else Some (nl_addr_set_prefixlen os nl_addr prefix_len))"

definition rip_rtnl_route_create_alloc ::
  "('w, 'r, 'n, 'a) os \<Rightarrow> 'w \<Rightarrow> 'w \<times> ('r \<times> 'a \<times> 'a \<times> 'n) option" where
  "rip_rtnl_route_create_alloc os w =
     (case rtnl_route_alloc os w of
        (w, None) \<Rightarrow> (w, None)
      | (w, Some route) \<Rightarrow>
     (case rtnl_route_nh_alloc os w of
        (w, None) \<Rightarrow> (w, None)
      | (w, Some nexthop_nl) \<Rightarrow>
     (case nl_addr_alloc os w 4 of
        (w, None) \<Rightarrow> (w, None)
      | (w, Some dest_nl) \<Rightarrow>
     (case nl_addr_alloc os w 4 of
        (w, None) \<Rightarrow> (w, None)
      | (w, Some nexthop_nl_adr) \<Rightarrow> (w, Some (route, dest_nl, nexthop_nl_adr, nexthop_nl))))))"

text \<open>
  The outer option is undefined behaviour (the prefix length of the mask), the inner one a
  null pointer. The metric is passed to a parameter of type \<^verbatim>\<open>uint8_t\<close>.
\<close>

definition rip_rtnl_route_create ::
  "('w, 'r, 'n, 'a) os \<Rightarrow> 'w \<Rightarrow> rip_route_description \<Rightarrow> ('w \<times> 'r option) option" where
  "rip_rtnl_route_create os w rd =
     (case rip_rtnl_route_create_alloc os w of
        (w, None) \<Rightarrow> Some (w, None)
      | (w, Some (route, dest_nl, nexthop_nl_addr, nexthop_nl)) \<Rightarrow> do {
          let e = entry rd;
          prefix_len \<leftarrow> get_prefix_len (subnet_mask e);
          Some (w, do {
            dest_nl \<leftarrow> rip_fill_nl_addr os (ip_address e) (word_of_nat prefix_len) dest_nl;
            nexthop_nl_addr \<leftarrow> rip_fill_nl_addr os (next_hop e) 32 nexthop_nl_addr;
            let nexthop_nl = rip_fill_next_hop os nexthop_nl nexthop_nl_addr (if_index rd);
            rip_fill_route os route dest_nl nexthop_nl (ucast (metric e))
          })
        })"

definition rip_route_add_route ::
  "('w, 'r, 'n, 'a) os \<Rightarrow> 'w \<Rightarrow> rip_route_description \<Rightarrow> ('w \<times> int) option" where
  "rip_route_add_route os w rd = do {
     (w, created) \<leftarrow> rip_rtnl_route_create os w rd;
     case created of
       None \<Rightarrow> Some (w, 1)
     | Some route \<Rightarrow>
         let (w, ec) = rtnl_route_add os w route NLM_F_EXCL
         in Some (w, if ec < 0 then 1 else 0)
   }"

definition rip_route_delete_route ::
  "('w, 'r, 'n, 'a) os \<Rightarrow> 'w \<Rightarrow> rip_route_description \<Rightarrow> ('w \<times> int) option" where
  "rip_route_delete_route os w rd = do {
     (w, created) \<leftarrow> rip_rtnl_route_create os w rd;
     case created of
       None \<Rightarrow> Some (w, 1)
     | Some route \<Rightarrow>
         let (w, ec) = rtnl_route_delete os w route 0
         in Some (w, if ec < 0 then 1 else 0)
   }"

definition rip_route_handle_event :: "('w, 'r, 'n, 'a) os \<Rightarrow> 'w \<Rightarrow> 'w \<times> ret" where
  "rip_route_handle_event os w =
     (let (w, err) = nl_cache_mngr_data_ready os w in
      if err < 0 then (w, Exited) else (w, Returned 0))"

section \<open>The connection to the kernel\<close>

text \<open>
  The dump of the routes of the daemon in libnl's cache: nothing is written when the filter cannot
  be allocated.
\<close>

definition dump_caches :: "('w, 'r, 'n, 'a) os \<Rightarrow> 'w \<Rightarrow> 'w \<times> string" where
  "dump_caches os w =
     (case rtnl_route_alloc os w of
        (w, None) \<Rightarrow> (w, [])
      | (w, Some filt) \<Rightarrow> (w, nl_cache_dump_filter os w (rtnl_route_set_protocol os filt RTPROT_RIP)))"

definition rip_route_sprintf_table :: "('w, 'r, 'n, 'a) os \<Rightarrow> 'w \<Rightarrow> 'w \<times> string \<times> r_cmd_status" where
  "rip_route_sprintf_table os w = (case dump_caches os w of (w, txt) \<Rightarrow> (w, txt, r_cmd_status_success))"

definition sizeof_rip_route_mngr :: nat where "sizeof_rip_route_mngr = 32"

text \<open>
  \<open>False\<close> is the null pointer; what was acquired is then released again. The handles of libnl are
  part of the state of the machine.
\<close>

definition rip_route_init :: "('w, 'r, 'n, 'a) os \<Rightarrow> 'w \<Rightarrow> 'w \<times> bool" where
  "rip_route_init os w =
     (if \<not> os_malloc os w sizeof_rip_route_mngr then (w, False)
      else let (w, ok) = nl_socket_alloc os w in
      if \<not> ok then (w, False)
      else let (w, ec) = nl_connect os w in
      if ec < 0 then (w, False)
      else let (w, ec) = nl_cache_mngr_alloc os w in
      if ec < 0 then (w, False)
      else let (w, ec) = nl_cache_mngr_add os w ''route/link'' in
      if ec < 0 then (w, False)
      else let (w, ec) = nl_cache_mngr_add os w ''route/route'' in
      if ec < 0 then (w, False) else (w, True))"

definition rip_route_getfd :: "('w, 'r, 'n, 'a) os \<Rightarrow> 'w \<Rightarrow> int" where
  "rip_route_getfd os w = nl_cache_mngr_get_fd os w"

section \<open>Behaviour\<close>

lemma route_create_total:
  assumes "subnet_mask (entry rd) \<noteq> 0xFFFFFFFF"
  shows "\<exists>w' c. rip_rtnl_route_create os w rd = Some (w', c)"
proof -
  obtain n where "get_prefix_len (subnet_mask (entry rd)) = Some n"
    using assms get_prefix_len_None [of "subnet_mask (entry rd)"] by auto
  then show ?thesis by (auto simp: rip_rtnl_route_create_def Let_def split: prod.splits option.splits)
qed

lemma add_route_total:
  assumes "subnet_mask (entry rd) \<noteq> 0xFFFFFFFF"
  shows "\<exists>w' s. rip_route_add_route os w rd = Some (w', s) \<and> s \<in> {0, 1}"
  using route_create_total [OF assms, of os w]
  by (auto simp: rip_route_add_route_def split: prod.splits option.splits)

lemma delete_route_total:
  assumes "subnet_mask (entry rd) \<noteq> 0xFFFFFFFF"
  shows "\<exists>w' s. rip_route_delete_route os w rd = Some (w', s) \<and> s \<in> {0, 1}"
  using route_create_total [OF assms, of os w]
  by (auto simp: rip_route_delete_route_def split: prod.splits option.splits)

text \<open>
  The kernel route depends on the key of a route alone, as long as its metric in host order is
  below \<open>2 ^ 24\<close>: the byte of the network order metric that reaches the priority is then 0.
\<close>

lemma route_create_key:
  assumes "ntohl (metric (entry a)) < 2 ^ 24" "ntohl (metric (entry b)) < 2 ^ 24"
    and "ip_address (entry a) = ip_address (entry b)" "subnet_mask (entry a) = subnet_mask (entry b)"
    "next_hop (entry a) = next_hop (entry b)" "if_index a = if_index b"
  shows "rip_rtnl_route_create os w a = rip_rtnl_route_create os w b"
proof -
  have "(ucast (metric (entry a)) :: u8) = 0" "(ucast (metric (entry b)) :: u8) = 0"
    using htonl_low_byte [OF assms(1)] htonl_low_byte [OF assms(2)] by simp_all
  then show ?thesis unfolding rip_rtnl_route_create_def Let_def assms(3-6) by (simp only:)
qed

text \<open>What the kernel promises of its table, seen through an abstraction \<open>table\<close> of the state.\<close>

definition kernel_laws :: "('w, 'r, 'n, 'a) os \<Rightarrow> ('w \<Rightarrow> 'r set) \<Rightarrow> bool" where
  "kernel_laws os table \<longleftrightarrow>
     (\<forall>w r fl w' ec. rtnl_route_add os w r fl = (w', ec) \<longrightarrow>
        table w' = (if ec < 0 then table w else insert r (table w))) \<and>
     (\<forall>w r fl w' ec. rtnl_route_delete os w r fl = (w', ec) \<longrightarrow>
        table w' = (if ec < 0 then table w else table w - {r})) \<and>
     (\<forall>w. table (fst (rtnl_route_alloc os w)) = table w \<and>
        table (fst (rtnl_route_nh_alloc os w)) = table w) \<and>
     (\<forall>w n. table (fst (nl_addr_alloc os w n)) = table w)"

lemma kernel_lawsD:
  assumes "kernel_laws os table"
  shows "rtnl_route_add os w r fl = (w', ec) \<Longrightarrow> table w' = (if ec < 0 then table w else insert r (table w))"
    "rtnl_route_delete os w r fl = (w', ec) \<Longrightarrow> table w' = (if ec < 0 then table w else table w - {r})"
    "rtnl_route_alloc os w = (w', x) \<Longrightarrow> table w' = table w"
    "rtnl_route_nh_alloc os w = (w', y) \<Longrightarrow> table w' = table w"
    "nl_addr_alloc os w n = (w', z) \<Longrightarrow> table w' = table w"
proof -
  show "rtnl_route_alloc os w = (w', x) \<Longrightarrow> table w' = table w"
    "rtnl_route_nh_alloc os w = (w', y) \<Longrightarrow> table w' = table w"
    "nl_addr_alloc os w n = (w', z) \<Longrightarrow> table w' = table w"
    using assms unfolding kernel_laws_def by (metis fst_conv)+
qed (use assms in \<open>simp_all add: kernel_laws_def\<close>)

lemma kernel_alloc:
  assumes k: "kernel_laws os table" and a: "rip_rtnl_route_create_alloc os w = (w', c)"
  shows "table w' = table w"
proof -
  obtain w1 x1 where 1: "rtnl_route_alloc os w = (w1, x1)" by fastforce
  obtain w2 x2 where 2: "rtnl_route_nh_alloc os w1 = (w2, x2)" by fastforce
  obtain w3 x3 where 3: "nl_addr_alloc os w2 4 = (w3, x3)" by fastforce
  obtain w4 x4 where 4: "nl_addr_alloc os w3 4 = (w4, x4)" by fastforce
  have "w' \<in> {w1, w2, w3, w4}"
    using a 1 2 3 4 by (auto simp: rip_rtnl_route_create_alloc_def split: option.splits)
  with kernel_lawsD(3) [OF k 1] kernel_lawsD(4) [OF k 2] kernel_lawsD(5) [OF k 3] kernel_lawsD(5) [OF k 4]
  show ?thesis by auto
qed

lemma kernel_create:
  assumes "kernel_laws os table" "rip_rtnl_route_create os w rd = Some (w', c)"
  shows "table w' = table w"
proof -
  obtain w1 x where a: "rip_rtnl_route_create_alloc os w = (w1, x)" by fastforce
  then have "w' = w1"
    using assms(2) by (auto simp: rip_rtnl_route_create_def bind_eq_Some_conv Let_def split: option.splits)
  with kernel_alloc [OF assms(1) a] show ?thesis by simp
qed

lemma kernel_add:
  assumes k: "kernel_laws os table" and a: "rip_route_add_route os w rd = Some (w', s)"
  shows "\<exists>w1 c. rip_rtnl_route_create os w rd = Some (w1, c) \<and>
    (if s = 0 then \<exists>r. c = Some r \<and> table w' = insert r (table w) else table w' = table w)"
proof -
  from a obtain w1 c where c: "rip_rtnl_route_create os w rd = Some (w1, c)"
    by (auto simp: rip_route_add_route_def bind_eq_Some_conv)
  note t = kernel_create [OF k c]
  show ?thesis
  proof (cases c)
    case None
    with a c t show ?thesis by (auto simp: rip_route_add_route_def)
  next
    case (Some r)
    obtain w2 ec where e: "rtnl_route_add os w1 r NLM_F_EXCL = (w2, ec)" by fastforce
    with a c Some have "w' = w2" "s = (if ec < 0 then 1 else 0)" by (auto simp: rip_route_add_route_def)
    with kernel_lawsD(1) [OF k e] c t Some show ?thesis by auto
  qed
qed

lemma kernel_delete:
  assumes k: "kernel_laws os table" and a: "rip_route_delete_route os w rd = Some (w', s)"
  shows "\<exists>w1 c. rip_rtnl_route_create os w rd = Some (w1, c) \<and>
    (if s = 0 then \<exists>r. c = Some r \<and> table w' = table w - {r} else table w' = table w)"
proof -
  from a obtain w1 c where c: "rip_rtnl_route_create os w rd = Some (w1, c)"
    by (auto simp: rip_route_delete_route_def bind_eq_Some_conv)
  note t = kernel_create [OF k c]
  show ?thesis
  proof (cases c)
    case None
    with a c t show ?thesis by (auto simp: rip_route_delete_route_def)
  next
    case (Some r)
    obtain w2 ec where e: "rtnl_route_delete os w1 r 0 = (w2, ec)" by fastforce
    with a c Some have "w' = w2" "s = (if ec < 0 then 1 else 0)" by (auto simp: rip_route_delete_route_def)
    with kernel_lawsD(2) [OF k e] c t Some show ?thesis by auto
  qed
qed

section \<open>The kernel route of a description\<close>

text \<open>
  libnl hands out blank objects; \<open>kroute\<close> is the route object the code builds from them.
\<close>

definition blank_laws :: "('w, 'r, 'n, 'a) os \<Rightarrow> 'r \<Rightarrow> 'n \<Rightarrow> 'a \<Rightarrow> bool" where
  "blank_laws os r0 n0 a0 \<longleftrightarrow>
     (\<forall>w w' r. rtnl_route_alloc os w = (w', Some r) \<longrightarrow> r = r0) \<and>
     (\<forall>w w' n. rtnl_route_nh_alloc os w = (w', Some n) \<longrightarrow> n = n0) \<and>
     (\<forall>w w' a k. nl_addr_alloc os w k = (w', Some a) \<longrightarrow> a = a0)"

definition kroute :: "('w, 'r, 'n, 'a) os \<Rightarrow> 'r \<Rightarrow> 'n \<Rightarrow> 'a \<Rightarrow> rip_route_description \<Rightarrow> 'r option" where
  "kroute os r0 n0 a0 rd = do {
     prefix_len \<leftarrow> get_prefix_len (subnet_mask (entry rd));
     dest_nl \<leftarrow> rip_fill_nl_addr os (ip_address (entry rd)) (word_of_nat prefix_len) a0;
     nexthop_nl_addr \<leftarrow> rip_fill_nl_addr os (next_hop (entry rd)) 32 a0;
     rip_fill_route os r0 dest_nl (rip_fill_next_hop os n0 nexthop_nl_addr (if_index rd))
       (ucast (metric (entry rd)))
   }"

lemma create_alloc_blank:
  assumes "blank_laws os r0 n0 a0" "rip_rtnl_route_create_alloc os w = (w', Some (r, d, g, n))"
  shows "r = r0 \<and> d = a0 \<and> g = a0 \<and> n = n0"
  using assms unfolding rip_rtnl_route_create_alloc_def blank_laws_def
  by (fastforce split: prod.splits option.splits)

lemma create_kroute:
  assumes "blank_laws os r0 n0 a0" "rip_rtnl_route_create os w rd = Some (w', Some r)"
  shows "kroute os r0 n0 a0 rd = Some r"
proof -
  obtain w1 x where a: "rip_rtnl_route_create_alloc os w = (w1, x)" by fastforce
  with assms(2) obtain r1 d g n where x: "x = Some (r1, d, g, n)"
    by (cases x) (auto simp: rip_rtnl_route_create_def)
  from create_alloc_blank [OF assms(1) a [unfolded x]] assms(2) a x show ?thesis
    by (auto simp: rip_rtnl_route_create_def kroute_def Let_def bind_eq_Some_conv)
qed

lemma kroute_key:
  assumes "ntohl (metric (entry a)) < 2 ^ 24" "ntohl (metric (entry b)) < 2 ^ 24"
    and "ip_address (entry a) = ip_address (entry b)" "subnet_mask (entry a) = subnet_mask (entry b)"
    "next_hop (entry a) = next_hop (entry b)" "if_index a = if_index b"
  shows "kroute os r0 n0 a0 a = kroute os r0 n0 a0 b"
proof -
  have "(ucast (metric (entry a)) :: u8) = 0" "(ucast (metric (entry b)) :: u8) = 0"
    using htonl_low_byte [OF assms(1)] htonl_low_byte [OF assms(2)] by simp_all
  then show ?thesis unfolding kroute_def assms(3-6) by (simp only:)
qed

lemma sample_laws:
  "kernel_laws sample_os id" "blank_laws sample_os ([], [], (0, 0, 0)) ((0, 0, 0), 0, 0) (0, 0, 0)"
  by (simp_all add: kernel_laws_def blank_laws_def sample_os_def)

section \<open>Properties\<close>

text \<open>
  C36: the metric of a RIP route never reaches the kernel. \<^verbatim>\<open>rip_rtnl_route_create\<close> passes the
  network order metric to a \<^verbatim>\<open>uint8_t\<close> parameter, which on a little-endian host keeps the byte
  that is 0 for every metric below \<open>2 ^ 24\<close>: the route built is the same for any two metrics,
  although the code means to set the priority to 20 plus the metric.
\<close>

theorem route_priority_ignores_metric:
  assumes "m1 < 2 ^ 24" "m2 < 2 ^ 24"
  shows "rip_rtnl_route_create os w (rd\<lparr>entry := (entry rd)\<lparr>metric := htonl m1\<rparr>\<rparr>) =
    rip_rtnl_route_create os w (rd\<lparr>entry := (entry rd)\<lparr>metric := htonl m2\<rparr>\<rparr>)"
  by (rule route_create_key) (use assms in simp_all)

theorem route_priority_ignores_metric_witness:
  "rip_rtnl_route_create sample_os {} (zero_route\<lparr>entry := sample_entry\<lparr>metric := htonl 1\<rparr>\<rparr>) =
   rip_rtnl_route_create sample_os {} (zero_route\<lparr>entry := sample_entry\<lparr>metric := htonl 15\<rparr>\<rparr>)"
  using route_priority_ignores_metric [of 1 15 sample_os "{}" "zero_route\<lparr>entry := sample_entry\<rparr>"] by simp

text \<open>
  A route that \<^verbatim>\<open>rip_route_add_route\<close> installed is in the kernel's table, and
  \<^verbatim>\<open>rip_route_delete_route\<close> takes it out again, also when the metric of the description was
  changed in between (as when a route expires). This uses that the kernel's table changes as the
  two netlink calls report and that libnl allocates blank objects.
\<close>

lemma install_then_remove:
  assumes "kernel_laws os table" "blank_laws os r0 n0 a0"
    and "rip_route_add_route os w rd = Some (w1, 0)"
    and "rip_route_delete_route os w2 (rd\<lparr>entry := (entry rd)\<lparr>metric := htonl m\<rparr>\<rparr>) = Some (w3, 0)"
    and "ntohl (metric (entry rd)) < 2 ^ 24" "m < 2 ^ 24"
  shows "\<exists>r. kroute os r0 n0 a0 rd = Some r \<and> r \<in> table w1 \<and> table w1 = insert r (table w) \<and>
    table w3 = table w2 - {r}"
proof -
  let ?rd = "rd\<lparr>entry := (entry rd)\<lparr>metric := htonl m\<rparr>\<rparr>"
  from kernel_add [OF assms(1,3)] obtain x r where
    r: "rip_rtnl_route_create os w rd = Some (x, Some r)" "table w1 = insert r (table w)" by auto
  from kernel_delete [OF assms(1,4)] obtain y r' where
    r': "rip_rtnl_route_create os w2 ?rd = Some (y, Some r')" "table w3 = table w2 - {r'}" by auto
  have "kroute os r0 n0 a0 ?rd = kroute os r0 n0 a0 rd"
    by (rule kroute_key) (use assms(5,6) in simp_all)
  with create_kroute [OF assms(2) r(1)] create_kroute [OF assms(2) r'(1)] have "r' = r" by simp
  with create_kroute [OF assms(2) r(1)] r r' show ?thesis by auto
qed

end
