(* ===== verification/Rip_Recv.thy ===== *)
theory Rip_Recv
  imports Rip_Update Rip_Route
begin

text \<open>
  Model of \<^verbatim>\<open>rip_recv.c\<close>: validation of a received entry, its processing against the
  database and the kernel's table, and the handler of a datagram. The kernel is reached
  through \<open>Rip_Route\<close>; \<^verbatim>\<open>recvfrom\<close> is a parameter that yields the number of bytes, the sender
  and the contents of the message buffer. Reading past the 500 entries of the buffer is
  undefined (\<open>None\<close>). The byte order changes the code makes to an entry in the message buffer
  are not part of the result, since nothing reads the entry again.

  \<open>routes_ok\<close> is the invariant every handler keeps.
\<close>

section \<open>Entries\<close>

definition INFINITY_METRIC :: u32 where "INFINITY_METRIC = 16"

definition is_metric_valid :: "u32 \<Rightarrow> bool" where
  "is_metric_valid m \<longleftrightarrow> m \<ge> 1 \<and> m \<le> INFINITY_METRIC"

definition update_metric :: "u32 \<Rightarrow> u32" where
  "update_metric m = (if m + 1 < INFINITY_METRIC then m + 1 else INFINITY_METRIC)"

definition is_entry_valid :: "rip2_entry \<Rightarrow> bool option" where
  "is_entry_valid e = do {
     bad \<leftarrow> (if \<not> is_unicast_address (ip_address e) then Some True
             else do {
               mask_ok \<leftarrow> is_net_mask_valid (subnet_mask e);
               Some (\<not> mask_ok \<or> \<not> is_metric_valid (metric e))
             });
     if bad then do { rip2_entry_print e; Some False } else Some True
   }"

definition build_route_description :: "rip2_entry \<Rightarrow> in_addr \<Rightarrow> int \<Rightarrow> rip_route_description \<Rightarrow> rip_route_description" where
  "build_route_description e sender_addr ifi out =
     out\<lparr>entry := e\<lparr>next_hop := sender_addr\<rparr>, if_index := word_of_int ifi, is_local := False,
         in_routing_table := True\<rparr>"

section \<open>Processing an entry\<close>

definition handle_non_existing_route ::
  "('w, 'r, 'n, 'a) os \<Rightarrow> 'w \<Rightarrow> rip_db \<Rightarrow> rip_route_description \<Rightarrow> ('w \<times> rip_db \<times> int) option" where
  "handle_non_existing_route os w db new_route = do {
     let new_route = new_route\<lparr>changed := True\<rparr>;
     (w, ec) \<leftarrow> rip_route_add_route os w new_route;
     if ec \<noteq> 0 then Some (w, db, 1)
     else do {
       (db, new_route, ec) \<leftarrow> rip_db_add (os_malloc os w) db new_route;
       if ec \<noteq> 0 then Some (w, db, 1) else Some (w, db, 0)
     }
   }"

definition handle_ok_route_update ::
  "('w, 'r, 'n, 'a) os \<Rightarrow> 'w \<Rightarrow> rip_db \<Rightarrow> rip_db_ref \<Rightarrow> rip_route_description \<Rightarrow> ('w \<times> rip_db \<times> int) option" where
  "handle_ok_route_update os w db old_ref new_route =
     (let old_route = rip_db_read db old_ref in
      if metric (entry old_route) > metric (entry new_route) then do {
        (w, ec) \<leftarrow> rip_route_delete_route os w old_route;
        if ec \<noteq> 0 then Some (w, db, 1)
        else do {
          (db, ec) \<leftarrow> rip_db_remove (os_malloc os w) db old_route;
          handle_non_existing_route os w db new_route
        }
      }
      else Some (w, db, 0))"

definition handle_ripv2_entry ::
  "('w, 'r, 'n, 'a) os \<Rightarrow> 'w \<Rightarrow> rip_db \<Rightarrow> rip2_entry \<Rightarrow> in_addr \<Rightarrow> int \<Rightarrow> ('w \<times> rip_db \<times> int) option" where
  "handle_ripv2_entry os w db e sender_addr ifi = do {
     let e = rip2_entry_ntoh e;
     valid \<leftarrow> is_entry_valid e;
     if \<not> valid then Some (w, db, 0)
     else do {
       let e = e\<lparr>metric := update_metric (metric e)\<rparr>;
       let e = rip2_entry_hton e;
       let incoming_route = build_route_description e sender_addr ifi zero_route;
       ok_route \<leftarrow> rip_db_get db rip_db_ok incoming_route;
       case ok_route of
         Some r \<Rightarrow> handle_ok_route_update os w db r incoming_route
       | None \<Rightarrow> do {
           garbage_route \<leftarrow> rip_db_get db rip_db_garbage incoming_route;
           (db, ec) \<leftarrow> (case garbage_route of
               Some r \<Rightarrow> rip_db_remove (os_malloc os w) db (rip_db_read db r)
             | None \<Rightarrow> Some (db, 0));
           handle_non_existing_route os w db incoming_route
         }
     }
   }"

fun handle_entries ::
  "('w, 'r, 'n, 'a) os \<Rightarrow> 'w \<Rightarrow> rip_db \<Rightarrow> rip2_entry list \<Rightarrow> in_addr \<Rightarrow> int \<Rightarrow> int \<Rightarrow> ('w \<times> rip_db \<times> int) option" where
  "handle_entries os w db [] sender_addr ifi ret = Some (w, db, ret)"
| "handle_entries os w db (e # es) sender_addr ifi ret = do {
     (w, db, ec) \<leftarrow> handle_ripv2_entry os w db e sender_addr ifi;
     handle_entries os w db es sender_addr ifi (if ec \<noteq> 0 then 1 else ret)
   }"

definition rip_handle_response ::
  "('w, 'r, 'n, 'a) os \<Rightarrow> 'w \<Rightarrow> rip_db \<Rightarrow> rip2_entry list \<Rightarrow> nat \<Rightarrow> in_addr \<Rightarrow> int \<Rightarrow> ('w \<times> rip_db \<times> int) option" where
  "rip_handle_response os w db es n_entry sender_addr origin_if_index =
     (if n_entry > length es then None
      else handle_entries os w db (take n_entry es) sender_addr origin_if_index 0)"

section \<open>The handler of a datagram\<close>

definition sizeof_msg_buffer :: nat where
  "sizeof_msg_buffer = sizeof_rip_header + msg_buffer_entries * sizeof_rip2_entry"

text \<open>The status, and on success the sender, the buffer and the number of bytes.\<close>

definition rip_recvfrom ::
  "('w, 'r, 'n, 'a) os \<Rightarrow> 'w \<Rightarrow> int \<Rightarrow> 'w \<times> (in_addr \<times> msg_buffer \<times> u64) option" where
  "rip_recvfrom os w fd =
     (let (w, nbytes, sender, buff) = os_recvfrom os w fd sizeof_msg_buffer in
      if nbytes < 0 then (w, None) else (w, Some (sender, buff, word_of_int nbytes)))"

definition calculate_entries_count :: "u64 \<Rightarrow> u64" where
  "calculate_entries_count payload_size_bytes =
     (payload_size_bytes - word_of_nat sizeof_rip_header) div word_of_nat sizeof_rip2_entry"

fun rip_find_rx_socket_by_fd :: "rip_ifc list \<Rightarrow> int \<Rightarrow> rip_socket option" where
  "rip_find_rx_socket_by_fd [] fd = None"
| "rip_find_rx_socket_by_fd (ifc # ifcs) fd =
     (if sock_fd (socket_rx ifc) = fd then Some (socket_rx ifc) else rip_find_rx_socket_by_fd ifcs fd)"

definition rip_handle_message_event ::
  "('w, 'r, 'n, 'a) os \<Rightarrow> 'w \<Rightarrow> rip_db \<Rightarrow> rip_ifc da_vec \<Rightarrow> int \<Rightarrow> ('w \<times> rip_db \<times> ret) option" where
  "rip_handle_message_event os w db ifcs fd =
     (case rip_find_rx_socket_by_fd (da_items ifcs) fd of
        None \<Rightarrow> Some (w, db, Exited)
      | Some socket \<Rightarrow>
     (case rip_recvfrom os w (sock_fd socket) of
        (w, None) \<Rightarrow> Some (w, db, Returned 1)
      | (w, Some (sender, buffer, n_bytes)) \<Rightarrow>
          let n_entries = unat (calculate_entries_count n_bytes) in
          if command (header buffer) = RIP_CMD_RESPONSE then do {
            (w, db, ec) \<leftarrow> rip_handle_response os w db (entries buffer) n_entries sender (sock_if_index socket);
            Some (w, db, Returned ec)
          }
          else if command (header buffer) = RIP_CMD_REQUEST then do {
            (w, rc) \<leftarrow> rip_send_advertisement_unicast os w db (entries buffer) n_entries sender
                         (sock_if_index socket);
            Some (w, db, rc)
          }
          else Some (w, db, Returned 1)))"

section \<open>Invariant\<close>

definition host_metric :: "rip_route_description \<Rightarrow> u32" where
  "host_metric r = ntohl (metric (entry r))"

definition wf_route :: "rip_route_description \<Rightarrow> bool" where
  "wf_route r \<longleftrightarrow> is_net_mask_valid (route_mask r) = Some True \<and> 1 \<le> host_metric r \<and> host_metric r \<le> 16"

lemma valid_mask_not_ones: "is_net_mask_valid m = Some True \<Longrightarrow> m \<noteq> 0xFFFFFFFF"
  using valid_mask_printable get_prefix_len_None by blast

lemma wf_mask: "wf_route r \<Longrightarrow> route_mask r \<noteq> 0xFFFFFFFF"
  unfolding wf_route_def using valid_mask_not_ones by blast

definition routes_ok :: "rip_db \<Rightarrow> bool" where
  "routes_ok db \<longleftrightarrow> db_inv db \<and> flag_covers db \<and> (\<forall>r\<in>db_routes db. wf_route r)"

lemma routes_okD:
  assumes "routes_ok db"
  shows "db_inv db" "flag_covers db" "r \<in> db_routes db \<Longrightarrow> wf_route r" "printable db"
  using assms wf_mask by (auto simp: routes_ok_def printable_def)

text \<open>How the maps of a database may change for the invariant to carry over.\<close>

lemma routes_okI:
  assumes ok: "routes_ok db" and inv: "db_inv db'"
    and rts: "\<And>r. r \<in> db_routes db' \<Longrightarrow> r \<in> db_routes db \<or> wf_route r \<and> any_route_changed db'"
    and fl: "any_route_changed db \<Longrightarrow> any_route_changed db'"
  shows "routes_ok db'"
  using ok inv rts fl unfolding routes_ok_def flag_covers_def by blast

lemma db_routes_upd:
  "ran (m(k \<mapsto> r)) \<subseteq> insert r (ran m)" "ran (m(k := None)) \<subseteq> ran m"
  by (auto simp: ran_def)

lemma db_routes_removed:
  assumes "ok_map db' = (ok_map db)(k := None)" "garbage_map db' = (garbage_map db)(k := None)"
  shows "db_routes db' \<subseteq> db_routes db"
  unfolding db_routes_def assms using db_routes_upd(2) [of "ok_map db" k] db_routes_upd(2) [of "garbage_map db" k]
  by blast

lemma ok_route_in: "ok_map db k = Some r \<Longrightarrow> r \<in> db_routes db"
  unfolding db_routes_def using ranI [of "ok_map db" k r] by simp

text \<open>Metrics of well-formed routes fit in a byte, so their network order comparison is right.\<close>

lemma metric_less_iff:
  assumes "wf_route a" "wf_route b"
  shows "metric (entry a) < metric (entry b) \<longleftrightarrow> host_metric a < host_metric b"
proof -
  have "host_metric a < 256" "host_metric b < 256"
    using assms by (auto simp: wf_route_def intro: order_le_less_trans)
  from htonl_less_byte [OF this] show ?thesis by (simp add: host_metric_def)
qed

lemma wf_changed [simp]: "wf_route (r\<lparr>changed := b\<rparr>) = wf_route r"
  by (simp add: wf_route_def host_metric_def)

section \<open>Validation\<close>

lemma update_metric_min:
  assumes "is_metric_valid m"
  shows "unat (update_metric m) = min (unat m + 1) 16" "1 \<le> update_metric m" "update_metric m \<le> 16"
proof -
  have m: "1 \<le> unat m" "unat m \<le> 16"
    using assms by (auto simp: is_metric_valid_def INFINITY_METRIC_def word_le_nat_alt)
  then have u: "unat (m + 1) = unat m + 1" by (simp add: unat_word_ariths)
  show eq: "unat (update_metric m) = min (unat m + 1) 16"
    using u m by (simp add: update_metric_def INFINITY_METRIC_def word_less_nat_alt min_def)
  show "1 \<le> update_metric m" "update_metric m \<le> 16"
    using eq m by (simp_all add: word_le_nat_alt)
qed

lemma entry_valid_iff:
  "is_entry_valid e = Some True \<longleftrightarrow>
   is_unicast_address (ip_address e) \<and> is_net_mask_valid (subnet_mask e) = Some True \<and> is_metric_valid (metric e)"
  using is_net_mask_valid_total [of "subnet_mask e"]
  by (auto simp: is_entry_valid_def bind_eq_Some_conv split: if_splits)

lemma entry_valid_total:
  assumes "subnet_mask e \<noteq> 0xFFFFFFFF"
  shows "\<exists>b. is_entry_valid e = Some b"
proof -
  obtain t where "rip2_entry_print e = Some t" using assms entry_print_None [of e] by auto
  then show ?thesis
    using is_net_mask_valid_total [of "subnet_mask e"] by (auto simp: is_entry_valid_def)
qed

text \<open>The route a valid entry stands for.\<close>

definition incoming :: "rip2_entry \<Rightarrow> in_addr \<Rightarrow> int \<Rightarrow> rip_route_description" where
  "incoming e sender_addr ifi = (let h = rip2_entry_ntoh e in
     build_route_description (rip2_entry_hton (h\<lparr>metric := update_metric (metric h)\<rparr>)) sender_addr ifi zero_route)"

lemma incoming_sel:
  "if_index (incoming e s i) = word_of_int i" "next_hop (entry (incoming e s i)) = s"
  "ip_address (entry (incoming e s i)) = ip_address e" "subnet_mask (entry (incoming e s i)) = subnet_mask e"
  "host_metric (incoming e s i) = update_metric (ntohl (metric e))" "\<not> is_local (incoming e s i)"
  "in_routing_table (incoming e s i)" "timeout_cnt (incoming e s i) = 0"
  by (simp_all add: incoming_def build_route_description_def host_metric_def Let_def rip2_entry_hton_def
      rip2_entry_ntoh_def zero_route_def)

lemma incoming_wf:
  assumes "is_entry_valid (rip2_entry_ntoh e) = Some True"
  shows "wf_route (incoming e s i)"
proof -
  from assms have "is_net_mask_valid (subnet_mask e) = Some True" "is_metric_valid (ntohl (metric e))"
    by (simp_all add: entry_valid_iff)
  with update_metric_min [of "ntohl (metric e)"] valid_mask_not_ones show ?thesis
    by (simp add: wf_route_def incoming_sel)
qed

section \<open>Processing\<close>

lemma non_existing_ok:
  assumes ok: "routes_ok db" and sp: "db_space 1 db" and wf: "wf_route nr"
    and f: "ok_map db (route_key nr) = None" "garbage_map db (route_key nr) = None"
  shows "\<exists>w' db' s ec. handle_non_existing_route os w db nr = Some (w', db', s) \<and>
    rip_route_add_route os w (nr\<lparr>changed := True\<rparr>) = Some (w', ec) \<and> routes_ok db' \<and>
    garbage_map db' = garbage_map db \<and>
    (s = 0 \<and> ec = 0 \<and> ok_map db' = (ok_map db)(route_key nr \<mapsto> nr\<lparr>changed := True\<rparr>) \<and> any_route_changed db' \<or>
     s = 1 \<and> ok_map db' = ok_map db \<and> (ec \<noteq> 0 \<or> \<not> (\<forall>n. os_malloc os w' n)))"
proof -
  let ?nr = "nr\<lparr>changed := True\<rparr>"
  have m: "route_mask ?nr \<noteq> 0xFFFFFFFF" using wf_mask [OF wf] by simp
  obtain w' ec where a: "rip_route_add_route os w ?nr = Some (w', ec)"
    using add_route_total [OF m, of os w] by auto
  note inv = routes_okD(1) [OF ok]
  show ?thesis
  proof (cases "ec = 0")
    case False
    with a ok show ?thesis by (simp add: handle_non_existing_route_def)
  next
    case True
    have f': "ok_map db (route_key ?nr) = None" "garbage_map db (route_key ?nr) = None" using f by simp_all
    have nn: "?nr\<lparr>changed := True\<rparr> = ?nr" by simp
    from rip_db_add_fresh [OF inv sp m f', of "os_malloc os w'"] obtain db' s where
      d: "rip_db_add (os_malloc os w') db ?nr = Some (db', ?nr, s)" "db_inv db'"
        "garbage_routes db' = garbage_routes db"
        "s = 0 \<and> ok_map db' = (ok_map db)(route_key nr \<mapsto> ?nr) \<and> any_route_changed db' \<or>
         s = 1 \<and> ok_map db' = ok_map db \<and> any_route_changed db' = any_route_changed db \<and> \<not> (\<forall>n. os_malloc os w' n)"
      unfolding nn route_key_simps by blast
    have "routes_ok db'"
    proof (rule routes_okI [OF ok d(2)])
      fix r assume "r \<in> db_routes db'"
      then show "r \<in> db_routes db \<or> wf_route r \<and> any_route_changed db'"
        using d(3,4) wf db_routes_upd(1) [of "ok_map db" "route_key nr" ?nr] by (auto simp: db_routes_def)
    qed (use d(4) in auto)
    with a True d show ?thesis by (auto simp: handle_non_existing_route_def)
  qed
qed

lemma remove_ok:
  assumes ok: "routes_ok db" and sp: "db_space (n + 1) db"
  shows "\<exists>db' s. rip_db_remove ma db e = Some (db', s) \<and> routes_ok db' \<and> db_space (n + 1) db' \<and>
    any_route_changed db' = any_route_changed db \<and>
    ok_map db' = (ok_map db)(route_key e := None) \<and> garbage_map db' = (garbage_map db)(route_key e := None) \<and>
    (s = 0 \<longleftrightarrow> route_key e \<in> dom (ok_map db) \<union> dom (garbage_map db))"
proof -
  note inv = routes_okD(1) [OF ok]
  from rip_db_remove_refines [OF inv db_space_le [OF sp], of ma e] obtain db' where
    d: "rip_db_remove ma db e = Some (db',
      if ok_map db (route_key e) = None \<and> garbage_map db (route_key e) = None then 1 else 0)"
    "db_inv db'" "any_route_changed db' = any_route_changed db"
    "ok_map db' = (ok_map db)(route_key e := None)" "garbage_map db' = (garbage_map db)(route_key e := None)"
    by auto
  have "routes_ok db'"
    by (rule routes_okI [OF ok d(2)]) (use d(3) db_routes_removed [OF d(4,5)] in auto)
  moreover have "db_space (n + 1) db'"
    by (rule db_space_update [OF inv d(2), of "n + 1" 0])
      (use sp d(4,5) card_dom_clear [of "ok_map db" "route_key e"]
         card_dom_clear [of "garbage_map db" "route_key e"] in simp_all)
  ultimately show ?thesis using d by (auto simp: domIff)
qed

text \<open>The relaxation step of a distance vector protocol on the map of routes.\<close>

definition relax :: "(route_id \<rightharpoonup> rip_route_description) \<Rightarrow> rip_route_description \<Rightarrow> bool" where
  "relax m r \<longleftrightarrow> (case m (route_key r) of None \<Rightarrow> True | Some old \<Rightarrow> host_metric r < host_metric old)"

lemma handle_entry_valid:
  assumes "is_entry_valid (rip2_entry_ntoh e) = Some True"
  shows "handle_ripv2_entry os w db e s i = do {
      ok_route \<leftarrow> rip_db_get db rip_db_ok (incoming e s i);
      case ok_route of
        Some r \<Rightarrow> handle_ok_route_update os w db r (incoming e s i)
      | None \<Rightarrow> do {
          garbage_route \<leftarrow> rip_db_get db rip_db_garbage (incoming e s i);
          (db, ec) \<leftarrow> (case garbage_route of
              Some r \<Rightarrow> rip_db_remove (os_malloc os w) db (rip_db_read db r)
            | None \<Rightarrow> Some (db, 0));
          handle_non_existing_route os w db (incoming e s i)
        }
    }"
  unfolding handle_ripv2_entry_def incoming_def Let_def assms
  by (simp only: bind.bind_lunit simp_thms if_False)

text \<open>What adding a route does once its key is in neither map; used after a removal.\<close>

definition installed ::
  "('w, 'r, 'n, 'a) os \<Rightarrow> 'w \<Rightarrow> rip_db \<Rightarrow> rip_route_description \<Rightarrow> 'w \<Rightarrow> rip_db \<Rightarrow> int \<Rightarrow> bool" where
  "installed os w db nr w' db' s \<longleftrightarrow> garbage_map db' = (garbage_map db)(route_key nr := None) \<and>
     (\<exists>ec. rip_route_add_route os w (nr\<lparr>changed := True\<rparr>) = Some (w', ec) \<and>
       (s = 0 \<and> ec = 0 \<and> ok_map db' = (ok_map db)(route_key nr \<mapsto> nr\<lparr>changed := True\<rparr>) \<and> any_route_changed db' \<or>
        s = 1 \<and> ok_map db' = (ok_map db)(route_key nr := None) \<and> (ec \<noteq> 0 \<or> \<not> (\<forall>n. os_malloc os w' n))))"

lemma add_after_removal:
  assumes ok: "routes_ok db1" and sp: "db_space (n + 1) db1" and wf: "wf_route nr"
    and m: "ok_map db1 = (ok_map db)(route_key nr := None)"
      "garbage_map db1 = (garbage_map db)(route_key nr := None)"
  shows "\<exists>w' db' s. handle_non_existing_route os w db1 nr = Some (w', db', s) \<and> routes_ok db' \<and>
    db_space n db' \<and> installed os w db nr w' db' s"
proof -
  have f: "ok_map db1 (route_key nr) = None" "garbage_map db1 (route_key nr) = None" using m by simp_all
  have sp1: "db_space 1 db1" using sp by (rule db_space_le) simp
  from non_existing_ok [OF ok sp1 wf f, of os w] obtain w' db' s ec where
    h: "handle_non_existing_route os w db1 nr = Some (w', db', s)" "routes_ok db'"
    "rip_route_add_route os w (nr\<lparr>changed := True\<rparr>) = Some (w', ec)" "garbage_map db' = garbage_map db1"
    and alt: "s = 0 \<and> ec = 0 \<and> ok_map db' = (ok_map db1)(route_key nr \<mapsto> nr\<lparr>changed := True\<rparr>) \<and> any_route_changed db' \<or>
     s = 1 \<and> ok_map db' = ok_map db1 \<and> (ec \<noteq> 0 \<or> \<not> (\<forall>n. os_malloc os w' n))" by blast
  have "db_space n db'"
    by (rule db_space_update [OF routes_okD(1) [OF ok] routes_okD(1) [OF h(2)] sp])
      (use h(4) alt card_dom_upd [of "ok_map db1" "route_key nr" "nr\<lparr>changed := True\<rparr>"] in auto)
  moreover have "installed os w db nr w' db' s"
    unfolding installed_def h(4) m using h(3) alt unfolding m by auto
  ultimately show ?thesis using h by blast
qed

text \<open>An entry for a route in use.\<close>

lemma handle_entry_known:
  assumes ok: "routes_ok db" and sp: "db_space (n + 1) db"
    and v: "is_entry_valid (rip2_entry_ntoh e) = Some True"
    and old: "ok_map db (route_key (incoming e s i)) = Some old"
  shows "\<exists>w' db' st. handle_ripv2_entry os w db e s i = Some (w', db', st) \<and> routes_ok db' \<and> db_space n db' \<and>
    (if host_metric (incoming e s i) < host_metric old
     then (\<exists>ec. rip_route_delete_route os w old = Some (w', ec) \<and> ec \<noteq> 0 \<and> db' = db \<and> st = 1) \<or>
          (\<exists>w1. rip_route_delete_route os w old = Some (w1, 0) \<and> installed os w1 db (incoming e s i) w' db' st)
     else w' = w \<and> db' = db \<and> st = 0)"
proof -
  let ?in = "incoming e s i"
  note inv = routes_okD(1) [OF ok]
  have wf: "wf_route old" "wf_route ?in" using routes_okD(3) [OF ok ok_route_in [OF old]] incoming_wf [OF v] .
  from rip_db_get_refines [OF inv, of rip_db_ok ?in] old obtain r where
    r: "rip_db_get db rip_db_ok ?in = Some (Some r)" "rip_db_read db r = old" by auto
  have h: "handle_ripv2_entry os w db e s i = handle_ok_route_update os w db r ?in"
    unfolding handle_entry_valid [OF v] r(1) by simp
  have lt: "metric (entry ?in) < metric (entry old) \<longleftrightarrow> host_metric ?in < host_metric old"
    by (rule metric_less_iff [OF wf(2,1)])
  show ?thesis
  proof (cases "host_metric ?in < host_metric old")
    case False
    with h lt r ok sp show ?thesis by (simp add: handle_ok_route_update_def db_space_le [OF sp])
  next
    case True
    obtain w1 ec where d: "rip_route_delete_route os w old = Some (w1, ec)"
      using delete_route_total [OF wf_mask [OF wf(1)], of os w] by auto
    show ?thesis
    proof (cases "ec = 0")
      case False
      with h lt r ok d True db_space_le [OF sp] show ?thesis by (simp add: handle_ok_route_update_def)
    next
      case e0: True
      have k: "route_key old = route_key ?in" by (rule ok_key [OF inv old])
      from remove_ok [OF ok sp, of "os_malloc os w1" old] obtain db1 st1 where
        rm: "rip_db_remove (os_malloc os w1) db old = Some (db1, st1)" "routes_ok db1" "db_space (n + 1) db1"
        "ok_map db1 = (ok_map db)(route_key ?in := None)" "garbage_map db1 = (garbage_map db)(route_key ?in := None)"
        unfolding k by blast
      from add_after_removal [OF rm(2,3) wf(2) rm(4,5), of os w1] obtain w' db' st where
        "handle_non_existing_route os w1 db1 ?in = Some (w', db', st)" "routes_ok db'" "db_space n db'"
        "installed os w1 db ?in w' db' st" by blast
      with h lt r d e0 True rm(1) show ?thesis by (simp add: handle_ok_route_update_def)
    qed
  qed
qed

text \<open>An entry for a route not in use: a route in garbage is revived.\<close>

lemma handle_entry_new:
  assumes ok: "routes_ok db" and sp: "db_space (n + 1) db"
    and v: "is_entry_valid (rip2_entry_ntoh e) = Some True"
    and new: "ok_map db (route_key (incoming e s i)) = None"
  shows "\<exists>w' db' st. handle_ripv2_entry os w db e s i = Some (w', db', st) \<and> routes_ok db' \<and> db_space n db' \<and>
    installed os w db (incoming e s i) w' db' st"
proof -
  let ?in = "incoming e s i"
  note inv = routes_okD(1) [OF ok]
  from rip_db_get_refines [OF inv, of rip_db_ok ?in] new have
    g: "rip_db_get db rip_db_ok ?in = Some None" by auto
  from rip_db_get_refines [OF inv, of rip_db_garbage ?in] obtain gr where
    gr: "rip_db_get db rip_db_garbage ?in = Some gr" "map_option (rip_db_read db) gr = garbage_map db (route_key ?in)"
    by auto
  obtain db1 st1 where rm: "(case gr of Some r \<Rightarrow> rip_db_remove (os_malloc os w) db (rip_db_read db r)
      | None \<Rightarrow> Some (db, 0)) = Some (db1, st1)" "routes_ok db1" "db_space (n + 1) db1"
    "ok_map db1 = (ok_map db)(route_key ?in := None)" "garbage_map db1 = (garbage_map db)(route_key ?in := None)"
  proof (cases gr)
    case None
    with gr new ok sp that [of db 0] show ?thesis by (simp add: fun_upd_idem)
  next
    case (Some r)
    then have "garbage_map db (route_key ?in) = Some (rip_db_read db r)" using gr by simp
    then have k: "route_key (rip_db_read db r) = route_key ?in" by (rule garbage_key [OF inv])
    from remove_ok [OF ok sp, of "os_malloc os w" "rip_db_read db r"] Some that show ?thesis unfolding k by auto
  qed
  from add_after_removal [OF rm(2,3) incoming_wf [OF v] rm(4,5), of os w] obtain w' db' st where
    a: "handle_non_existing_route os w db1 ?in = Some (w', db', st)" "routes_ok db'" "db_space n db'"
    "installed os w db ?in w' db' st" by blast
  have "handle_ripv2_entry os w db e s i = Some (w', db', st)"
    unfolding handle_entry_valid [OF v] g gr(1) using rm(1) a(1) by simp
  with a show ?thesis by blast
qed

lemma handle_entry_invalid:
  assumes "is_entry_valid (rip2_entry_ntoh e) = Some False"
  shows "handle_ripv2_entry os w db e s i = Some (w, db, 0)"
  using assms by (simp add: handle_ripv2_entry_def)

lemma handle_entry_total:
  assumes ok: "routes_ok db" and sp: "db_space (n + 1) db" and m: "subnet_mask e \<noteq> 0xFFFFFFFF"
  shows "\<exists>w' db' st. handle_ripv2_entry os w db e s i = Some (w', db', st) \<and> routes_ok db' \<and> db_space n db'"
proof -
  obtain b where b: "is_entry_valid (rip2_entry_ntoh e) = Some b" using entry_valid_total m by fastforce
  show ?thesis
  proof (cases b)
    case False
    with b have "handle_ripv2_entry os w db e s i = Some (w, db, 0)" by (intro handle_entry_invalid) simp
    with ok db_space_le [OF sp, of n] show ?thesis by simp
  next
    case True
    with b have v: "is_entry_valid (rip2_entry_ntoh e) = Some True" by simp
    show ?thesis
    proof (cases "ok_map db (route_key (incoming e s i))")
      case None
      from handle_entry_new [OF ok sp v None, of os w] show ?thesis by blast
    next
      case (Some old)
      from handle_entry_known [OF ok sp v Some, of os w] show ?thesis by blast
    qed
  qed
qed

lemma handle_entries_total:
  assumes "routes_ok db" "db_space (n + length es) db" "\<And>e. e \<in> set es \<Longrightarrow> subnet_mask e \<noteq> 0xFFFFFFFF"
  shows "\<exists>w' db' st. handle_entries os w db es s i ret = Some (w', db', st) \<and> routes_ok db' \<and> db_space n db'"
  using assms
proof (induction es arbitrary: w db ret)
  case (Cons e es)
  from handle_entry_total [OF Cons.prems(1), of "n + length es" e os w s i] Cons.prems(2,3)
  obtain w1 db1 st1 where "handle_ripv2_entry os w db e s i = Some (w1, db1, st1)" "routes_ok db1"
    "db_space (n + length es) db1" by auto
  with Cons.IH [of db1] Cons.prems(3) show ?case by simp
qed simp

section \<open>Properties\<close>

lemma sample_db_routes_ok: "routes_ok sample_db"
  by (simp add: routes_ok_def sample_db_ok flag_covers_def db_routes_def)

lemma sample_entry_valid: "is_entry_valid (rip2_entry_ntoh sample_entry) = Some True"
proof -
  have "host_mask 16 = 0xFFFF0000" by (simp add: host_mask_def push_bit_eq_mult)
  then have "\<exists>p\<ge>1. p \<le> 31 \<and> (0xFFFF0000 :: u32) = host_mask p" by (intro exI [of _ 16]) simp
  then have "is_net_mask_valid (subnet_mask sample_entry) = Some True"
    by (simp add: is_net_mask_valid_total sample_entry_def)
  moreover have "is_unicast_address (ip_address sample_entry)"
    by (simp add: is_unicast_address_def sample_entry_def Let_def)
  moreover have "is_metric_valid (ntohl (metric sample_entry))"
    by (simp add: is_metric_valid_def INFINITY_METRIC_def sample_entry_def)
  ultimately show ?thesis by (simp add: entry_valid_iff)
qed


text \<open>
  An invalid entry is ignored: neither the kernel's table nor the database changes and the
  status is 0, provided its mask is not 255.255.255.255 (on which the log output is undefined).
\<close>

lemma invalid_entry_ignored:
  assumes "is_entry_valid (rip2_entry_ntoh e) \<noteq> Some True" "subnet_mask e \<noteq> 0xFFFFFFFF"
  shows "handle_ripv2_entry os w db e s i = Some (w, db, 0)"
proof -
  obtain b where "is_entry_valid (rip2_entry_ntoh e) = Some b" using entry_valid_total assms(2) by fastforce
  with assms(1) handle_entry_invalid show ?thesis by (cases b) auto
qed

text \<open>
  C5: an entry for a destination and neighbour already in use. If its metric plus one is not
  smaller than the stored one, nothing changes (the timeout counter is not reset either). If it
  is smaller, the stored route is first deleted from the kernel: when that fails nothing else
  happens; otherwise the stored route is removed and the new one is installed in the kernel and
  stored, or, if that fails, the key is in neither map afterwards.
\<close>

theorem known_route_update:
  assumes "routes_ok db" "db_space 1 db" "is_entry_valid (rip2_entry_ntoh e) = Some True"
    and "ok_map db (route_key (incoming e s i)) = Some old"
  shows "\<exists>w' db' st. handle_ripv2_entry os w db e s i = Some (w', db', st) \<and> routes_ok db' \<and>
    (if host_metric (incoming e s i) < host_metric old
     then (\<exists>ec. rip_route_delete_route os w old = Some (w', ec) \<and> ec \<noteq> 0 \<and> db' = db \<and> st = 1) \<or>
          (\<exists>w1. rip_route_delete_route os w old = Some (w1, 0) \<and> installed os w1 db (incoming e s i) w' db' st)
     else w' = w \<and> db' = db \<and> st = 0)"
  using handle_entry_known [OF assms(1) _ assms(3,4), of 0 os w] assms(2)
  unfolding add_0 by blast

text \<open>
  C4: an entry for a route not in use. It is installed in the kernel and stored, with the sender
  as next hop, marked as changed and the flag raised; a route with the same key waiting in the
  garbage is removed from it. If the kernel refuses the route or memory runs out the status is 1
  and the key is in neither map.
\<close>

theorem new_route_installed:
  assumes "routes_ok db" "db_space 1 db" "is_entry_valid (rip2_entry_ntoh e) = Some True"
    and "ok_map db (route_key (incoming e s i)) = None"
  shows "\<exists>w' db' st. handle_ripv2_entry os w db e s i = Some (w', db', st) \<and> routes_ok db' \<and>
    installed os w db (incoming e s i) w' db' st"
  using handle_entry_new [OF assms(1) _ assms(3,4), of 0 os w] assms(2)
  unfolding add_0 by blast

lemma sample_create:
  assumes "get_prefix_len (subnet_mask (entry rd)) = Some n"
  shows "\<exists>r. rip_rtnl_route_create sample_os w rd = Some (w, Some r)"
  using assms
  by (simp add: rip_rtnl_route_create_def rip_rtnl_route_create_alloc_def rip_fill_nl_addr_def
      rip_fill_next_hop_def rip_fill_route_def sample_os_def Let_def)

lemma sample_add:
  assumes "route_mask r \<noteq> 0xFFFFFFFF" "rip_route_add_route sample_os w (r\<lparr>changed := c\<rparr>) = Some (w', ec)"
  shows "ec = 0"
proof -
  obtain n where "get_prefix_len (subnet_mask (entry (r\<lparr>changed := c\<rparr>))) = Some n"
    using assms(1) get_prefix_len_None [of "route_mask r"] by auto
  from sample_create [OF this, of w] assms(2) show ?thesis
    by (auto simp: rip_route_add_route_def sample_os_def)
qed

text \<open>The database after one valid entry, for the examples.\<close>

lemma sample_learned:
  "\<exists>w' db'. handle_ripv2_entry sample_os {} sample_db sample_entry 1 3 = Some (w', db', 0) \<and> routes_ok db' \<and>
     db_space 99 db' \<and> garbage_map db' = Map.empty \<and>
     ok_map db' = [route_key (incoming sample_entry 1 3) \<mapsto> (incoming sample_entry 1 3)\<lparr>changed := True\<rparr>]"
proof -
  have sp: "db_space (99 + 1) sample_db" using sample_db_space(1) by simp
  have n: "ok_map sample_db (route_key (incoming sample_entry 1 3)) = None" by (simp add: sample_db_ok)
  from handle_entry_new [OF sample_db_routes_ok sp sample_entry_valid n, of sample_os "{}"]
  obtain w' db' st where h: "handle_ripv2_entry sample_os {} sample_db sample_entry 1 3 = Some (w', db', st)"
    "routes_ok db'" "db_space 99 db'" "installed sample_os {} sample_db (incoming sample_entry 1 3) w' db' st"
    by blast
  from h(4) sample_add [OF wf_mask [OF incoming_wf [OF sample_entry_valid]]] have "st = 0"
    by (auto simp: installed_def sample_memory)
  with h show ?thesis by (auto simp: installed_def sample_db_ok)
qed

theorem new_route_installed_witness:
  "\<exists>w' db' st. handle_ripv2_entry sample_os {} sample_db sample_entry 1 3 = Some (w', db', st) \<and>
     installed sample_os {} sample_db (incoming sample_entry 1 3) w' db' st"
  using new_route_installed [OF sample_db_routes_ok sample_db_space(2) sample_entry_valid, of 1 3 sample_os "{}"]
  by (auto simp: sample_db_ok)

theorem known_route_update_witness:
  "\<exists>w db. ok_map db \<noteq> Map.empty \<and> handle_ripv2_entry sample_os w db sample_entry 1 3 = Some (w, db, 0)"
proof -
  from sample_learned obtain w :: sample_world and db where d: "routes_ok db" "db_space 99 db"
    "ok_map db = [route_key (incoming sample_entry 1 3) \<mapsto> (incoming sample_entry 1 3)\<lparr>changed := True\<rparr>]" by blast
  have sp: "db_space 1 db" by (rule db_space_le [OF d(2)]) simp
  have k: "ok_map db (route_key (incoming sample_entry 1 3)) = Some ((incoming sample_entry 1 3)\<lparr>changed := True\<rparr>)"
    by (simp add: d(3))
  from known_route_update [OF d(1) sp sample_entry_valid k, of sample_os w] d(3) show ?thesis
    by (intro exI [of _ w] exI [of _ db]) (auto simp: host_metric_def)
qed

text \<open>
  C20: a response. On a database with the invariant and space for the entries,
  \<^verbatim>\<open>rip_handle_response\<close> returns for every message of at most 500 entries without the mask
  255.255.255.255, whatever the kernel and the allocator do, and keeps the invariant: keys in one
  map only, valid masks, metrics between 1 and 16, changed routes covered by the flag.
\<close>

theorem response_keeps_invariant:
  assumes "routes_ok db" "db_space n db" "n \<le> length es" "\<forall>e\<in>set (take n es). subnet_mask e \<noteq> 0xFFFFFFFF"
  shows "\<exists>w' db' st. rip_handle_response os w db es n s i = Some (w', db', st) \<and> routes_ok db'"
  using handle_entries_total [OF assms(1), of 0 "take n es" os w s i 0] assms(2-4)
  by (auto simp: rip_handle_response_def min_absorb2)

theorem response_keeps_invariant_witness:
  "\<exists>w' db' st. rip_handle_response sample_os {} sample_db [sample_entry, zero_entry] 2 1 3 = Some (w', db', st) \<and> routes_ok db'"
proof -
  have "subnet_mask sample_entry \<noteq> 0xFFFFFFFF"
    using wf_mask [OF incoming_wf [OF sample_entry_valid], of 1 3] by (simp add: incoming_sel)
  moreover have "db_space 2 sample_db" by (rule db_space_le [OF sample_db_space(1)]) simp
  ultimately show ?thesis
    using response_keeps_invariant [OF sample_db_routes_ok, of 2 "[sample_entry, zero_entry]" sample_os "{}" 1 3]
    by (simp add: zero_entry_def)
qed

lemma entries_count_whole:
  assumes "4 \<le> n" "n \<le> sizeof_msg_buffer"
  shows "unat (calculate_entries_count (word_of_nat n)) = (n - 4) div 20"
proof -
  have "n \<le> 10004"
    using assms(2) by (simp add: sizeof_msg_buffer_def sizeof_rip_header_def sizeof_rip2_entry_def msg_buffer_entries_def)
  then have "unat (word_of_nat (n - 4) :: u64) = n - 4"
    unfolding unat_of_nat by (intro mod_less) simp
  moreover have "word_of_nat (n - 4) = (word_of_nat n - 4 :: u64)" using assms(1) by (simp add: of_nat_diff)
  ultimately have "unat (word_of_nat n - 4 :: u64) = n - 4" by (simp only:)
  then show ?thesis
    by (simp add: calculate_entries_count_def sizeof_rip_header_def sizeof_rip2_entry_def unat_div)
qed

text \<open>
  C35: the number of entries. For a datagram of at least 4 and at most 10004 bytes the count is
  the number of whole entries after the header, at most 500; for a shorter one the subtraction
  wraps around and the count exceeds the buffer, so that handling a response reads outside it.
\<close>

theorem entries_count_bounds:
  "if 4 \<le> n \<and> n \<le> sizeof_msg_buffer
   then unat (calculate_entries_count (word_of_nat n)) = (n - 4) div 20 \<and>
        unat (calculate_entries_count (word_of_nat n)) \<le> msg_buffer_entries
   else n < 4 \<longrightarrow> msg_buffer_entries < unat (calculate_entries_count (word_of_nat n)) \<and>
     (length es = msg_buffer_entries \<longrightarrow>
      rip_handle_response os w db es (unat (calculate_entries_count (word_of_nat n))) s i = None)"
proof (cases "4 \<le> n \<and> n \<le> sizeof_msg_buffer")
  case True
  with entries_count_whole [of n] show ?thesis
    by (auto simp: sizeof_msg_buffer_def sizeof_rip_header_def sizeof_rip2_entry_def msg_buffer_entries_def)
next
  case False
  have "msg_buffer_entries < unat (calculate_entries_count (word_of_nat n))" if "n < 4"
  proof -
    from that have "n = 0 \<or> n = 1 \<or> n = 2 \<or> n = 3" by auto
    then show ?thesis
      by (elim disjE) (simp_all add: calculate_entries_count_def sizeof_rip_header_def
          sizeof_rip2_entry_def msg_buffer_entries_def unat_div)
  qed
  with False show ?thesis by (auto simp: rip_handle_response_def)
qed

theorem entries_count_bounds_witness:
  "unat (calculate_entries_count (word_of_nat 24)) = 1 \<and>
   rip_handle_response sample_os {} sample_db (replicate msg_buffer_entries zero_entry)
     (unat (calculate_entries_count (word_of_nat 1))) 1 3 = None"
  using entries_count_bounds [of 24 "[]" sample_os "{}" sample_db 1 3]
    entries_count_bounds [of 1 "replicate msg_buffer_entries zero_entry" sample_os "{}" sample_db 1 3]
  by (simp add: sizeof_msg_buffer_def sizeof_rip_header_def sizeof_rip2_entry_def msg_buffer_entries_def)

lemma unicast_refines:
  assumes "db_inv db" "printable db" "is_initial_request es n"
    and "rip_create_socket_ifindex os w zero_socket i = (tx, w1, 0)" "rip_setup_tx_socket os w1 tx = (w2, Returned 0)"
    and "length (advertised (word_of_int i) False db) \<le> msg_buffer_entries"
  shows "rip_send_advertisement_unicast os w db es n target i =
    (let (w3, st) = send_entries os w2 (sock_fd tx) target (advertised (word_of_int i) False db)
     in Some (os_close os w3 (sock_fd tx), Returned st))"
proof -
  let ?b = "zero_buffer\<lparr>header := \<lparr>command = RIP_CMD_RESPONSE, version = 2\<rparr>\<rparr>"
  let ?p = "\<lparr>neigbour_policy = rip_neighbour_split_horizon, advertise_only_changed = False\<rparr>"
  have i: "sock_if_index tx = i"
    using assms(4) by (auto simp: rip_create_socket_ifindex_def Let_def split: option.splits prod.splits if_splits)
  have n: "n = 1" using assms(3) by (simp add: is_initial_request_def)
  have "length (entries ?b) = msg_buffer_entries" by (simp add: zero_buffer_def)
  from send_response_refines [OF assms(1,2) this, of tx ?p os w2 target] assms(6) i obtain b' where
    "rip_send_response os w2 ?b tx target db ?p =
      (let (w', s) = send_entries os w2 (sock_fd tx) target (advertised (word_of_int i) False db) in Some (w', b', s))"
    by auto
  with assms(3-5) n show ?thesis
    by (simp add: rip_send_advertisement_unicast_def split: prod.splits)
qed

text \<open>
  C26: a request is answered. At its start the daemon sends the same request on every interface. A
  daemon that receives it, with no more than 500 routes for that interface and the
  sockets it needs, sends to the router that asked, and to no other, one response that holds exactly the
  routes split horizon allows on the interface the request came from, whether changed or not (none if there
  are none), closes the socket it has opened for that and leaves its database alone.
\<close>

theorem request_answered:
  assumes "routes_ok db" "rip_find_rx_socket_by_fd (da_items ifcs) fd = Some sock"
    and "os_recvfrom os w (sock_fd sock) sizeof_msg_buffer = (w1, 24, sender, buff)"
    and "header buff = dg_header initial_request" "take 1 (entries buff) = dg_entries initial_request"
    and "rip_create_socket_ifindex os w1 zero_socket (sock_if_index sock) = (tx, w2, 0)"
    and "rip_setup_tx_socket os w2 tx = (w3, Returned 0)"
    and "length (advertised (word_of_int (sock_if_index sock)) False db) \<le> msg_buffer_entries"
  shows "rip_send_request_multicast os' v ifcs' = Some (fold (\<lambda>ifc (v, ret).
      let (v, n) = os_sendto os' v (sock_fd (socket_tx ifc)) rip_multicast_n (htons RIP_UDP_PORT) initial_request
      in (v, ret OR (if n = - 1 then 1 else 0))) (da_items ifcs') (v, 0)) \<and>
    rip_handle_message_event os w db ifcs fd =
      (let (w4, st) = send_entries os w3 (sock_fd tx) sender (advertised (word_of_int (sock_if_index sock)) False db)
       in Some (os_close os w4 (sock_fd tx), db, Returned st))"
proof
  have c: "unat (calculate_entries_count 24) = 1"
    by (simp add: calculate_entries_count_def sizeof_rip_header_def sizeof_rip2_entry_def unat_div)
  have r: "rip_recvfrom os w (sock_fd sock) = (w1, Some (sender, buff, 24))" using assms(3) by (simp add: rip_recvfrom_def)
  have h: "command (header buff) = RIP_CMD_REQUEST" "command (header buff) \<noteq> RIP_CMD_RESPONSE"
    using assms(4) by (simp_all add: initial_request_def RIP_CMD_REQUEST_def RIP_CMD_RESPONSE_def)
  note u = unicast_refines [OF routes_okD(1,4) [OF assms(1)] request_recognised [OF assms(5)] assms(6-8), of sender]
  show "rip_handle_message_event os w db ifcs fd =
      (let (w4, st) = send_entries os w3 (sock_fd tx) sender (advertised (word_of_int (sock_if_index sock)) False db)
       in Some (os_close os w4 (sock_fd tx), db, Returned st))"
    using assms(2) r h c u by (simp add: rip_handle_message_event_def split: prod.splits)
qed (rule request_sends)

text \<open>For the example: a machine that receives the request, and one interface.\<close>

definition asked_os :: "(sample_world, sample_route, sample_nexthop, sample_addr) os" where
  "asked_os = sample_os\<lparr>os_recvfrom := (\<lambda>w fd n. (w, 24, 0x0200A8C0,
     \<lparr>header = dg_header initial_request, entries = dg_entries initial_request @ replicate 499 zero_entry\<rparr>))\<rparr>"

definition sample_ifcs :: "rip_ifc da_vec" where
  "sample_ifcs = (let s = \<lparr>sock_fd = 4, if_name = ''eth1'', sock_if_index = 4\<rparr>
     in \<lparr>da_items = [\<lparr>socket_rx = s, socket_tx = s\<rparr>], da_capacity = 10\<rparr>)"

theorem request_answered_witness:
  "\<exists>w db. ok_map db \<noteq> Map.empty \<and> rip_handle_message_event asked_os w db sample_ifcs 4 = Some (w, db, Returned 0)"
proof -
  from sample_learned obtain w :: sample_world and db where d: "routes_ok db" "db_space 99 db"
    "ok_map db = [route_key (incoming sample_entry 1 3) \<mapsto> (incoming sample_entry 1 3)\<lparr>changed := True\<rparr>]"
    "garbage_map db = Map.empty" by blast
  let ?s = "\<lparr>sock_fd = 4, if_name = ''eth1'', sock_if_index = 4\<rparr>"
  let ?t = "\<lparr>sock_fd = 5, if_name = ''eth0'', sock_if_index = 4\<rparr>"
  have f: "rip_find_rx_socket_by_fd (da_items sample_ifcs) 4 = Some ?s" by (simp add: sample_ifcs_def Let_def)
  have c: "rip_create_socket_ifindex asked_os w zero_socket (sock_if_index ?s) = (?t, w, 0)"
    by (simp add: rip_create_socket_ifindex_def socket_create_udp_socket_def asked_os_def sample_os_def zero_socket_def)
  have u: "rip_setup_tx_socket asked_os w ?t = (w, Returned 0)"
    by (simp add: rip_setup_tx_socket_def check_then_def socket_bind_to_device_def socket_set_allow_reuse_port_def
        socket_bind_port_def asserted_call_def asked_os_def sample_os_def)
  have "db_routes db = {(incoming sample_entry 1 3)\<lparr>changed := True\<rparr>}" unfolding db_routes_def d by simp
  then have "card {r \<in> db_routes db. eligible x False r} \<le> card {(incoming sample_entry 1 3)\<lparr>changed := True\<rparr>}" for x
    by (intro card_mono) auto
  then have l: "length (advertised (word_of_int (sock_if_index ?s)) False db) \<le> msg_buffer_entries"
    unfolding length_advertised [OF routes_okD(1) [OF d(1)]]
    by (rule order_trans) (simp add: msg_buffer_entries_def)
  have "rip_handle_message_event asked_os w db sample_ifcs 4 = Some (w, db, Returned 0)"
    using request_answered [OF d(1) f _ _ _ c u l, of w "0x0200A8C0"
        "\<lparr>header = dg_header initial_request, entries = dg_entries initial_request @ replicate 499 zero_entry\<rparr>" sample_os "{}" sample_ifcs]
    by (simp add: asked_os_def sample_os_def send_entries_def initial_request_def split: if_splits)
  with d(3) show ?thesis by (intro exI [of _ w] exI [of _ db]) simp
qed

end
