(* ===== verification/Rip_Timer.thy ===== *)
theory Rip_Timer
  imports Rip_Os
begin

text \<open>
  Model of \<^verbatim>\<open>utils/timer.c\<close> and of \<^verbatim>\<open>get_random_float\<close> of \<^verbatim>\<open>utils/utils.c\<close>. A \<^verbatim>\<open>float\<close> is a real
  number: the rounding of single precision is not modelled. The flag \<open>is_ticking\<close> follows the
  calls of the code; the descriptor's own state is part of the machine.
\<close>

record timer =
  timer_fd :: int
  ticking :: bool

definition timer_init :: "('w, 'r, 'n, 'a) os \<Rightarrow> 'w \<Rightarrow> timer \<Rightarrow> timer \<times> 'w \<times> ret" where
  "timer_init os w t =
     (if timer_fd t \<noteq> 0 then (t, w, Exited)
      else let (w, fd) = os_timerfd_create os w in
      if fd = - 1 then (t, w, Returned 1)
      else (t\<lparr>timer_fd := fd, ticking := False\<rparr>, w, Returned 0))"

definition timer_getfd :: "timer \<Rightarrow> int" where
  "timer_getfd t = timer_fd t"

definition timer_set :: "('w, 'r, 'n, 'a) os \<Rightarrow> 'w \<Rightarrow> timer \<Rightarrow> int \<times> int \<Rightarrow> 'w \<times> int" where
  "timer_set os w t tspec =
     (let (w, ec) = os_timerfd_settime os w (timer_fd t) (fst tspec) (snd tspec)
      in (w, if ec \<noteq> 0 then 1 else 0))"

text \<open>Conversion of a real number to an integer truncates toward zero.\<close>

definition trunc :: "real \<Rightarrow> int" where
  "trunc v = (if v \<ge> 0 then \<lfloor>v\<rfloor> else \<lceil>v\<rceil>)"

definition timer_start_oneshot ::
  "('w, 'r, 'n, 'a) os \<Rightarrow> 'w \<Rightarrow> timer \<Rightarrow> real \<Rightarrow> timer \<times> 'w \<times> int" where
  "timer_start_oneshot os w t value_s =
     (let seconds = trunc value_s;
          nanosecond = trunc ((value_s - of_int seconds) * 1000 * 1000 * 1000);
          (w, ec) = timer_set os w t (trunc value_s, nanosecond) in
      if ec \<noteq> 0 then (t, w, 1) else (t\<lparr>ticking := True\<rparr>, w, 0))"

definition timer_clear :: "('w, 'r, 'n, 'a) os \<Rightarrow> 'w \<Rightarrow> timer \<Rightarrow> timer \<times> 'w \<times> int" where
  "timer_clear os w t =
     (let (w, n) = os_read os w (timer_fd t) in
      if n = - 1 then (t, w, 1) else (t\<lparr>ticking := False\<rparr>, w, 0))"

definition timer_is_ticking :: "timer \<Rightarrow> bool" where
  "timer_is_ticking t = ticking t"

definition get_random_float :: "('w, 'r, 'n, 'a) os \<Rightarrow> 'w \<Rightarrow> real \<Rightarrow> real \<Rightarrow> 'w \<times> real" where
  "get_random_float os w mn mx =
     (let (w, n) = os_rand os w; scale = real n / real (os_rand_max os)
      in (w, mn + scale * (mx - mn)))"

section \<open>Properties\<close>

lemma random_float_range:
  assumes "get_random_float os w mn mx = (w', v)" "mn \<le> mx" "snd (os_rand os w) \<le> os_rand_max os"
  shows "mn \<le> v" "v \<le> mx"
proof -
  let ?s = "real (snd (os_rand os w)) / real (os_rand_max os)"
  have v: "v = mn + ?s * (mx - mn)"
    using assms(1) by (auto simp: get_random_float_def split: prod.splits)
  have s: "0 \<le> ?s" "?s \<le> 1" using assms(3) by (auto simp: divide_le_eq_1)
  have d: "0 \<le> mx - mn" using assms(2) by simp
  have "0 \<le> ?s * (mx - mn)" "?s * (mx - mn) \<le> 1 * (mx - mn)"
    by (rule mult_nonneg_nonneg [OF s(1) d]) (rule mult_right_mono [OF s(2) d])
  with v show "mn \<le> v" "v \<le> mx" by simp_all
qed

text \<open>The kernel accepts a value only if its nanosecond part is within a second.\<close>

lemma oneshot_nanoseconds:
  assumes "0 \<le> v"
  shows "0 \<le> trunc ((v - of_int (trunc v)) * 1000 * 1000 * 1000)"
    "trunc ((v - of_int (trunc v)) * 1000 * 1000 * 1000) < 1000000000"
proof -
  have f: "0 \<le> v - of_int \<lfloor>v\<rfloor>" "v - of_int \<lfloor>v\<rfloor> < 1" by linarith+
  then have "(v - of_int \<lfloor>v\<rfloor>) * 1000 * 1000 * 1000 < 1000000000" by simp
  with f(1) assms show "0 \<le> trunc ((v - of_int (trunc v)) * 1000 * 1000 * 1000)"
    "trunc ((v - of_int (trunc v)) * 1000 * 1000 * 1000) < 1000000000"
    by (simp_all add: trunc_def floor_less_iff)
qed

end
