(* ===== verification/Event_Dispatcher.thy ===== *)
theory Event_Dispatcher
  imports Rip_Socket Hashmap_Map Sip_Hash
begin

text \<open>
  Model of \<^verbatim>\<open>utils/event_dispatcher.c\<close>: the registry of descriptors with their callbacks, a hash
  map keyed by descriptor beside the array handed to \<^verbatim>\<open>poll\<close>, and one round of polling and
  dispatching. A callback is a value of the type \<open>'c\<close> and its argument one of the type \<open>'g\<close>;
  what calling it does is a parameter of the dispatch.
\<close>

section \<open>State\<close>

record ('c, 'g) event =
  ev_fd :: int
  ev_cb :: 'c
  ev_arg :: 'g
  ev_name :: string

definition event_cmp :: "('c, 'g) event \<Rightarrow> ('c, 'g) event \<Rightarrow> int" where
  "event_cmp a b = of_bool (ev_fd a > ev_fd b) - of_bool (ev_fd a < ev_fd b)"

definition event_hash :: "('c, 'g) event \<Rightarrow> u64 \<Rightarrow> u64 \<Rightarrow> u64" where
  "event_hash item s0 s1 = hashmap_sip (le_bytes 4 (word_of_int (ev_fd item) :: u32)) s0 s1"

record ('c, 'g) event_dispatcher =
  ed_events :: "('c, 'g) event hashmap"
  ed_pollfds :: "int da_vec"

definition sizeof_event :: nat where "sizeof_event = 32"
definition sizeof_event_dispatcher :: nat where "sizeof_event_dispatcher = 32"
definition sizeof_pollfd :: nat where "sizeof_pollfd = 8"

section \<open>Operations\<close>

text \<open>\<open>zero\<close> is the event whose bytes are all zero.\<close>

definition event_dispatcher_init ::
  "(nat \<Rightarrow> bool) \<Rightarrow> (nat \<Rightarrow> bool) \<Rightarrow> ('c, 'g) event \<Rightarrow> ('c, 'g) event_dispatcher option" where
  "event_dispatcher_init calloc malloc zero =
     (if \<not> calloc sizeof_event_dispatcher then None
      else case hashmap_new malloc sizeof_event 0 0 0 event_hash (Some event_cmp) zero of
             None \<Rightarrow> None
           | Some m \<Rightarrow> Some \<lparr>ed_events = m, ed_pollfds = da_empty\<rparr>)"

definition event_dispatcher_register ::
  "(nat \<Rightarrow> bool) \<Rightarrow> ('c, 'g) event_dispatcher \<Rightarrow> ('c, 'g) event \<Rightarrow> (('c, 'g) event_dispatcher \<times> int) option" where
  "event_dispatcher_register malloc ed e = do {
     found \<leftarrow> hashmap_get (ed_events ed) e;
     if found \<noteq> None then Some (ed, 1)
     else do {
       (m, old) \<leftarrow> hashmap_set malloc (ed_events ed) e;
       let ed = ed\<lparr>ed_events := m\<rparr>;
       if old \<noteq> None then Some (ed, 1)
       else if hashmap_oom m then Some (ed, 1)
       else do {
         fds \<leftarrow> da_append malloc sizeof_pollfd (ed_pollfds ed) (ev_fd e);
         Some (ed\<lparr>ed_pollfds := fds\<rparr>, 0)
       }
     }
   }"

fun event_dispatcher_register_many ::
  "(nat \<Rightarrow> bool) \<Rightarrow> ('c, 'g) event_dispatcher \<Rightarrow> ('c, 'g) event list \<Rightarrow> (('c, 'g) event_dispatcher \<times> int) option" where
  "event_dispatcher_register_many malloc ed [] = Some (ed, 0)"
| "event_dispatcher_register_many malloc ed (e # es) = do {
     (ed, ec) \<leftarrow> event_dispatcher_register malloc ed e;
     if ec \<noteq> 0 then Some (ed, 1) else event_dispatcher_register_many malloc ed es
   }"

text \<open>The loop over the descriptors; \<open>i\<close> is the index of the first one left.\<close>

fun dispatch_from ::
  "(('c, 'g) event \<Rightarrow> 's \<Rightarrow> ('s \<times> ret) option) \<Rightarrow> ('c, 'g) event hashmap \<Rightarrow> (nat \<Rightarrow> u16) \<Rightarrow>
   ('c, 'g) event \<Rightarrow> nat \<Rightarrow> int list \<Rightarrow> 's \<Rightarrow> ('s \<times> ret) option" where
  "dispatch_from call events_map revents zero i [] s = Some (s, Returned 0)"
| "dispatch_from call events_map revents zero i (fd # fds) s =
     (if revents i AND POLLIN = 0 then dispatch_from call events_map revents zero (i + 1) fds s
      else do {
        found \<leftarrow> hashmap_get events_map (zero\<lparr>ev_fd := fd\<rparr>);
        case found of
          None \<Rightarrow> Some (s, Returned 1)
        | Some p \<Rightarrow> do {
            (s, rc) \<leftarrow> call (item_at events_map p) s;
            if rc = Exited then Some (s, Exited)
            else dispatch_from call events_map revents zero (i + 1) fds s
          }
      })"

definition event_dispatcher_poll_and_dispatch ::
  "('w, 'r, 'n, 'a) os \<Rightarrow> (('c, 'g) event \<Rightarrow> 'w \<times> 's \<Rightarrow> (('w \<times> 's) \<times> ret) option) \<Rightarrow>
   ('c, 'g) event \<Rightarrow> ('c, 'g) event_dispatcher \<Rightarrow> 'w \<times> 's \<Rightarrow> (('w \<times> 's) \<times> ret) option" where
  "event_dispatcher_poll_and_dispatch os call zero ed ws =
     (let (w, rc, revents) = os_poll os (fst ws) (da_items (ed_pollfds ed)) in
      if rc = - 1 then Some ((w, snd ws), Returned 1)
      else dispatch_from call (ed_events ed) revents zero 0 (da_items (ed_pollfds ed)) (w, snd ws))"

section \<open>Invariant\<close>

text \<open>The registry and the array of descriptors agree.\<close>

abbreviation ed_map :: "('c, 'g) event_dispatcher \<Rightarrow> int \<rightharpoonup> ('c, 'g) event" where
  "ed_map ed \<equiv> hm_lookup ev_fd (ed_events ed)"

definition ed_inv :: "('c, 'g) event_dispatcher \<Rightarrow> bool" where
  "ed_inv ed \<longleftrightarrow> hm_inv ev_fd (ed_events ed) \<and> dom (ed_map ed) = set (da_items (ed_pollfds ed)) \<and>
     distinct (da_items (ed_pollfds ed))"

lemma event_cmp_zero: "event_cmp a b = 0 \<longleftrightarrow> ev_fd a = ev_fd b"
  by (auto simp: event_cmp_def)

lemma dispatcher_init_inv:
  assumes "event_dispatcher_init ca ma z = Some ed"
  shows "ed_inv ed" "da_items (ed_pollfds ed) = []"
proof -
  from assms obtain m where m: "hashmap_new ma sizeof_event 0 0 0 event_hash (Some event_cmp) z = Some m"
    and ed: "ed = \<lparr>ed_events = m, ed_pollfds = da_empty\<rparr>"
    by (auto simp: event_dispatcher_init_def split: if_splits option.splits)
  note n = hashmap_new_inv [OF m [unfolded hashmap_new_def] event_cmp_zero]
  have "hm_inv ev_fd m" "hm_lookup ev_fd m = Map.empty" by (rule n; simp add: event_hash_def)+
  with ed show "ed_inv ed" "da_items (ed_pollfds ed) = []" by (simp_all add: ed_inv_def da_empty_def)
qed

lemma register_refines:
  assumes inv: "ed_inv ed" and room: "hashmap_count (ed_events ed) + 1 < 2 ^ 16"
    and r: "event_dispatcher_register ma ed e = Some (ed', st)"
  shows "st = 0 \<Longrightarrow> ed_inv ed' \<and> ed_map ed' = (ed_map ed)(ev_fd e \<mapsto> e) \<and>
      da_items (ed_pollfds ed') = da_items (ed_pollfds ed) @ [ev_fd e] \<and> ev_fd e \<notin> dom (ed_map ed)"
    and "st \<noteq> 0 \<Longrightarrow> ed_inv ed' \<and> ed_map ed' = ed_map ed \<and> ed_pollfds ed' = ed_pollfds ed"
proof -
  have h: "hm_inv ev_fd (ed_events ed)" using inv by (simp add: ed_inv_def)
  from hm.get_law [OF h, of e] obtain f where
    f: "hashmap_get (ed_events ed) e = Some f" "map_option (item_at (ed_events ed)) f = ed_map ed (ev_fd e)" by blast
  have "(st = 0 \<longrightarrow> ed_inv ed' \<and> ed_map ed' = (ed_map ed)(ev_fd e \<mapsto> e) \<and>
      da_items (ed_pollfds ed') = da_items (ed_pollfds ed) @ [ev_fd e] \<and> ev_fd e \<notin> dom (ed_map ed)) \<and>
    (st \<noteq> 0 \<longrightarrow> ed_inv ed' \<and> ed_map ed' = ed_map ed \<and> ed_pollfds ed' = ed_pollfds ed)"
  proof (cases f)
    case (Some p)
    with r f inv show ?thesis by (auto simp: event_dispatcher_register_def)
  next
    case None
    with f have n: "ed_map ed (ev_fd e) = None" by simp
    from hm.put_fresh [OF h room n, of ma] obtain m where
      m: "hashmap_set ma (ed_events ed) e = Some (m, None)" "hm_inv ev_fd m"
      "hm_lookup ev_fd m = (if hashmap_oom m then ed_map ed else (ed_map ed)(ev_fd e \<mapsto> e))" by blast
    show ?thesis
    proof (cases "hashmap_oom m")
      case True
      with r f None m have "ed' = ed\<lparr>ed_events := m\<rparr>" "st = 1"
        by (simp_all add: event_dispatcher_register_def)
      with inv m True show ?thesis by (simp add: ed_inv_def)
    next
      case False
      with r f None m obtain fds where fds: "da_append ma sizeof_pollfd (ed_pollfds ed) (ev_fd e) = Some fds"
        and ed': "ed' = ed\<lparr>ed_events := m, ed_pollfds := fds\<rparr>" "st = 0"
        by (auto simp: event_dispatcher_register_def bind_eq_Some_conv)
      have "ev_fd e \<notin> set (da_items (ed_pollfds ed))" using n inv by (auto simp: ed_inv_def)
      with ed' m False da_append_items [OF fds] inv n show ?thesis by (auto simp: ed_inv_def)
    qed
  qed
  then show "st = 0 \<Longrightarrow> ed_inv ed' \<and> ed_map ed' = (ed_map ed)(ev_fd e \<mapsto> e) \<and>
      da_items (ed_pollfds ed') = da_items (ed_pollfds ed) @ [ev_fd e] \<and> ev_fd e \<notin> dom (ed_map ed)"
    "st \<noteq> 0 \<Longrightarrow> ed_inv ed' \<and> ed_map ed' = ed_map ed \<and> ed_pollfds ed' = ed_pollfds ed"
    by blast+
qed

text \<open>Specification of a round: the callbacks of the ready descriptors, in order.\<close>

fun run_callbacks ::
  "(('c, 'g) event \<Rightarrow> 's \<Rightarrow> ('s \<times> ret) option) \<Rightarrow> ('c, 'g) event list \<Rightarrow> 's \<Rightarrow> ('s \<times> ret) option" where
  "run_callbacks call [] s = Some (s, Returned 0)"
| "run_callbacks call (e # es) s = do {
     (s, rc) \<leftarrow> call e s;
     if rc = Exited then Some (s, Exited) else run_callbacks call es s
   }"

definition ready_fds :: "(nat \<Rightarrow> u16) \<Rightarrow> nat \<Rightarrow> int list \<Rightarrow> int list" where
  "ready_fds revents i fds = map snd (filter (\<lambda>(j, fd). revents j AND POLLIN \<noteq> 0) (zip [i..<i + length fds] fds))"

lemma run_callbacks_status: "run_callbacks call es s = Some (s', rc) \<Longrightarrow> rc \<in> {Returned 0, Exited}"
  by (induction es arbitrary: s) (auto simp: bind_eq_Some_conv split: if_splits)

lemma ready_fds_Cons:
  "ready_fds revents i (fd # fds) =
     (if revents i AND POLLIN = 0 then [] else [fd]) @ ready_fds revents (i + 1) fds"
  by (simp add: ready_fds_def upt_conv_Cons del: upt_Suc)

lemma dispatch_refines:
  assumes h: "hm_inv ev_fd m" and d: "set fds \<subseteq> dom (hm_lookup ev_fd m)"
  shows "dispatch_from call m revents z i fds s =
    run_callbacks call (map (the \<circ> hm_lookup ev_fd m) (ready_fds revents i fds)) s"
  using d
proof (induction fds arbitrary: i s)
  case (Cons fd fds)
  from hm.get_law [OF h, of "z\<lparr>ev_fd := fd\<rparr>"] Cons.prems obtain p where
    "hashmap_get m (z\<lparr>ev_fd := fd\<rparr>) = Some (Some p)" "hm_lookup ev_fd m fd = Some (item_at m p)" by auto
  with Cons.prems show ?case
    by (auto simp: ready_fds_Cons Cons.IH simp del: One_nat_def intro!: Option.bind_cong split: prod.splits)
qed (simp add: ready_fds_def)

lemma poll_and_dispatch_runs:
  assumes "ed_inv ed" "os_poll os w (da_items (ed_pollfds ed)) = (w', rc, revents)" "rc \<noteq> - 1"
  shows "event_dispatcher_poll_and_dispatch os call z ed (w, x) =
    run_callbacks call (map (the \<circ> ed_map ed) (ready_fds revents 0 (da_items (ed_pollfds ed)))) (w', x)"
proof -
  have "hm_inv ev_fd (ed_events ed)" "set (da_items (ed_pollfds ed)) \<subseteq> dom (ed_map ed)"
    using assms(1) by (simp_all add: ed_inv_def)
  from dispatch_refines [OF this, of call revents z 0 "(w', x)"] assms(2,3) show ?thesis
    by (simp add: event_dispatcher_poll_and_dispatch_def)
qed

lemma poll_and_dispatch_status:
  assumes "ed_inv ed" "event_dispatcher_poll_and_dispatch os call z ed (w, x) = Some (ws', rc)"
  shows "if fst (snd (os_poll os w (da_items (ed_pollfds ed)))) = - 1 then rc = Returned 1 else rc \<in> {Returned 0, Exited}"
proof -
  obtain w1 rc1 revents where p: "os_poll os w (da_items (ed_pollfds ed)) = (w1, rc1, revents)" by (metis prod_cases3)
  show ?thesis
  proof (cases "rc1 = - 1")
    case False
    from assms(2) [unfolded poll_and_dispatch_runs [OF assms(1) p False]] have "rc \<in> {Returned 0, Exited}"
      by (rule run_callbacks_status)
    with False p show ?thesis by simp
  qed (use assms(2) p in \<open>simp add: event_dispatcher_poll_and_dispatch_def\<close>)
qed

section \<open>Callbacks that keep an invariant\<close>

text \<open>
  The contract between the dispatcher and the handlers registered with it. The invariant is
  indexed by the number of calls for which there is room, and every call uses up at most one.
  What holds of each callback then holds of a whole round.
\<close>

locale callbacks =
  fixes call :: "('c, 'g) event \<Rightarrow> 's \<Rightarrow> ('s \<times> ret) option"
    and inv :: "nat \<Rightarrow> 's \<Rightarrow> bool"
  assumes call_keeps: "inv (Suc n) s \<Longrightarrow> call e s = Some (s', rc) \<Longrightarrow> inv n s'"
    and weaken: "inv n s \<Longrightarrow> m \<le> n \<Longrightarrow> inv m s"
begin

lemma run_keeps: "inv (n + length es) s \<Longrightarrow> run_callbacks call es s = Some (s', rc) \<Longrightarrow> inv n s'"
proof (induction es arbitrary: s)
  case (Cons e es)
  from Cons.prems(2) obtain s1 rc1 where c: "call e s = Some (s1, rc1)"
    "(if rc1 = Exited then Some (s1, Exited) else run_callbacks call es s1) = Some (s', rc)"
    by (auto simp: bind_eq_Some_conv)
  have "inv (n + length es) s1" using Cons.prems(1) by (intro call_keeps [OF _ c(1)]) simp
  with c(2) Cons.IH weaken show ?case by (auto split: if_splits)
qed simp

lemma dispatch_keeps:
  assumes "hm_inv ev_fd m" "set fds \<subseteq> dom (hm_lookup ev_fd m)" "inv (n + length fds) s"
    and "dispatch_from call m revents z i fds s = Some (s', rc)"
  shows "inv n s'"
proof -
  let ?es = "map (the \<circ> hm_lookup ev_fd m) (ready_fds revents i fds)"
  have "length ?es \<le> length fds"
    using length_filter_le [of _ "zip [i..<i + length fds] fds"] by (simp add: ready_fds_def)
  then have "inv (n + length ?es) s" by (intro weaken [OF assms(3)]) simp
  then show ?thesis using assms(4) unfolding dispatch_refines [OF assms(1,2)] by (rule run_keeps)
qed

end

text \<open>With the machine in the state: waiting for events keeps the invariant too.\<close>

locale polled_callbacks = callbacks call inv
  for call :: "('c, 'g) event \<Rightarrow> 'w \<times> 's \<Rightarrow> (('w \<times> 's) \<times> ret) option"
    and inv :: "nat \<Rightarrow> 'w \<times> 's \<Rightarrow> bool" +
  fixes os :: "('w, 'r, 'n, 'a) os"
  assumes poll_keeps: "inv n (w, x) \<Longrightarrow> inv n (fst (os_poll os w fds), x)"
begin

lemma poll_and_dispatch_keeps:
  assumes "ed_inv ed" "inv (n + length (da_items (ed_pollfds ed))) ws"
    and "event_dispatcher_poll_and_dispatch os call z ed ws = Some (ws', rc)"
  shows "inv n ws'"
proof -
  let ?fds = "da_items (ed_pollfds ed)"
  obtain w x where ws: "ws = (w, x)" by fastforce
  obtain w1 rc1 revents where p: "os_poll os w ?fds = (w1, rc1, revents)" by (metis prod_cases3)
  have i: "inv (n + length ?fds) (w1, x)" using poll_keeps [of _ w x ?fds] assms(2) ws p by simp
  show ?thesis
  proof (cases "rc1 = - 1")
    case True
    then have "ws' = (w1, x)" using assms(3) ws p by (simp add: event_dispatcher_poll_and_dispatch_def)
    with weaken [OF i, of n] show ?thesis by simp
  next
    case False
    then have "dispatch_from call (ed_events ed) revents z 0 ?fds (w1, x) = Some (ws', rc)"
      using assms(3) ws p by (simp add: event_dispatcher_poll_and_dispatch_def)
    from dispatch_keeps [OF _ _ i this] assms(1) show ?thesis by (simp add: ed_inv_def)
  qed
qed

end

section \<open>Properties\<close>

lemma register_total:
  assumes inv: "ed_inv ed" and room: "hashmap_count (ed_events ed) + 1 < 2 ^ 16" and mem: "\<forall>n. ma n"
  shows "\<exists>ed' st. event_dispatcher_register ma ed e = Some (ed', st) \<and> (st = 0 \<longleftrightarrow> ev_fd e \<notin> dom (ed_map ed))"
proof -
  have h: "hm_inv ev_fd (ed_events ed)" using inv by (simp add: ed_inv_def)
  from hm.get_law [OF h, of e] obtain f where
    f: "hashmap_get (ed_events ed) e = Some f" "map_option (item_at (ed_events ed)) f = ed_map ed (ev_fd e)" by blast
  show ?thesis
  proof (cases f)
    case (Some p)
    with f(2) have "ed_map ed (ev_fd e) = Some (item_at (ed_events ed) p)" by simp
    then have "ev_fd e \<in> dom (ed_map ed)" by (rule domI)
    with f Some show ?thesis by (simp add: event_dispatcher_register_def)
  next
    case None
    with f have n: "ed_map ed (ev_fd e) = None" by simp
    from hm.put_fresh [OF h room n, of ma] mem obtain m where
      m: "hashmap_set ma (ed_events ed) e = Some (m, None)" "\<not> hashmap_oom m" by blast
    obtain fds where "da_append ma sizeof_pollfd (ed_pollfds ed) (ev_fd e) = Some fds"
      using da_append_total [OF mem, of sizeof_pollfd "ed_pollfds ed" "ev_fd e"] by blast
    with f None m n show ?thesis by (simp add: event_dispatcher_register_def domIff)
  qed
qed

definition sample_event :: "(nat, nat) event" where
  "sample_event = \<lparr>ev_fd = 5, ev_cb = 1, ev_arg = 2, ev_name = ''a''\<rparr>"

lemma sample_dispatcher:
  "\<exists>ed. event_dispatcher_init (\<lambda>_. True) (\<lambda>_. True) sample_event = Some ed \<and> ed_inv ed \<and>
     da_items (ed_pollfds ed) = [] \<and> hashmap_count (ed_events ed) = 0"
proof -
  obtain ed where ed: "event_dispatcher_init (\<lambda>_. True) (\<lambda>_. True) sample_event = Some ed"
    by (auto simp: event_dispatcher_init_def hashmap_new_def hashmap_new_with_allocator_def Let_def)
  note i = dispatcher_init_inv [OF ed]
  then have "card (dom (ed_map ed)) = 0" "hm_inv ev_fd (ed_events ed)" by (simp_all add: ed_inv_def)
  then have "hashmap_count (ed_events ed) = 0" using hm_count_card [of ev_fd "ed_events ed"] by (simp add: hashmap_count_def)
  with ed i show ?thesis by blast
qed

text \<open>
  Registration. With memory available \<^verbatim>\<open>event_dispatcher_register\<close> returns; it refuses a
  descriptor that is registered already and leaves the registry as it was; otherwise it adds the
  event under its descriptor and the descriptor at the end of the array to poll. Registry and
  array hold the same descriptors before and after.
\<close>

lemma register_keeps_registry:
  assumes "ed_inv ed" "hashmap_count (ed_events ed) + 1 < 2 ^ 16" "\<forall>n. ma n"
  shows "\<exists>ed' st. event_dispatcher_register ma ed e = Some (ed', st) \<and> ed_inv ed' \<and>
    (if ev_fd e \<in> dom (ed_map ed)
     then st \<noteq> 0 \<and> ed_map ed' = ed_map ed \<and> ed_pollfds ed' = ed_pollfds ed
     else st = 0 \<and> ed_map ed' = (ed_map ed)(ev_fd e \<mapsto> e) \<and>
       da_items (ed_pollfds ed') = da_items (ed_pollfds ed) @ [ev_fd e])"
proof -
  from register_total [OF assms, where e = e] obtain ed' st where
    r: "event_dispatcher_register ma ed e = Some (ed', st)" "st = 0 \<longleftrightarrow> ev_fd e \<notin> dom (ed_map ed)" by blast
  note ref = register_refines [OF assms(1,2) r(1)]
  show ?thesis
  proof (cases "st = 0")
    case True
    with ref(1) r show ?thesis by simp
  next
    case False
    with ref(2) r show ?thesis by simp
  qed
qed

text \<open>
  C25: dispatching. When \<^verbatim>\<open>poll\<close> succeeds, one round calls exactly the callbacks registered for
  the descriptors reported readable, each with its own event, once, and in the order of the
  array; in particular the lookup of a polled descriptor never fails. The round ends early only
  if a callback ends the process; the statuses of the callbacks are otherwise ignored.
\<close>

theorem dispatch_runs_ready_callbacks:
  assumes "ed_inv ed" "os_poll os w (da_items (ed_pollfds ed)) = (w', rc, revents)" "rc \<noteq> - 1"
  shows "event_dispatcher_poll_and_dispatch os call z ed (w, x) =
    run_callbacks call (map (the \<circ> ed_map ed) (ready_fds revents 0 (da_items (ed_pollfds ed)))) (w', x)"
  by (rule poll_and_dispatch_runs [OF assms])

theorem dispatch_runs_ready_callbacks_witness:
  "\<exists>ed. event_dispatcher_poll_and_dispatch sample_os (\<lambda>e (w, fds). Some ((w, fds @ [ev_fd e]), Returned 1))
     sample_event ed ({}, []) = Some (({}, [5]), Returned 0)"
proof -
  from sample_dispatcher obtain ed :: "(nat, nat) event_dispatcher" where ed: "ed_inv ed" "da_items (ed_pollfds ed) = []"
    "hashmap_count (ed_events ed) = 0" by blast
  then have n: "ev_fd sample_event \<notin> dom (ed_map ed)" by (simp add: ed_inv_def)
  from register_total [OF ed(1), of "\<lambda>_. True" sample_event] ed(3) n obtain ed' where
    "event_dispatcher_register (\<lambda>_. True) ed sample_event = Some (ed', 0)" by auto
  from register_refines(1) [OF ed(1) _ this] ed have r: "ed_inv ed'" "ed_map ed' 5 = Some sample_event"
    "da_items (ed_pollfds ed') = [5]" by (auto simp: sample_event_def)
  have "os_poll sample_os {} (da_items (ed_pollfds ed')) = ({}, 1, \<lambda>i. if i = 0 then 1 else 0)"
    by (simp add: sample_os_def)
  from dispatch_runs_ready_callbacks [OF r(1) this,
      of "\<lambda>e (w, fds). Some ((w, fds @ [ev_fd e]), Returned 1)" sample_event "[]"] r(2,3)
  show ?thesis by (intro exI [of _ ed']) (simp add: ready_fds_def POLLIN_def sample_event_def)
qed

end
