(* ===== verification/Rip_Main.thy ===== *)
theory Rip_Main
  imports Rip_Recv Rip_Timer Event_Dispatcher Rip_Ipc
begin

text \<open>
  Model of \<^verbatim>\<open>rip.c\<close>: the handlers of the five timers, the aging and the garbage collection of
  routes, triggered updates, the event loop, start and shutdown. The handlers work on the
  context (interfaces, timers, database) and the machine; \<open>Exited\<close> is a \<^verbatim>\<open>PANIC\<close>.

  The two loops that restart their iteration after a removal are partial functions; that they
  return is proved in \<open>Rip_Aging\<close>.
\<close>

section \<open>State\<close>

record rip_timers =
  t_update :: timer
  t_triggered_lock :: timer
  t_request_warmup :: timer
  t_timeout :: timer
  t_gc :: timer

record rip_context =
  config :: rip_configuration
  rip_ifcs :: "rip_ifc da_vec"
  timers :: rip_timers
  ctx_db :: rip_db

definition TIMEOUT_PERIOD_TIMER :: int where "TIMEOUT_PERIOD_TIMER = 15"
definition TIMEOUT_PERIOD_RFC :: int where "TIMEOUT_PERIOD_RFC = 180"
definition GC_PERIOD_TIMER :: int where "GC_PERIOD_TIMER = 5"
definition GC_PERIOD_RFC :: int where "GC_PERIOD_RFC = 120"

definition create_t_update_time :: "('w, 'r, 'n, 'a) os \<Rightarrow> 'w \<Rightarrow> 'w \<times> real" where
  "create_t_update_time os w = (let (w, v) = get_random_float os w (5/2) (15/2) in (w, 55/2 + v))"

text \<open>\<open>None\<close> is the exit of the process.\<close>

definition get_monotonic_time :: "('w, 'r, 'n, 'a) os \<Rightarrow> 'w \<Rightarrow> 'w \<times> timespec option" where
  "get_monotonic_time os w =
     (let (w, ec, ts) = os_clock_gettime os w in if ec \<noteq> 0 then (w, None) else (w, Some ts))"

section \<open>Update and request timers\<close>

definition rip_t_update_expired ::
  "('w, 'r, 'n, 'a) os \<Rightarrow> 'w \<times> rip_context \<Rightarrow> (('w \<times> rip_context) \<times> ret) option" where
  "rip_t_update_expired os = (\<lambda>(w, ctx).
     let (t, w, ec) = timer_clear os w (t_update (timers ctx));
         ctx = ctx\<lparr>timers := (timers ctx)\<lparr>t_update := t\<rparr>\<rparr> in
     if ec \<noteq> 0 then Some ((w, ctx), Exited)
     else do {
       (w, db, ec) \<leftarrow> rip_send_advertisement_multicast os w (ctx_db ctx) (rip_ifcs ctx) False;
       let ctx = ctx\<lparr>ctx_db := db\<rparr>;
       if ec \<noteq> 0 then Some ((w, ctx), Returned 1)
       else let (w, v) = create_t_update_time os w;
                (t, w, ec) = timer_start_oneshot os w (t_update (timers ctx)) v;
                ctx = ctx\<lparr>timers := (timers ctx)\<lparr>t_update := t\<rparr>\<rparr> in
       if ec \<noteq> 0 then Some ((w, ctx), Exited) else Some ((w, ctx), Returned 0)
     })"

definition rip_t_request_warmup_expired ::
  "('w, 'r, 'n, 'a) os \<Rightarrow> 'w \<times> rip_context \<Rightarrow> (('w \<times> rip_context) \<times> ret) option" where
  "rip_t_request_warmup_expired os = (\<lambda>(w, ctx).
     let (t, w, ec) = timer_clear os w (t_request_warmup (timers ctx));
         ctx = ctx\<lparr>timers := (timers ctx)\<lparr>t_request_warmup := t\<rparr>\<rparr> in
     if ec \<noteq> 0 then Some ((w, ctx), Exited)
     else do {
       (w, ec) \<leftarrow> rip_send_request_multicast os w (rip_ifcs ctx);
       Some ((w, ctx), Returned 0)
     })"

definition rip_t_triggered_lock_expired ::
  "('w, 'r, 'n, 'a) os \<Rightarrow> 'w \<times> rip_context \<Rightarrow> (('w \<times> rip_context) \<times> ret) option" where
  "rip_t_triggered_lock_expired os = (\<lambda>(w, ctx).
     let (t, w, ec) = timer_clear os w (t_triggered_lock (timers ctx));
         ctx = ctx\<lparr>timers := (timers ctx)\<lparr>t_triggered_lock := t\<rparr>\<rparr> in
     Some ((w, ctx), if ec \<noteq> 0 then Exited else Returned 0))"

section \<open>Aging of routes\<close>

text \<open>The pointer \<open>r\<close> is to a route in use.\<close>

definition rip_route_timeout_expired ::
  "('w, 'r, 'n, 'a) os \<Rightarrow> 'w \<Rightarrow> rip_db \<Rightarrow> rip_db_ref \<Rightarrow> timespec \<Rightarrow> ('w \<times> rip_db \<times> ret) option" where
  "rip_route_timeout_expired os w db r expired_at = do {
     let route = rip_db_read db r;
     log_route route;
     (w, ec) \<leftarrow> rip_route_delete_route os w route;
     if ec \<noteq> 0 then do {
       (db, ec) \<leftarrow> rip_db_remove (os_malloc os w) db route;
       Some (w, db, if ec \<noteq> 0 then Exited else Returned 1)
     }
     else do {
       let db = rip_db_write db r (\<lambda>route. route\<lparr>changed := True,
             entry := (entry route)\<lparr>metric := htonl 16\<rparr>, in_routing_table := False,
             gc_started_at := expired_at\<rparr>);
       (db, ec) \<leftarrow> rip_db_move_to_garbage (os_malloc os w) db (rip_db_read db r);
       Some (w, db, Returned (if ec \<noteq> 0 then 1 else 0))
     }
   }"

text \<open>The loop of \<^verbatim>\<open>rip_t_timeout_expired\<close>; the boolean is \<^verbatim>\<open>start_gc\<close>.\<close>

partial_function (option) timeout_loop ::
  "('w, 'r, 'n, 'a) os \<Rightarrow> timespec \<Rightarrow> 'w \<Rightarrow> rip_db \<Rightarrow> db_iter \<Rightarrow> bool \<Rightarrow> ('w \<times> rip_db \<times> bool \<times> ret) option" where
  "timeout_loop os now w db iter start_gc =
     (case rip_db_iter db rip_db_ok iter of
        (iter, None) \<Rightarrow> Some (w, db, start_gc, Returned 0)
      | (iter, Some r) \<Rightarrow>
          if is_local (rip_db_read db r) then timeout_loop os now w db iter start_gc
          else let db = rip_db_write db r
                     (\<lambda>route. route\<lparr>timeout_cnt := timeout_cnt route + TIMEOUT_PERIOD_TIMER\<rparr>) in
          if timeout_cnt (rip_db_read db r) \<ge> TIMEOUT_PERIOD_RFC then do {
            (w, db, rc) \<leftarrow> rip_route_timeout_expired os w db r now;
            if rc = Exited then Some (w, db, start_gc, Exited)
            else if rc \<noteq> Returned 0 then Some (w, db, start_gc, Returned 1)
            else timeout_loop os now w db iter_zero True
          }
          else timeout_loop os now w db iter start_gc)"

definition rip_t_timeout_expired ::
  "('w, 'r, 'n, 'a) os \<Rightarrow> 'w \<times> rip_context \<Rightarrow> (('w \<times> rip_context) \<times> ret) option" where
  "rip_t_timeout_expired os = (\<lambda>(w, ctx).
     let (t, w, ec) = timer_clear os w (t_timeout (timers ctx));
         ctx = ctx\<lparr>timers := (timers ctx)\<lparr>t_timeout := t\<rparr>\<rparr> in
     if ec \<noteq> 0 then Some ((w, ctx), Exited)
     else case get_monotonic_time os w of
       (w, None) \<Rightarrow> Some ((w, ctx), Exited)
     | (w, Some now) \<Rightarrow> do {
         (w, db, start_gc, rc) \<leftarrow> timeout_loop os now w (ctx_db ctx) iter_zero False;
         let ctx = ctx\<lparr>ctx_db := db\<rparr>;
         if rc \<noteq> Returned 0 then Some ((w, ctx), rc)
         else
           let (w, ctx) =
                 (if start_gc \<and> \<not> timer_is_ticking (t_gc (timers ctx)) then
                    let (t, w, ec) = timer_start_oneshot os w (t_gc (timers ctx)) (of_int GC_PERIOD_TIMER)
                    in (w, ctx\<lparr>timers := (timers ctx)\<lparr>t_gc := t\<rparr>\<rparr>)
                  else (w, ctx));
               (t, w, ec) = timer_start_oneshot os w (t_timeout (timers ctx)) (of_int TIMEOUT_PERIOD_TIMER);
               ctx = ctx\<lparr>timers := (timers ctx)\<lparr>t_timeout := t\<rparr>\<rparr>
           in Some ((w, ctx), if ec \<noteq> 0 then Exited else Returned 0)
       })"

section \<open>Garbage collection\<close>

definition has_time_passed :: "timespec \<Rightarrow> timespec \<Rightarrow> int \<Rightarrow> bool" where
  "has_time_passed now start_time time \<longleftrightarrow> tv_sec now - tv_sec start_time \<ge> time"

partial_function (option) gc_loop ::
  "(nat \<Rightarrow> bool) \<Rightarrow> timespec \<Rightarrow> rip_db \<Rightarrow> db_iter \<Rightarrow> rip_db option" where
  "gc_loop malloc now db iter =
     (case rip_db_iter db rip_db_garbage iter of
        (iter, None) \<Rightarrow> Some db
      | (iter, Some r) \<Rightarrow>
          if has_time_passed now (gc_started_at (rip_db_read db r)) GC_PERIOD_RFC then do {
            (db, ec) \<leftarrow> rip_db_remove malloc db (rip_db_read db r);
            gc_loop malloc now db iter_zero
          }
          else gc_loop malloc now db iter)"

definition rip_t_gc_expired ::
  "('w, 'r, 'n, 'a) os \<Rightarrow> 'w \<times> rip_context \<Rightarrow> (('w \<times> rip_context) \<times> ret) option" where
  "rip_t_gc_expired os = (\<lambda>(w, ctx).
     let (t, w, ec) = timer_clear os w (t_gc (timers ctx));
         ctx = ctx\<lparr>timers := (timers ctx)\<lparr>t_gc := t\<rparr>\<rparr> in
     if ec \<noteq> 0 then Some ((w, ctx), Exited)
     else case get_monotonic_time os w of
       (w, None) \<Rightarrow> Some ((w, ctx), Exited)
     | (w, Some now) \<Rightarrow> do {
         db \<leftarrow> gc_loop (os_malloc os w) now (ctx_db ctx) iter_zero;
         let ctx = ctx\<lparr>ctx_db := db\<rparr>;
         if rip_db_count db rip_db_garbage > 0 then
           let (t, w, ec) = timer_start_oneshot os w (t_gc (timers ctx)) (of_int GC_PERIOD_TIMER)
           in Some ((w, ctx\<lparr>timers := (timers ctx)\<lparr>t_gc := t\<rparr>\<rparr>), Returned 0)
         else Some ((w, ctx), Returned 0)
       })"

section \<open>Triggered updates and the event loop\<close>

definition check_route_changed ::
  "('w, 'r, 'n, 'a) os \<Rightarrow> 'w \<times> rip_context \<Rightarrow> (('w \<times> rip_context) \<times> int) option" where
  "check_route_changed os = (\<lambda>(w, ctx).
     if timer_is_ticking (t_triggered_lock (timers ctx)) then Some ((w, ctx), 0)
     else if rip_db_any_route_changed (ctx_db ctx) then do {
       (w, db, ec) \<leftarrow> rip_send_advertisement_multicast os w (ctx_db ctx) (rip_ifcs ctx) True;
       let ctx = ctx\<lparr>ctx_db := db\<rparr>;
       if ec \<noteq> 0 then Some ((w, ctx), 1)
       else let (w, v) = get_random_float os w 1 5;
                (t, w, ec) = timer_start_oneshot os w (t_triggered_lock (timers ctx)) v;
                ctx = ctx\<lparr>timers := (timers ctx)\<lparr>t_triggered_lock := t\<rparr>\<rparr> in
       Some ((w, ctx), if ec \<noteq> 0 then 1 else 0)
     }
     else Some ((w, ctx), 0))"

datatype rip_cb = Cb_null | Cb_message | Cb_ipc | Cb_route | Cb_t_update | Cb_t_triggered_lock
  | Cb_t_timeout | Cb_t_gc | Cb_t_request_warmup

datatype rip_arg = Arg_null | Arg_ctx | Arg_ipc_mngr | Arg_route_mngr | Arg_t_triggered_lock

type_synonym rip_event = "(rip_cb, rip_arg) event"

definition zero_event :: rip_event where
  "zero_event = \<lparr>ev_fd = 0, ev_cb = Cb_null, ev_arg = Arg_null, ev_name = []\<rparr>"

text \<open>The callbacks of the two commands of the message queue.\<close>

fun rip_ipc_call ::
  "('w, 'r, 'n, 'a) os \<Rightarrow> rip_db \<Rightarrow> rip_ipc_cmd \<Rightarrow> 'w \<Rightarrow> ('w \<times> string \<times> r_cmd_status) option" where
  "rip_ipc_call os db dump_libnl_route_table w = Some (rip_route_sprintf_table os w)"
| "rip_ipc_call os db dump_rip_routes w = do {
     text \<leftarrow> rip_db_dump (\<lambda>i. os_if_indextoname os w (sint i)) [] db;
     Some (w, text, r_cmd_status_success)
   }"

text \<open>Calling the callback of an event; a null pointer is undefined.\<close>

fun rip_call ::
  "('w, 'r, 'n, 'a) os \<Rightarrow> rip_ipc \<Rightarrow> rip_event \<Rightarrow> 'w \<times> rip_context \<Rightarrow> (('w \<times> rip_context) \<times> ret) option" where
  "rip_call os ri e (w, ctx) = (case ev_cb e of
     Cb_null \<Rightarrow> None
   | Cb_message \<Rightarrow> do {
       (w, db, rc) \<leftarrow> rip_handle_message_event os w (ctx_db ctx) (rip_ifcs ctx) (ev_fd e);
       Some ((w, ctx\<lparr>ctx_db := db\<rparr>), rc)
     }
   | Cb_ipc \<Rightarrow> do {
       (w, rc) \<leftarrow> rip_ipc_handle_event os (rip_ipc_call os (ctx_db ctx)) ri w;
       Some ((w, ctx), rc)
     }
   | Cb_route \<Rightarrow> let (w, rc) = rip_route_handle_event os w in Some ((w, ctx), rc)
   | Cb_t_update \<Rightarrow> rip_t_update_expired os (w, ctx)
   | Cb_t_triggered_lock \<Rightarrow> rip_t_triggered_lock_expired os (w, ctx)
   | Cb_t_timeout \<Rightarrow> rip_t_timeout_expired os (w, ctx)
   | Cb_t_gc \<Rightarrow> rip_t_gc_expired os (w, ctx)
   | Cb_t_request_warmup \<Rightarrow> rip_t_request_warmup_expired os (w, ctx))"

text \<open>One turn of the loop of \<^verbatim>\<open>rip_handle_events\<close>: \<open>Inl\<close> continues, \<open>Inr\<close> leaves the loop.\<close>

definition rip_handle_events_turn ::
  "('w, 'r, 'n, 'a) os \<Rightarrow> rip_ipc \<Rightarrow> (rip_cb, rip_arg) event_dispatcher \<Rightarrow> 'w \<times> rip_context \<Rightarrow>
   (('w \<times> rip_context) + ('w \<times> rip_context) \<times> ret) option" where
  "rip_handle_events_turn os ri ed ws = do {
     (ws, rc) \<leftarrow> event_dispatcher_poll_and_dispatch os (rip_call os ri) zero_event ed ws;
     if rc = Exited then Some (Inr (ws, Exited))
     else if rc \<noteq> Returned 0 then Some (Inr (ws, Returned 1))
     else do {
       (ws, ec) \<leftarrow> check_route_changed os ws;
       Some (if ec \<noteq> 0 then Inr (ws, Returned 0) else Inl ws)
     }
   }"

partial_function (option) rip_handle_events ::
  "('w, 'r, 'n, 'a) os \<Rightarrow> rip_ipc \<Rightarrow> (rip_cb, rip_arg) event_dispatcher \<Rightarrow> 'w \<times> rip_context \<Rightarrow>
   (('w \<times> rip_context) \<times> ret) option" where
  "rip_handle_events os ri ed ws = do {
     r \<leftarrow> rip_handle_events_turn os ri ed ws;
     case r of Inl ws \<Rightarrow> rip_handle_events os ri ed ws | Inr out \<Rightarrow> Some out
   }"

end
