(* ===== verification/Rip_Aging.thy ===== *)
theory Rip_Aging
  imports Rip_Main
begin

text \<open>
  The loops of \<^verbatim>\<open>rip.c\<close> that age routes and collect garbage. Both restart their iteration
  after each removal; a removal shrinks a map, so they return. What they leave behind is
  stated on the maps of the database.
\<close>

section \<open>Collecting garbage\<close>

lemma routes_ok_alt:
  "routes_ok db \<longleftrightarrow> db_inv db \<and> (\<forall>r\<in>db_routes db. wf_route r \<and> (changed r \<longrightarrow> any_route_changed db))"
  by (auto simp: routes_ok_def flag_covers_def)

text \<open>The routes that stay: those whose time has not passed.\<close>

definition keep :: "timespec \<Rightarrow> (route_id \<rightharpoonup> rip_route_description) \<Rightarrow> route_id \<rightharpoonup> rip_route_description" where
  "keep now m = (\<lambda>k. case m k of None \<Rightarrow> None
     | Some r \<Rightarrow> if has_time_passed now (gc_started_at r) GC_PERIOD_RFC then None else Some r)"

lemma keep_removed:
  "m k = Some r \<Longrightarrow> has_time_passed now (gc_started_at r) GC_PERIOD_RFC \<Longrightarrow> keep now (m(k := None)) = keep now m"
  by (auto simp: keep_def)

lemma keep_id:
  "(\<And>k r. m k = Some r \<Longrightarrow> \<not> has_time_passed now (gc_started_at r) GC_PERIOD_RFC) \<Longrightarrow> keep now m = m"
  by (auto simp: keep_def split: option.splits)

lemma pending_in_map:
  assumes "hm_inv key m" "x \<in> set (hm_pending m c)"
  shows "hm_lookup key m (key x) = Some x"
proof -
  have "set (hm_pending m c) \<subseteq> set (items (buckets m))"
    using items_append [of "take c (buckets m)" "drop c (buckets m)"] by (auto simp: hm_pending_def)
  with assms show ?thesis by (auto simp: hm_lookup_Some)
qed

lemma card_dom_clear_less: "finite (dom m) \<Longrightarrow> m k = Some r \<Longrightarrow> card (dom (m(k := None))) < card (dom m)"
  using card.remove [of "dom m" k] by (auto simp: domI)

lemma gc_remove:
  assumes ok: "routes_ok db" and sp: "db_space 1 db" and st: "garbage_map db (route_key x) = Some x"
  obtains db1 s where "rip_db_remove ma db x = Some (db1, s)" "routes_ok db1" "db_space 1 db1"
    "any_route_changed db1 = any_route_changed db" "ok_map db1 = ok_map db"
    "garbage_map db1 = (garbage_map db)(route_key x := None)"
    "card (dom (garbage_map db1)) < card (dom (garbage_map db))"
    "route_key ` set (pend_garbage db1 iter_zero) = dom (garbage_map db1)"
proof -
  from remove_ok [OF ok, of 0 ma x] sp obtain db1 s where
    rm: "rip_db_remove ma db x = Some (db1, s)" "routes_ok db1" "db_space 1 db1"
    "any_route_changed db1 = any_route_changed db"
    "ok_map db1 = (ok_map db)(route_key x := None)" "garbage_map db1 = (garbage_map db)(route_key x := None)"
    by auto
  note inv1 = routes_okD(1) [OF rm(2)]
  have "ok_map db (route_key x) = None" using st db_inv_parts(3) [OF routes_okD(1) [OF ok]] by (auto simp: dom_def)
  then have "ok_map db1 = ok_map db" using rm(5) by (simp add: fun_upd_idem)
  moreover have "card (dom (garbage_map db1)) < card (dom (garbage_map db))"
    unfolding rm(6) using st by (intro card_dom_clear_less) simp_all
  moreover have "route_key ` set (pend_garbage db1 iter_zero) = dom (garbage_map db1)"
    using pend_all(2) [OF inv1] garbage_key [OF inv1] by (force simp: ran_def dom_def)
  ultimately show ?thesis using that rm by blast
qed

text \<open>What the loop promises, and the step in which it removes a route and starts again.\<close>

definition gc_good :: "(nat \<Rightarrow> bool) \<Rightarrow> timespec \<Rightarrow> rip_db \<Rightarrow> db_iter \<Rightarrow> bool" where
  "gc_good ma now db iter \<longleftrightarrow> (\<exists>db'. gc_loop ma now db iter = Some db' \<and> routes_ok db' \<and> db_space 1 db' \<and>
     ok_map db' = ok_map db \<and> garbage_map db' = keep now (garbage_map db) \<and>
     any_route_changed db' = any_route_changed db)"

lemma gc_removed:
  assumes it: "rip_db_iter_garbage db iter = (iter', Some (In_garbage p))" and ok: "routes_ok db" "db_space 1 db"
    and v: "hm_valid (garbage_routes db) p"
    and t: "has_time_passed now (gc_started_at (item_at (garbage_routes db) p)) GC_PERIOD_RFC"
    and g: "\<And>db1. routes_ok db1 \<Longrightarrow> db_space 1 db1 \<Longrightarrow> card (dom (garbage_map db1)) < card (dom (garbage_map db)) \<Longrightarrow>
      route_key ` set (pend_garbage db1 iter_zero) = dom (garbage_map db1) \<Longrightarrow> gc_good ma now db1 iter_zero"
  shows "gc_good ma now db iter"
proof -
  let ?x = "item_at (garbage_routes db) p"
  have st: "garbage_map db (route_key ?x) = Some ?x"
    by (rule hm.valid_stored [OF db_inv_parts(2) [OF routes_okD(1) [OF ok(1)]] v])
  from gc_remove [OF ok st, of ma] obtain db1 s where
    rm: "rip_db_remove ma db ?x = Some (db1, s)" "routes_ok db1" "db_space 1 db1"
    "any_route_changed db1 = any_route_changed db" "ok_map db1 = ok_map db"
    "garbage_map db1 = (garbage_map db)(route_key ?x := None)"
    "card (dom (garbage_map db1)) < card (dom (garbage_map db))"
    "route_key ` set (pend_garbage db1 iter_zero) = dom (garbage_map db1)" by blast
  have "gc_loop ma now db iter = gc_loop ma now db1 iter_zero" using it t rm(1) by (subst gc_loop.simps) simp
  with g [OF rm(2,3,7,8)] rm(4-6) keep_removed [of "garbage_map db" "route_key ?x" ?x, OF st t] show ?thesis
    by (simp add: gc_good_def)
qed

lemma gc_good_all:
  assumes "routes_ok db" "db_space 1 db"
    and "\<And>k r. garbage_map db k = Some r \<Longrightarrow> k \<notin> route_key ` set (pend_garbage db iter) \<Longrightarrow>
      \<not> has_time_passed now (gc_started_at r) GC_PERIOD_RFC"
  shows "gc_good ma now db iter"
  using assms
proof (induction "(card (dom (garbage_map db)), iter_left db iter)" arbitrary: db iter
    rule: wf_induct_rule [OF wf_lex_prod [OF wf_less_than wf_less_than]])
  case 1
  note inv = routes_okD(1) [OF 1(2)]
  obtain iter' r where it: "rip_db_iter_garbage db iter = (iter', r)" by fastforce
  note law = iter_garbage_law [OF inv it]
  show ?case
  proof (cases r)
    case None
    with law(1) have "pend_garbage db iter = []" by auto
    with 1(4) have "keep now (garbage_map db) = garbage_map db" by (intro keep_id) auto
    with 1(2,3) None it show ?thesis unfolding gc_good_def by (subst gc_loop.simps) simp
  next
    case (Some r')
    with law(1) obtain p where p: "r' = In_garbage p" "hm_valid (garbage_routes db) p"
      "pend_garbage db iter = item_at (garbage_routes db) p # pend_garbage db iter'" by auto
    let ?x = "item_at (garbage_routes db) p"
    have st: "garbage_map db (route_key ?x) = Some ?x" by (rule hm.valid_stored [OF db_inv_parts(2) [OF inv] p(2)])
    show ?thesis
    proof (cases "has_time_passed now (gc_started_at ?x) GC_PERIOD_RFC")
      case True
      show ?thesis by (rule gc_removed [OF it [unfolded Some p(1)] 1(2,3) p(2) True], rule 1(1)) auto
    next
      case False
      have "\<not> has_time_passed now (gc_started_at r0) GC_PERIOD_RFC"
        if "garbage_map db k = Some r0" "k \<notin> route_key ` set (pend_garbage db iter')" for k r0
        using 1(4) [OF that(1)] that st False p(3) by (cases "k = route_key ?x") auto
      moreover have "iter_left db iter' < iter_left db iter" using iter_left_garbage it Some by blast
      ultimately have "gc_good ma now db iter'" using 1(1) [OF _ 1(2,3), of iter'] by auto
      with Some it p(1) False show ?thesis unfolding gc_good_def by (subst gc_loop.simps) simp
    qed
  qed
qed

lemmas gc_loop_refines = gc_good_all [unfolded gc_good_def]

section \<open>Aging\<close>

abbreviation age :: "rip_route_description \<Rightarrow> rip_route_description" where
  "age r \<equiv> r\<lparr>timeout_cnt := timeout_cnt r + TIMEOUT_PERIOD_TIMER\<rparr>"

abbreviation expire :: "timespec \<Rightarrow> rip_route_description \<Rightarrow> rip_route_description" where
  "expire now r \<equiv> r\<lparr>changed := True, entry := (entry r)\<lparr>metric := htonl 16\<rparr>,
     in_routing_table := False, gc_started_at := now\<rparr>"

lemma expire_key [simp]: "route_key (expire now r) = route_key r"
  by (simp add: route_key_def)

lemma expire_wf: "wf_route r \<Longrightarrow> wf_route (expire now r)"
  by (simp add: wf_route_def host_metric_def)

lemma age_wf: "wf_route (age r) = wf_route r"
  by (simp add: wf_route_def host_metric_def)

lemma item_at_modify: "hm_inv key m \<Longrightarrow> hm_valid m p \<Longrightarrow> item_at (modify_at m p f) p = f (item_at m p)"
  by (simp add: item_at_def modify_at_def bucket_at_def hm_valid_def hm_inv_def)

lemma expire_moves:
  assumes ok: "routes_ok db" and sp: "db_space 1 db" and v: "hm_valid (ok_routes db) p"
  defines "x \<equiv> item_at (ok_routes db) p"
  obtains db' where "rip_db_move_to_garbage ma (rip_db_write db (In_ok p) (expire now)) (expire now x) = Some (db', 0)"
    "routes_ok db'" "db_space 1 db'" "ok_map db' = (ok_map db)(route_key x := None)"
    "garbage_map db' = (garbage_map db)(route_key x \<mapsto> expire now x) \<or> garbage_map db' = garbage_map db \<and> \<not> (\<forall>n. ma n)"
proof -
  let ?f = "expire now" and ?db = "rip_db_write db (In_ok p) (expire now)"
  note inv = routes_okD(1) [OF ok]
  have st: "ok_map db (route_key x) = Some x"
    unfolding x_def by (rule hm.valid_stored [OF db_inv_parts(1) [OF inv] v])
  have vv: "db_valid db (In_ok p)" using v by simp
  note W = db_write_ok [OF inv vv, of ?f, OF expire_key]
  have ok1: "ok_map ?db = (ok_map db)(route_key x \<mapsto> ?f x)" and g1: "garbage_map ?db = garbage_map db"
    using W(2,3) by (simp_all add: x_def)
  have "dom (ok_map ?db) = dom (ok_map db)" using st unfolding ok1 by auto
  then have sp1: "db_space 1 ?db"
    by (intro db_space_update [OF inv W(1), of 1 0]) (use sp g1 in simp_all)
  have "ok_map ?db (route_key (?f x)) = Some (?f x)" unfolding ok1 expire_key by simp
  from rip_db_move_refines [OF W(1) sp1 this, of ma] obtain db' where
    mv: "rip_db_move_to_garbage ma ?db (?f x) = Some (db', 0)" "db_inv db'" "any_route_changed db'"
    "ok_map db' = (ok_map db)(route_key x := None)"
    "garbage_map db' = (garbage_map db)(route_key x \<mapsto> ?f x) \<or> garbage_map db' = garbage_map db \<and> \<not> (\<forall>n. ma n)"
    unfolding g1 ok1 expire_key fun_upd_upd by auto
  have "db_routes db' \<subseteq> insert (?f x) (db_routes db)"
    using mv(4,5) db_routes_upd(2) [of "ok_map db" "route_key x"]
      db_routes_upd(1) [of "garbage_map db" "route_key x" "?f x"] unfolding db_routes_def by auto
  then have "routes_ok db'"
    using ok mv(2,3) expire_wf [OF routes_okD(3) [OF ok ok_route_in [OF st]]] unfolding routes_ok_alt by blast
  moreover have "db_space 1 db'"
    by (rule db_space_update [OF inv mv(2), of 1 0])
      (use sp mv(4,5) card_dom_move [of "ok_map db" "garbage_map db" "route_key x" x "?f x"] st
        card_dom_clear [of "ok_map db" "route_key x"] in auto)
  ultimately show ?thesis using that mv by blast
qed

lemma timeout_expired_refines:
  assumes ok: "routes_ok db" and sp: "db_space 1 db" and v: "hm_valid (ok_routes db) p"
  defines "x \<equiv> item_at (ok_routes db) p"
  shows "\<exists>w' db' rc. rip_route_timeout_expired os w db (In_ok p) now = Some (w', db', rc) \<and>
    routes_ok db' \<and> db_space 1 db' \<and> ok_map db' = (ok_map db)(route_key x := None) \<and>
    ((\<exists>ec. rip_route_delete_route os w x = Some (w', ec) \<and> ec \<noteq> 0) \<and> rc = Returned 1 \<and>
       garbage_map db' = garbage_map db \<or>
     rip_route_delete_route os w x = Some (w', 0) \<and> rc = Returned 0 \<and>
       (garbage_map db' = (garbage_map db)(route_key x \<mapsto> expire now x) \<or>
        garbage_map db' = garbage_map db \<and> \<not> (\<forall>n. os_malloc os w' n)))"
proof -
  note inv = routes_okD(1) [OF ok]
  have st: "ok_map db (route_key x) = Some x"
    unfolding x_def by (rule hm.valid_stored [OF db_inv_parts(1) [OF inv] v])
  have wf: "wf_route x" by (rule routes_okD(3) [OF ok ok_route_in [OF st]])
  then have m: "route_mask x \<noteq> 0xFFFFFFFF" by (rule wf_mask)
  obtain w' ec where d: "rip_route_delete_route os w x = Some (w', ec)"
    using delete_route_total [OF m, of os w] by auto
  have rd: "rip_db_read db (In_ok p) = x" by (simp add: x_def)
  show ?thesis
  proof (cases "ec = 0")
    case False
    from remove_ok [OF ok, of 0 "os_malloc os w'" x] sp st obtain db1 where
      "rip_db_remove (os_malloc os w') db x = Some (db1, 0)" "routes_ok db1" "db_space 1 db1"
      "ok_map db1 = (ok_map db)(route_key x := None)" "garbage_map db1 = (garbage_map db)(route_key x := None)"
      by (auto simp: domI)
    with d False m db_disjoint [OF inv st] rd show ?thesis
      by (simp add: rip_route_timeout_expired_def log_route_eq fun_upd_idem)
  next
    case True
    from expire_moves [OF ok sp v, of "os_malloc os w'" now, folded x_def] obtain db' where
      mv: "rip_db_move_to_garbage (os_malloc os w') (rip_db_write db (In_ok p) (expire now)) (expire now x) = Some (db', 0)"
      "routes_ok db'" "db_space 1 db'" "ok_map db' = (ok_map db)(route_key x := None)"
      "garbage_map db' = (garbage_map db)(route_key x \<mapsto> expire now x) \<or>
       garbage_map db' = garbage_map db \<and> \<not> (\<forall>n. os_malloc os w' n)" by blast
    have "rip_db_read (rip_db_write db (In_ok p) (expire now)) (In_ok p) = expire now x"
      using item_at_modify [OF db_inv_parts(1) [OF inv] v] by (simp add: x_def)
    then show ?thesis
      using d True m mv rd by (simp add: rip_route_timeout_expired_def log_route_eq)
  qed
qed

text \<open>
  What a pass relates: local routes are untouched, nothing is added to the routes in use,
  nothing leaves the garbage, what enters it was in use, and (if \<open>b\<close>) a route that left the routes in use is in the
  garbage as an expired route.
\<close>

definition expired_at :: "timespec \<Rightarrow> rip_route_description \<Rightarrow> bool" where
  "expired_at now r \<longleftrightarrow> changed r \<and> host_metric r = 16 \<and> \<not> in_routing_table r \<and> gc_started_at r = now \<and> \<not> is_local r"

definition aged :: "bool \<Rightarrow> timespec \<Rightarrow> rip_db \<Rightarrow> rip_db \<Rightarrow> bool" where
  "aged b now db db' \<longleftrightarrow>
     (\<forall>k r. ok_map db k = Some r \<longrightarrow> is_local r \<longrightarrow> ok_map db' k = Some r) \<and>
     dom (ok_map db') \<subseteq> dom (ok_map db) \<and>
     (\<forall>k r. garbage_map db k = Some r \<longrightarrow> garbage_map db' k = Some r) \<and>
     dom (garbage_map db') \<subseteq> dom (garbage_map db) \<union> dom (ok_map db) \<and>
     (b \<longrightarrow> (\<forall>k\<in>dom (ok_map db) - dom (ok_map db'). \<exists>r. garbage_map db' k = Some r \<and> expired_at now r))"

lemma aged_refl: "aged b now db db"
  by (simp add: aged_def)

lemma aged_trans:
  assumes "aged b now db1 db2" "aged b now db2 db3" shows "aged b now db1 db3"
  unfolding aged_def
proof (intro conjI)
  show "\<forall>k r. ok_map db1 k = Some r \<longrightarrow> is_local r \<longrightarrow> ok_map db3 k = Some r"
    using assms unfolding aged_def by (metis (no_types))
  show "dom (ok_map db3) \<subseteq> dom (ok_map db1)"
    using assms unfolding aged_def by (metis (no_types) subset_trans)
  show "\<forall>k r. garbage_map db1 k = Some r \<longrightarrow> garbage_map db3 k = Some r"
    using assms unfolding aged_def by (metis (no_types))
  show "dom (garbage_map db3) \<subseteq> dom (garbage_map db1) \<union> dom (ok_map db1)"
    using assms unfolding aged_def by blast
  show "b \<longrightarrow> (\<forall>k\<in>dom (ok_map db1) - dom (ok_map db3). \<exists>r. garbage_map db3 k = Some r \<and> expired_at now r)"
  proof (intro impI ballI)
  fix k assume b and k: "k \<in> dom (ok_map db1) - dom (ok_map db3)"
  show "\<exists>r. garbage_map db3 k = Some r \<and> expired_at now r"
  proof (cases "k \<in> dom (ok_map db2)")
    case True
    with \<open>b\<close> k assms(2) show ?thesis by (simp add: aged_def)
  next
    case False
    with \<open>b\<close> k assms(1) obtain r where "garbage_map db2 k = Some r" "expired_at now r"
      unfolding aged_def by blast
    with assms(2) show ?thesis unfolding aged_def by blast
  qed
  qed
qed

lemma aged_write:
  assumes "ok_map db' = (ok_map db)(route_key x \<mapsto> y)" "garbage_map db' = garbage_map db"
    "ok_map db (route_key x) = Some x" "\<not> is_local x"
  shows "aged b now db db'"
  using assms unfolding aged_def by (auto simp: domIff)

lemma aged_moved:
  assumes "ok_map db' = (ok_map db)(route_key x := None)" "ok_map db (route_key x) = Some x" "\<not> is_local x"
    and "garbage_map db' = (garbage_map db)(route_key x \<mapsto> expire now x)" "garbage_map db (route_key x) = None"
  shows "aged b now db db'"
proof -
  have "expired_at now (expire now x)" using assms(3) by (simp add: expired_at_def host_metric_def)
  with assms show ?thesis unfolding aged_def by (auto simp: domIff split: if_splits)
qed

lemma aged_dropped:
  assumes "ok_map db' = (ok_map db)(route_key x := None)" "ok_map db (route_key x) = Some x" "\<not> is_local x"
    and "garbage_map db' = garbage_map db"
  shows "aged False now db db'"
  using assms unfolding aged_def by (auto simp: domIff)

lemma aged_weaken: "aged b now db db' \<Longrightarrow> aged False now db db'"
  by (simp add: aged_def)

lemma timeout_expired_aged:
  assumes ok: "routes_ok db" and sp: "db_space 1 db" and v: "hm_valid (ok_routes db) p"
    and nl: "\<not> is_local (item_at (ok_routes db) p)"
  shows "\<exists>w' db' rc. rip_route_timeout_expired os w db (In_ok p) now = Some (w', db', rc) \<and>
    rc \<in> {Returned 0, Returned 1} \<and> routes_ok db' \<and> db_space 1 db' \<and>
    card (dom (ok_map db')) < card (dom (ok_map db)) \<and>
    aged (rc = Returned 0 \<and> memory_ok os) now db db'"
proof -
  let ?x = "item_at (ok_routes db) p"
  note inv = routes_okD(1) [OF ok]
  have st: "ok_map db (route_key ?x) = Some ?x" by (rule hm.valid_stored [OF db_inv_parts(1) [OF inv] v])
  from timeout_expired_refines [OF ok sp v, of os w now] obtain w' db' rc where
    e: "rip_route_timeout_expired os w db (In_ok p) now = Some (w', db', rc)" "routes_ok db'" "db_space 1 db'"
    and o: "ok_map db' = (ok_map db)(route_key ?x := None)"
    and alt: "rc = Returned 1 \<and> garbage_map db' = garbage_map db \<or> rc = Returned 0 \<and>
       (garbage_map db' = (garbage_map db)(route_key ?x \<mapsto> expire now ?x) \<or>
        garbage_map db' = garbage_map db \<and> \<not> (\<forall>n. os_malloc os w' n))" by blast
  have "card (dom (ok_map db')) < card (dom (ok_map db))"
    unfolding o using st by (intro card_dom_clear_less) simp_all
  moreover have "aged (rc = Returned 0 \<and> memory_ok os) now db db'"
    using alt
  proof (elim disjE conjE)
    assume "garbage_map db' = garbage_map db" "\<not> (\<forall>n. os_malloc os w' n)"
    then have "\<not> memory_ok os" "aged False now db db'"
      using aged_dropped [OF o st nl] unfolding memory_ok_def by blast+
    then show ?thesis by simp
  qed (use aged_moved [OF o st nl _ db_disjoint [OF inv st]] aged_dropped [OF o st nl] in simp_all)
  ultimately show ?thesis using e alt by auto
qed

lemma age_refines:
  assumes ok: "routes_ok db" and sp: "db_space 1 db" and v: "hm_valid (ok_routes db) p"
    and nl: "\<not> is_local (item_at (ok_routes db) p)"
  defines "db1 \<equiv> rip_db_write db (In_ok p) age" and "x \<equiv> item_at (ok_routes db) p"
  shows "routes_ok db1" "db_space 1 db1" "ok_map db1 = (ok_map db)(route_key x \<mapsto> age x)"
    "dom (ok_map db1) = dom (ok_map db)" "hm_valid (ok_routes db1) p"
    "item_at (ok_routes db1) p = age x" "aged b now db db1"
proof -
  note inv = routes_okD(1) [OF ok]
  have st: "ok_map db (route_key x) = Some x"
    unfolding x_def by (rule hm.valid_stored [OF db_inv_parts(1) [OF inv] v])
  have vv: "db_valid db (In_ok p)" using v by simp
  have k: "\<And>r. route_key (age r) = route_key r" by simp
  note W = db_write_ok [OF inv vv, of age, OF k, folded db1_def]
  show o: "ok_map db1 = (ok_map db)(route_key x \<mapsto> age x)" using W(2) by (simp add: x_def)
  have g: "garbage_map db1 = garbage_map db" using W(3) by simp
  show d: "dom (ok_map db1) = dom (ok_map db)" unfolding o using st by auto
  have "db_routes db1 \<subseteq> insert (age x) (db_routes db)"
    unfolding db_routes_def o g using db_routes_upd(1) [of "ok_map db" "route_key x" "age x"] by blast
  moreover have "any_route_changed db1 = any_route_changed db" by (simp add: db1_def)
  ultimately show "routes_ok db1"
    using ok W(1) ok_route_in [OF st] age_wf unfolding routes_ok_alt by fastforce
  show "db_space 1 db1"
    by (rule db_space_update [OF inv W(1), of 1 0]) (use sp d g in simp_all)
  show "hm_valid (ok_routes db1) p"
    using v hm_invD(2) [OF db_inv_parts(1) [OF inv]]
    by (auto simp: db1_def hm_valid_def modify_at_def bucket_at_def)
  show "item_at (ok_routes db1) p = age x"
    using item_at_modify [OF db_inv_parts(1) [OF inv] v] by (simp add: db1_def x_def)
  show "aged b now db db1" using aged_write [OF o g st] nl by (simp add: x_def)
qed

text \<open>A pass in which no route expires: every learned route is aged once.\<close>

definition tick :: "rip_route_description \<Rightarrow> rip_route_description" where
  "tick r = (if is_local r then r else age r)"

lemma tick_key [simp]: "route_key (tick r) = route_key r"
  by (simp add: tick_def)

lemma quiet_loop:
  assumes "db_inv db"
    and "\<forall>x\<in>set (hm_pending (ok_routes db) (ok_routes_iter iter)). is_local x \<or> timeout_cnt (age x) < TIMEOUT_PERIOD_RFC"
  shows "\<exists>db'. timeout_loop os now w db iter sg = Some (w, db', sg, Returned 0) \<and> db_inv db' \<and>
    any_route_changed db' = any_route_changed db \<and> garbage_map db' = garbage_map db \<and>
    ok_map db' = map_routes tick (route_key ` set (hm_pending (ok_routes db) (ok_routes_iter iter))) (ok_map db)"
  using assms
proof (induction "iter_left db iter" arbitrary: db iter rule: less_induct)
  case less
  let ?P = "\<lambda>db iter. hm_pending (ok_routes db) (ok_routes_iter iter)"
  obtain iter' r where it: "rip_db_iter_ok db iter = (iter', r)" by fastforce
  note law = iter_ok_law [OF less.prems(1) it]
  show ?case
  proof (cases r)
    case None
    with law(1) it less.prems show ?thesis by (subst timeout_loop.simps) simp
  next
    case (Some r')
    with law(1) obtain p where p: "r' = In_ok p" "hm_valid (ok_routes db) p"
      "?P db iter = item_at (ok_routes db) p # ?P db iter'"
      "\<And>f. hm_pending (modify_at (ok_routes db) p f) (ok_routes_iter iter') = ?P db iter'" by auto
    let ?x = "item_at (ok_routes db) p" and ?db = "rip_db_write db (In_ok p) age"
    define db1 where "db1 = (if is_local ?x then db else ?db)"
    have v: "db_valid db (In_ok p)" using p(2) by simp
    have st: "ok_map db (route_key ?x) = Some ?x" by (rule hm.valid_stored [OF db_inv_parts(1) [OF less.prems(1)] p(2)])
    have k: "\<And>r. route_key (age r) = route_key r" by simp
    note W = db_write_ok [OF less.prems(1) v, of age, OF k]
    have d1: "db_inv db1" "garbage_map db1 = garbage_map db" "any_route_changed db1 = any_route_changed db"
      "ok_map db1 = (ok_map db)(route_key ?x \<mapsto> tick ?x)" "?P db1 iter' = ?P db iter'"
      using W less.prems(1) st p(4) by (simp_all add: db1_def tick_def fun_upd_idem)
    have rd: "rip_db_read ?db (In_ok p) = age ?x" "rip_db_read db (In_ok p) = ?x"
      using item_at_modify [OF db_inv_parts(1) [OF less.prems(1)] p(2)] by simp_all
    have "is_local ?x \<or> timeout_cnt (age ?x) < TIMEOUT_PERIOD_RFC" using less.prems(2) p(3) by simp
    then have step: "timeout_loop os now w db iter sg = timeout_loop os now w db1 iter' sg"
      using it Some p(1) rd by (subst timeout_loop.simps) (auto simp: db1_def)
    have "iter_left db1 iter' = iter_left db iter'" by (simp add: db1_def del: rip_db_write.simps)
    then have less1: "iter_left db1 iter' < iter_left db iter" using iter_left_ok(1) it Some by auto
    have fr: "\<forall>x\<in>set (?P db1 iter'). is_local x \<or> timeout_cnt (age x) < TIMEOUT_PERIOD_RFC"
      using less.prems(2) p(3) d1(5) by simp
    have "route_key ?x \<notin> route_key ` set (?P db iter')"
      using hm.pending_once [OF db_inv_parts(1) [OF less.prems(1)], of "ok_routes_iter iter"] p(3) by simp
    from map_routes_step [of "ok_map db" ?x, OF st this, of tick] less.hyps [OF less1 d1(1) fr] d1 p(3) step
    show ?thesis by auto
  qed
qed

definition timeout_post ::
  "('w, 'r, 'n, 'a) os \<Rightarrow> timespec \<Rightarrow> rip_db \<Rightarrow> bool \<Rightarrow> 'w \<Rightarrow> rip_db \<Rightarrow> bool \<Rightarrow> ret \<Rightarrow> bool" where
  "timeout_post os now db sg w' db' g rc \<longleftrightarrow>
    rc \<in> {Returned 0, Returned 1} \<and> routes_ok db' \<and> db_space 1 db' \<and>
    aged (rc = Returned 0 \<and> memory_ok os) now db db' \<and>
    (rc = Returned 0 \<longrightarrow> (\<forall>r\<in>ran (ok_map db'). is_local r \<or> timeout_cnt r < TIMEOUT_PERIOD_RFC)) \<and>
    (rc = Returned 0 \<longrightarrow> (g \<longleftrightarrow> sg \<or> dom (ok_map db') \<noteq> dom (ok_map db)))"

lemma timeout_post_step:
  assumes "timeout_post os now db1 sg w' db' g rc" "\<And>b. aged b now db db1" "dom (ok_map db1) = dom (ok_map db)"
  shows "timeout_post os now db sg w' db' g rc"
  using assms(1,3) aged_trans [OF assms(2)] by (simp add: timeout_post_def)

lemma timeout_post_expired:
  assumes post: "timeout_post os now db2 True w' db' g rc" and ag: "\<And>b. aged b now db db1"
    "aged (memory_ok os) now db1 db2"
    and lt: "card (dom (ok_map db2)) < card (dom (ok_map db))"
  shows "timeout_post os now db sg w' db' g rc"
proof -
  have p: "aged (rc = Returned 0 \<and> memory_ok os) now db2 db'" using post by (simp add: timeout_post_def)
  then have "dom (ok_map db') \<subseteq> dom (ok_map db2)" by (simp add: aged_def)
  then have "card (dom (ok_map db')) \<le> card (dom (ok_map db2))" by (intro card_mono) simp_all
  then have "dom (ok_map db') \<noteq> dom (ok_map db)" using lt by auto
  moreover have "aged (rc = Returned 0 \<and> memory_ok os) now db1 db2"
    using ag(2) aged_weaken [OF ag(2)] by (cases "rc = Returned 0") auto
  ultimately show ?thesis
    using post aged_trans [OF ag(1) aged_trans [OF _ p]] by (simp add: timeout_post_def)
qed

lemma timeout_post_failed:
  assumes "rc \<in> {Returned 0, Returned 1}" "routes_ok db'" "db_space 1 db'"
    "aged (rc = Returned 0 \<and> memory_ok os) now db db'" "rc \<noteq> Returned 0"
  shows "timeout_post os now db sg w' db' g (Returned 1)"
  using assms by (auto simp: timeout_post_def)

text \<open>The routes an iteration has passed are local, or fresh and as \<open>Q\<close> says.\<close>

abbreviation fresh :: "(rip_route_description \<Rightarrow> bool) \<Rightarrow> rip_route_description \<Rightarrow> bool" where
  "fresh Q r \<equiv> is_local r \<or> timeout_cnt r < TIMEOUT_PERIOD_RFC \<and> Q r"

definition passed_fresh :: "(rip_route_description \<Rightarrow> bool) \<Rightarrow> rip_db \<Rightarrow> db_iter \<Rightarrow> bool" where
  "passed_fresh Q db iter \<longleftrightarrow> (\<forall>k r. ok_map db k = Some r \<longrightarrow>
     k \<notin> route_key ` set (hm_pending (ok_routes db) (ok_routes_iter iter)) \<longrightarrow> fresh Q r)"

lemma passed_fresh_start:
  assumes "db_inv db" shows "passed_fresh Q db iter_zero"
proof -
  have "route_key ` set (hm_pending (ok_routes db) 0) = dom (ok_map db)"
    using hm.pending_all [OF db_inv_parts(1) [OF assms]] ok_key [OF assms] by (force simp: ran_def dom_def)
  then show ?thesis by (simp add: passed_fresh_def domIff)
qed

lemma passed_fresh_end:
  "passed_fresh Q db iter \<Longrightarrow> hm_pending (ok_routes db) (ok_routes_iter iter) = [] \<Longrightarrow> \<forall>r\<in>ran (ok_map db). fresh Q r"
  unfolding passed_fresh_def ran_def by fastforce

lemma passed_fresh_step:
  assumes "passed_fresh Q db iter" "ok_map db (route_key x) = Some x" "fresh Q y"
    and "hm_pending (ok_routes db) (ok_routes_iter iter) = x # hm_pending (ok_routes db) (ok_routes_iter iter')"
    and "ok_map db1 = (ok_map db)(route_key x \<mapsto> y)"
    and "hm_pending (ok_routes db1) (ok_routes_iter iter') = hm_pending (ok_routes db) (ok_routes_iter iter')"
  shows "passed_fresh Q db1 iter'"
  unfolding passed_fresh_def
proof (intro allI impI)
  fix k r assume k: "ok_map db1 k = Some r" "k \<notin> route_key ` set (hm_pending (ok_routes db1) (ok_routes_iter iter'))"
  show "fresh Q r"
  proof (cases "k = route_key x")
    case True
    with k(1) assms(3,5) show ?thesis by simp
  next
    case False
    then have "ok_map db k = Some r" "k \<notin> route_key ` set (hm_pending (ok_routes db) (ok_routes_iter iter))"
      using k assms(4-6) by simp_all
    with assms(1) show ?thesis unfolding passed_fresh_def by blast
  qed
qed

text \<open>
  The contract of the loop with a predicate \<open>J\<close> on the machine and the database: if aging a route
  and expiring a route keep it, the whole pass keeps it. If under \<open>J\<close> a route has \<open>Q\<close> once it is aged, then
  every learned route has it after a pass that succeeds; and a pass fails only if \<open>may_fail\<close>.
\<close>

locale timeout_pass =
  fixes os :: "('w, 'r, 'n, 'a) os" and now :: timespec and J :: "'w \<Rightarrow> rip_db \<Rightarrow> bool"
    and Q :: "rip_route_description \<Rightarrow> bool" and may_fail :: bool
  assumes age_keeps: "J w db \<Longrightarrow> routes_ok db \<Longrightarrow> hm_valid (ok_routes db) p \<Longrightarrow> \<not> is_local (item_at (ok_routes db) p) \<Longrightarrow>
      J w (rip_db_write db (In_ok p) age)"
    and expire_keeps: "J w db \<Longrightarrow> routes_ok db \<Longrightarrow> db_space 1 db \<Longrightarrow> hm_valid (ok_routes db) p \<Longrightarrow>
      rip_route_timeout_expired os w db (In_ok p) now = Some (w', db', rc) \<Longrightarrow> J w' db'"
    and expire_returns: "J w db \<Longrightarrow> routes_ok db \<Longrightarrow> db_space 1 db \<Longrightarrow> hm_valid (ok_routes db) p \<Longrightarrow>
      rip_route_timeout_expired os w db (In_ok p) now = Some (w', db', rc) \<Longrightarrow> rc = Returned 0 \<or> may_fail"
    and aged_Q: "J w db \<Longrightarrow> ok_map db k = Some r \<Longrightarrow> \<not> is_local r \<Longrightarrow> Q (age r)"
begin

text \<open>What the pass promises besides \<open>timeout_post\<close>.\<close>

definition pass_done :: "'w \<Rightarrow> rip_db \<Rightarrow> ret \<Rightarrow> bool" where
  "pass_done w' db' rc \<longleftrightarrow> J w' db' \<and> (rc = Returned 0 \<or> may_fail) \<and>
     (rc = Returned 0 \<longrightarrow> (\<forall>r\<in>ran (ok_map db'). is_local r \<or> Q r))"

lemma expire_step:
  assumes ok: "routes_ok db" and sp: "db_space 1 db" and j: "J w db" and v: "hm_valid (ok_routes db) p"
    and nl: "\<not> is_local (item_at (ok_routes db) p)"
  defines "db1 \<equiv> rip_db_write db (In_ok p) age"
  obtains w2 db2 rc where "rip_route_timeout_expired os w db1 (In_ok p) now = Some (w2, db2, rc)"
    "rc \<in> {Returned 0, Returned 1}" "routes_ok db2" "db_space 1 db2" "J w2 db2" "rc = Returned 0 \<or> may_fail"
    "card (dom (ok_map db2)) < card (dom (ok_map db))" "aged (rc = Returned 0 \<and> memory_ok os) now db1 db2"
proof -
  note A = age_refines [OF ok sp v nl, folded db1_def]
  have "J w db1" unfolding db1_def by (rule age_keeps [OF j ok v nl])
  note e = expire_keeps [OF this A(1,2,5)] expire_returns [OF this A(1,2,5)]
  have "\<not> is_local (item_at (ok_routes db1) p)" using nl A(6) by simp
  from timeout_expired_aged [OF A(1,2,5) this, of os w now] e A(4) that show ?thesis by auto
qed

definition good_pass :: "'w \<Rightarrow> rip_db \<Rightarrow> db_iter \<Rightarrow> bool \<Rightarrow> bool" where
  "good_pass w db iter sg \<longleftrightarrow> (\<exists>w' db' g rc. timeout_loop os now w db iter sg = Some (w', db', g, rc) \<and>
     timeout_post os now db sg w' db' g rc \<and> pass_done w' db' rc)"

text \<open>The four ways in which the loop goes on: it is over, or the route is local, aged or expired.\<close>

lemma pass_end:
  assumes "rip_db_iter_ok db iter = (iter', None)" "routes_ok db" "db_space 1 db" "J w db" "\<forall>r\<in>ran (ok_map db). fresh Q r"
  shows "good_pass w db iter sg"
  unfolding good_pass_def using assms aged_refl
  by (subst timeout_loop.simps) (auto simp: timeout_post_def pass_done_def)

lemma pass_local:
  assumes "rip_db_iter_ok db iter = (iter', Some (In_ok p))" "is_local (item_at (ok_routes db) p)" "good_pass w db iter' sg"
  shows "good_pass w db iter sg"
  using assms unfolding good_pass_def by (subst timeout_loop.simps) simp

lemma pass_aged:
  assumes it: "rip_db_iter_ok db iter = (iter', Some (In_ok p))" and ok: "routes_ok db" "db_space 1 db"
    and v: "hm_valid (ok_routes db) p" and nl: "\<not> is_local (item_at (ok_routes db) p)"
    and fr: "timeout_cnt (age (item_at (ok_routes db) p)) < TIMEOUT_PERIOD_RFC"
    and g: "good_pass w (rip_db_write db (In_ok p) age) iter' sg"
  shows "good_pass w db iter sg"
proof -
  note A = age_refines [OF ok v nl]
  have "rip_db_read (rip_db_write db (In_ok p) age) (In_ok p) = age (item_at (ok_routes db) p)" using A(6) by simp
  then have "timeout_loop os now w db iter sg = timeout_loop os now w (rip_db_write db (In_ok p) age) iter' sg"
    using it nl fr by (subst timeout_loop.simps) simp
  with g timeout_post_step [OF _ A(7) A(4)] show ?thesis unfolding good_pass_def by auto
qed

lemma pass_expired:
  assumes it: "rip_db_iter_ok db iter = (iter', Some (In_ok p))" and ok: "routes_ok db" "db_space 1 db" "J w db"
    and v: "hm_valid (ok_routes db) p" and nl: "\<not> is_local (item_at (ok_routes db) p)"
    and ex: "timeout_cnt (age (item_at (ok_routes db) p)) \<ge> TIMEOUT_PERIOD_RFC"
    and g: "\<And>w2 db2. routes_ok db2 \<Longrightarrow> db_space 1 db2 \<Longrightarrow> J w2 db2 \<Longrightarrow>
      card (dom (ok_map db2)) < card (dom (ok_map db)) \<Longrightarrow> good_pass w2 db2 iter_zero True"
  shows "good_pass w db iter sg"
proof -
  let ?db = "rip_db_write db (In_ok p) age"
  note A = age_refines [OF ok(1,2) v nl]
  have rd: "rip_db_read ?db (In_ok p) = age (item_at (ok_routes db) p)" using A(6) by simp
  from expire_step [OF ok v nl] obtain w2 db2 rc where
    e: "rip_route_timeout_expired os w ?db (In_ok p) now = Some (w2, db2, rc)" "rc \<in> {Returned 0, Returned 1}"
    "routes_ok db2" "db_space 1 db2" and j: "J w2 db2" "rc = Returned 0 \<or> may_fail"
    and lt: "card (dom (ok_map db2)) < card (dom (ok_map db))"
    and ag: "aged (rc = Returned 0 \<and> memory_ok os) now ?db db2" by blast
  have step: "timeout_loop os now w db iter sg =
      (if rc = Returned 0 then timeout_loop os now w2 db2 iter_zero True else Some (w2, db2, sg, Returned 1))"
    using e(1,2) it nl rd ex by (subst timeout_loop.simps) auto
  from g [OF e(3,4) j(1) lt] show ?thesis
    using step timeout_post_expired [OF _ A(7) _ lt] ag timeout_post_failed [OF e(2-4) aged_trans [OF A(7) ag]] j
    unfolding good_pass_def pass_done_def by (cases "rc = Returned 0") auto
qed

lemma good_pass_all:
  assumes "routes_ok db" "db_space 1 db" "passed_fresh Q db iter" "J w db"
  shows "good_pass w db iter sg"
  using assms
proof (induction "(card (dom (ok_map db)), iter_left db iter)" arbitrary: db iter w sg
    rule: wf_induct_rule [OF wf_lex_prod [OF wf_less_than wf_less_than]])
  case 1
  note inv = routes_okD(1) [OF 1(2)]
  let ?P = "\<lambda>db iter. hm_pending (ok_routes db) (ok_routes_iter iter)"
  obtain iter' r where it: "rip_db_iter_ok db iter = (iter', r)" by fastforce
  note law = iter_ok_law [OF inv it]
  show ?case
  proof (cases r)
    case None
    with law(1) have "?P db iter = []" by auto
    from pass_end [OF it [unfolded None] 1(2,3,5) passed_fresh_end [OF 1(4) this]] show ?thesis .
  next
    case (Some r')
    with law(1) obtain p where p: "r' = In_ok p" "hm_valid (ok_routes db) p"
      "?P db iter = item_at (ok_routes db) p # ?P db iter'"
      "\<And>f. hm_pending (modify_at (ok_routes db) p f) (ok_routes_iter iter') = ?P db iter'" by auto
    let ?x = "item_at (ok_routes db) p" and ?db = "rip_db_write db (In_ok p) age"
    note it' = it [unfolded Some p(1)]
    have st: "ok_map db (route_key ?x) = Some ?x" by (rule hm.valid_stored [OF db_inv_parts(1) [OF inv] p(2)])
    have less: "iter_left db iter' < iter_left db iter" using iter_left_ok(1) it Some by blast
    consider "is_local ?x" | "\<not> is_local ?x" "timeout_cnt (age ?x) \<ge> TIMEOUT_PERIOD_RFC"
      | "\<not> is_local ?x" "timeout_cnt (age ?x) < TIMEOUT_PERIOD_RFC" by linarith
    then show ?thesis
    proof cases
      case local: 1
      have "passed_fresh Q db iter'"
        by (rule passed_fresh_step [OF 1(4) st _ p(3), of ?x]) (use local st in \<open>simp_all add: fun_upd_idem\<close>)
      from 1(1) [OF _ 1(2,3) this 1(5)] less show ?thesis by (intro pass_local [OF it' local]) simp
    next
      case 2
      show ?thesis
        by (rule pass_expired [OF it' 1(2,3,5) p(2) 2], rule 1(1)) (auto intro: passed_fresh_start routes_okD(1))
    next
      case 3
      note A = age_refines [OF 1(2,3) p(2) 3(1)]
      have "passed_fresh Q ?db iter'"
        by (rule passed_fresh_step [OF 1(4) st _ p(3) A(3)]) (use 3 p(4) aged_Q [OF 1(5) st 3(1)] in simp_all)
      moreover have "iter_left ?db iter' < iter_left db iter" using less by (simp del: rip_db_write.simps)
      ultimately show ?thesis using 1(1) [OF _ A(1,2) _ age_keeps [OF 1(5,2) p(2) 3(1)], of iter'] A(4)
        by (intro pass_aged [OF it' 1(2,3) p(2) 3]) (simp del: rip_db_write.simps)
    qed
  qed
qed

lemmas timeout_loop_refines = good_pass_all [unfolded good_pass_def]

end

interpretation tp: timeout_pass os now "\<lambda>w db. True" "\<lambda>r. True" True for os now
  by unfold_locales simp_all

end
