(* ===== verification/Rip_Loop.thy ===== *)
theory Rip_Loop
  imports Rip_Aging
begin

text \<open>
  The event loop of \<^verbatim>\<open>rip.c\<close> as a state machine: what each handler keeps, that the handlers of
  the garbage collection and timeout timers return and what they leave, triggered updates, and
  the invariant of every state the loop reaches. The handlers are the callbacks of the event
  dispatcher; the interpretation of \<open>polled_callbacks\<close> discharges its contract for them.
\<close>

section \<open>Handlers keep the invariant\<close>

lemma handle_entry_keeps:
  assumes ok: "routes_ok db" and sp: "db_space (n + 1) db"
    and h: "handle_ripv2_entry os w db e s i = Some (w', db', st)"
  shows "routes_ok db' \<and> db_space n db'"
proof -
  obtain b where b: "is_entry_valid (rip2_entry_ntoh e) = Some b"
    using h unfolding handle_ripv2_entry_def Let_def by (auto dest!: bind_eq_Some_conv [THEN iffD1])
  have "subnet_mask e \<noteq> 0xFFFFFFFF \<or> b = False"
    using b valid_mask_not_ones [of "subnet_mask e"] entry_valid_iff [of "rip2_entry_ntoh e"] by (cases b) auto
  then show ?thesis
  proof
    assume "b = False"
    with b handle_entry_invalid [of e os w db s i] h ok db_space_le [OF sp, of n] show ?thesis by simp
  qed (use handle_entry_total [OF ok sp, of e os w s i] h in auto)
qed

lemma handle_entries_keeps:
  assumes "routes_ok db" "db_space (n + length es) db" "handle_entries os w db es s i ret = Some (w', db', st)"
  shows "routes_ok db' \<and> db_space n db'"
  using assms
proof (induction es arbitrary: w db ret)
  case (Cons e es)
  from Cons.prems(3) obtain w1 db1 st1 where h: "handle_ripv2_entry os w db e s i = Some (w1, db1, st1)"
    "handle_entries os w1 db1 es s i (if st1 \<noteq> 0 then 1 else ret) = Some (w', db', st)"
    by (auto simp: bind_eq_Some_conv)
  have "db_space (n + length es + 1) db" using Cons.prems(2) by simp
  from handle_entry_keeps [OF Cons.prems(1) this h(1)] Cons.IH [OF _ _ h(2)] show ?case by blast
qed simp

text \<open>\<^verbatim>\<open>recvfrom\<close> fills the message buffer of the caller, which has 500 entries.\<close>

definition buffer_law :: "('w, 'r, 'n, 'a) os \<Rightarrow> bool" where
  "buffer_law os \<longleftrightarrow> (\<forall>w fd n w' nb snd_addr buff. os_recvfrom os w fd n = (w', nb, snd_addr, buff) \<longrightarrow>
     length (entries buff) = msg_buffer_entries)"

lemma message_keeps:
  assumes ok: "routes_ok db" and sp: "db_space (n + 500) db" and law: "buffer_law os"
    and h: "rip_handle_message_event os w db ifcs fd = Some (w', db', rc)"
  shows "routes_ok db' \<and> db_space n db'"
proof -
  have le: "db_space n db" by (rule db_space_le [OF sp]) simp
  show ?thesis
  proof (cases "db' = db")
    case False
    with h obtain sock where s: "rip_find_rx_socket_by_fd (da_items ifcs) fd = Some sock"
      by (auto simp: rip_handle_message_event_def split: option.splits)
    obtain w1 nb sender buff where rv: "os_recvfrom os w (sock_fd sock) sizeof_msg_buffer = (w1, nb, sender, buff)"
      by (metis prod_cases4)
    let ?n = "unat (calculate_entries_count (word_of_int nb))"
    from h s rv False obtain st where
      r: "rip_handle_response os w1 db (entries buff) ?n sender (sock_if_index sock) = Some (w', db', st)"
      by (auto simp: rip_handle_message_event_def rip_recvfrom_def Let_def bind_eq_Some_conv split: if_splits)
    have len: "length (entries buff) = 500" using law rv by (simp add: buffer_law_def msg_buffer_entries_def)
    let ?es = "take ?n (entries buff)"
    have "length ?es \<le> 500" using len by simp
    then have "db_space (n + length ?es) db" by (intro db_space_le [OF sp]) simp
    moreover from r have "handle_entries os w1 db ?es sender (sock_if_index sock) 0 = Some (w', db', st)"
      unfolding rip_handle_response_def by (auto split: if_splits)
    ultimately show ?thesis by (rule handle_entries_keeps [OF ok])
  qed (use ok le in simp)
qed

text \<open>What marking the routes as unchanged keeps.\<close>

lemma mark_unchanged_ok:
  assumes "routes_ok db"
  defines "db' \<equiv> rip_db_mark_all_routes_as_unchanged db"
  shows "routes_ok db'" "db_space n db' = db_space n db" "\<forall>r\<in>db_routes db'. \<not> changed r" "\<not> any_route_changed db'"
proof -
  note inv = routes_okD(1) [OF assms(1)]
  note m = mark_unchanged_refines [OF inv routes_okD(2) [OF assms(1)], folded db'_def]
  have rts: "db_routes db' = (\<lambda>r. r\<lparr>changed := False\<rparr>) ` db_routes db"
    unfolding db_routes_def m(3,4) ran_map_option by blast
  then show nc: "\<forall>r\<in>db_routes db'. \<not> changed r" by auto
  show "\<not> any_route_changed db'" by (rule m(2))
  show "routes_ok db'" using m(1) nc rts routes_okD(3) [OF assms(1)] unfolding routes_ok_alt by auto
  have "dom (ok_map db') = dom (ok_map db)" "dom (garbage_map db') = dom (garbage_map db)"
    unfolding m(3,4) by (auto simp: dom_def)
  then show "db_space n db' = db_space n db"
    unfolding db_space_def db_count_all [OF inv] db_count_all [OF m(1)] by simp
qed

lemma multicast_db:
  "rip_send_advertisement_multicast os w db ifcs oc = Some (w', db', st) \<Longrightarrow>
     db' = rip_db_mark_all_routes_as_unchanged db"
  by (auto simp: rip_send_advertisement_multicast_def Let_def bind_eq_Some_conv)

lemma update_handler_db:
  assumes "rip_t_update_expired os (w, ctx) = Some ((w', ctx'), rc)"
  shows "ctx_db ctx' \<in> {ctx_db ctx, rip_db_mark_all_routes_as_unchanged (ctx_db ctx)}"
  using assms unfolding rip_t_update_expired_def
  by (auto simp: bind_eq_Some_conv Let_def dest: multicast_db split: if_splits prod.splits)

lemma check_route_changed_db:
  assumes "check_route_changed os (w, ctx) = Some ((w', ctx'), ec)"
  shows "ctx_db ctx' \<in> {ctx_db ctx, rip_db_mark_all_routes_as_unchanged (ctx_db ctx)}"
  using assms unfolding check_route_changed_def
  by (auto simp: bind_eq_Some_conv Let_def dest: multicast_db split: if_splits prod.splits)

lemma gc_keeps:
  assumes ok: "routes_ok db" and sp: "db_space (n + 1) db"
  shows "\<exists>db'. gc_loop ma now db iter_zero = Some db' \<and> routes_ok db' \<and> db_space (n + 1) db' \<and>
    ok_map db' = ok_map db \<and> garbage_map db' = keep now (garbage_map db) \<and>
    any_route_changed db' = any_route_changed db"
proof -
  note inv = routes_okD(1) [OF ok]
  have sp1: "db_space 1 db" by (rule db_space_le [OF sp]) simp
  have "route_key ` set (pend_garbage db iter_zero) = dom (garbage_map db)"
    using pend_all(2) [OF inv] garbage_key [OF inv] by (force simp: ran_def dom_def)
  then obtain db' where g: "gc_loop ma now db iter_zero = Some db'" "routes_ok db'"
    "ok_map db' = ok_map db" "garbage_map db' = keep now (garbage_map db)" "any_route_changed db' = any_route_changed db"
    using gc_loop_refines [OF ok sp1, of iter_zero now ma] by (auto simp: domIff)
  have "dom (garbage_map db') \<subseteq> dom (garbage_map db)"
    unfolding g(4) by (auto simp: keep_def split: option.splits)
  then have "card (dom (garbage_map db')) \<le> card (dom (garbage_map db))" by (intro card_mono) simp_all
  then have "db_space (n + 1) db'"
    by (intro db_space_update [OF inv routes_okD(1) [OF g(2)], of "n + 1" 0]) (use sp g(3) in simp_all)
  with g show ?thesis by blast
qed

lemma aged_space:
  assumes "aged b now db db'" "db_inv db" "db_inv db'" "db_space n db"
  shows "db_space n db'"
proof (rule db_space_update [OF assms(2,3), of n 0])
  have d: "dom (ok_map db') \<inter> dom (garbage_map db') = {}" "dom (ok_map db) \<inter> dom (garbage_map db) = {}"
    using db_inv_parts(3) assms(2,3) by blast+
  have "dom (ok_map db') \<union> dom (garbage_map db') \<subseteq> dom (ok_map db) \<union> dom (garbage_map db)"
    using assms(1) unfolding aged_def by blast
  then have "card (dom (ok_map db') \<union> dom (garbage_map db')) \<le> card (dom (ok_map db) \<union> dom (garbage_map db))"
    by (intro card_mono) simp_all
  then show "card (dom (ok_map db')) + card (dom (garbage_map db')) \<le>
      card (dom (ok_map db)) + card (dom (garbage_map db)) + 0"
    using d by (simp add: card_Un_disjoint)
qed (use assms(4) in simp)

lemma timeout_keeps:
  assumes ok: "routes_ok db" and sp: "db_space (n + 1) db"
    and t: "timeout_loop os now w db iter_zero False = Some (w', db', g, rc)"
  shows "routes_ok db' \<and> db_space (n + 1) db'"
proof -
  note inv = routes_okD(1) [OF ok]
  have sp1: "db_space 1 db" by (rule db_space_le [OF sp]) simp
  from tp.timeout_loop_refines [OF ok sp1 passed_fresh_start [OF inv] TrueI, of os now w False] t
  have post: "timeout_post os now db False w' db' g rc" by auto
  then have r: "routes_ok db'" by (simp add: timeout_post_def)
  moreover from post have "aged (rc = Returned 0 \<and> memory_ok os) now db db'" by (simp add: timeout_post_def)
  then have "db_space (n + 1) db'" by (rule aged_space [OF _ inv routes_okD(1) [OF r] sp])
  ultimately show ?thesis by simp
qed

lemma gc_handler_db:
  assumes "rip_t_gc_expired os (w, ctx) = Some ((w', ctx'), rc)"
  shows "ctx_db ctx' = ctx_db ctx \<or> (\<exists>ma now. gc_loop ma now (ctx_db ctx) iter_zero = Some (ctx_db ctx'))"
  using assms unfolding rip_t_gc_expired_def
  by (auto simp: bind_eq_Some_conv Let_def split: if_splits prod.splits option.splits)

lemma timeout_handler_db:
  assumes "rip_t_timeout_expired os (w, ctx) = Some ((w', ctx'), rc)"
  shows "ctx_db ctx' = ctx_db ctx \<or> (\<exists>now w1 w2 g rc. timeout_loop os now w1 (ctx_db ctx) iter_zero False =
    Some (w2, ctx_db ctx', g, rc))"
  using assms unfolding rip_t_timeout_expired_def
  by (auto simp: bind_eq_Some_conv Let_def split: if_splits prod.splits option.splits)

text \<open>How the timeout handler ends, from how its loop ends.\<close>

lemma timeout_handler_result:
  assumes "timer_clear os w (t_timeout (timers ctx)) = (t, w1, 0)" "get_monotonic_time os w1 = (w2, Some now)"
    and "timeout_loop os now w2 (ctx_db ctx) iter_zero False = Some (w3, db', g, rc)" "rc \<in> {Returned 0, Returned 1}"
  shows "\<exists>w' ctx' rc'. rip_t_timeout_expired os (w, ctx) = Some ((w', ctx'), rc') \<and> ctx_db ctx' = db' \<and>
    (rc' = Returned 0 \<longrightarrow> rc = Returned 0 \<and> ticking (t_timeout (timers ctx'))) \<and>
    (rc' = Returned 1 \<longrightarrow> t_timeout (timers ctx') = t) \<and> rc' \<in> {Returned 0, Returned 1, Exited}"
  using assms unfolding rip_t_timeout_expired_def timer_start_oneshot_def
  by (auto simp: Let_def split: prod.splits)

section \<open>The loop as a state machine\<close>

text \<open>
  The invariant of the loop, with room for \<open>n\<close> more handlers: a handler adds at most the 500
  routes of one datagram.
\<close>

definition loop_inv :: "('w, 'r, 'n, 'a) os \<Rightarrow> nat \<Rightarrow> 'w \<times> rip_context \<Rightarrow> bool" where
  "loop_inv os n ws \<longleftrightarrow> buffer_law os \<and> routes_ok (ctx_db (snd ws)) \<and> db_space (500 * n + 1) (ctx_db (snd ws))"

lemma loop_inv_weaken: "loop_inv os n ws \<Longrightarrow> m \<le> n \<Longrightarrow> loop_inv os m ws"
  unfolding loop_inv_def using db_space_le [of "500 * n + 1" "ctx_db (snd ws)" "500 * m + 1"] by auto

lemma loop_inv_same: "loop_inv os n (w, ctx) \<Longrightarrow> ctx_db ctx' = ctx_db ctx \<Longrightarrow> loop_inv os n (w', ctx')"
  by (simp add: loop_inv_def)

lemma loop_inv_unchanged:
  assumes "loop_inv os n (w, ctx)" "ctx_db ctx' \<in> {ctx_db ctx, rip_db_mark_all_routes_as_unchanged (ctx_db ctx)}"
  shows "loop_inv os n (w', ctx')"
  using assms mark_unchanged_ok(1,2) [of "ctx_db ctx"] by (auto simp: loop_inv_def)

text \<open>The callbacks that leave the database alone.\<close>

definition quiet :: "rip_cb \<Rightarrow> bool" where
  "quiet cb \<longleftrightarrow> cb \<in> {Cb_null, Cb_ipc, Cb_route, Cb_t_triggered_lock, Cb_t_request_warmup}"

lemma quiet_call_db:
  assumes "quiet (ev_cb e)" "rip_call os ri e (w, ctx) = Some ((w', ctx'), rc)"
  shows "ctx_db ctx' = ctx_db ctx"
proof (cases "ev_cb e")
  case Cb_t_request_warmup
  with assms(2) show ?thesis
    by (auto simp: rip_t_request_warmup_expired_def bind_eq_Some_conv Let_def split: prod.splits if_splits)
qed (use assms in \<open>auto simp: quiet_def rip_t_triggered_lock_expired_def bind_eq_Some_conv split: prod.splits\<close>)

lemma rip_call_keeps:
  assumes i: "loop_inv os (Suc n) ws" and c: "rip_call os ri e ws = Some (ws', rc)"
  shows "loop_inv os n ws'"
proof -
  obtain w ctx w' ctx' where ws: "ws = (w, ctx)" "ws' = (w', ctx')" by fastforce
  have ok: "routes_ok (ctx_db ctx)" "buffer_law os" and sp: "db_space (500 * n + 1 + 500) (ctx_db ctx)"
    using i ws by (auto simp: loop_inv_def ac_simps)
  have i': "loop_inv os n (w, ctx)" using loop_inv_weaken [OF i, of n] ws by simp
  have spn: "db_space (500 * n + 1) (ctx_db ctx)" by (rule db_space_le [OF sp]) simp
  show ?thesis
  proof (cases "ev_cb e")
    case Cb_message
    with c ws obtain db where "rip_handle_message_event os w (ctx_db ctx) (rip_ifcs ctx) (ev_fd e) = Some (w', db, rc)"
      "ctx_db ctx' = db" by (auto simp: bind_eq_Some_conv)
    with message_keeps [OF ok(1) sp ok(2)] ok(2) ws show ?thesis by (simp add: loop_inv_def)
  next
    case Cb_t_update
    with c ws have "rip_t_update_expired os (w, ctx) = Some ((w', ctx'), rc)" by simp
    from loop_inv_unchanged [OF i' update_handler_db [OF this]] ws show ?thesis by simp
  next
    case Cb_t_timeout
    with c ws have "rip_t_timeout_expired os (w, ctx) = Some ((w', ctx'), rc)" by simp
    from timeout_handler_db [OF this] show ?thesis
    proof (elim disjE exE)
      fix now w1 w2 g rc assume "timeout_loop os now w1 (ctx_db ctx) iter_zero False = Some (w2, ctx_db ctx', g, rc)"
      from timeout_keeps [OF ok(1) spn this] ok(2) ws show ?thesis by (simp add: loop_inv_def)
    qed (use i' ws in \<open>simp add: loop_inv_def\<close>)
  next
    case Cb_t_gc
    with c ws have "rip_t_gc_expired os (w, ctx) = Some ((w', ctx'), rc)" by simp
    from gc_handler_db [OF this] show ?thesis
    proof (elim disjE exE)
      fix ma now assume "gc_loop ma now (ctx_db ctx) iter_zero = Some (ctx_db ctx')"
      with gc_keeps [OF ok(1) spn, of ma now] ok(2) ws show ?thesis by (auto simp: loop_inv_def)
    qed (use i' ws in \<open>simp add: loop_inv_def\<close>)
  qed (use loop_inv_same [OF i' quiet_call_db [OF _ c [unfolded ws]]] ws in \<open>simp_all add: quiet_def\<close>)
qed

interpretation lp: polled_callbacks "rip_call os ri" "loop_inv os" os for os ri
proof unfold_locales
  fix n ws e ws' rc assume "loop_inv os (Suc n) ws" "rip_call os ri e ws = Some (ws', rc)"
  then show "loop_inv os n ws'" by (rule rip_call_keeps)
next
  fix n ws m assume "loop_inv os n ws" "m \<le> n"
  then show "loop_inv os m ws" by (rule loop_inv_weaken)
qed (simp add: loop_inv_def)

text \<open>
  A turn of the loop is a step; \<open>has_room\<close> says that the database has room for a datagram per
  descriptor. \<open>rip_reachable\<close> are the states at the head of the loop.
\<close>

definition has_room :: "(rip_cb, rip_arg) event_dispatcher \<Rightarrow> 'w \<times> rip_context \<Rightarrow> bool" where
  "has_room ed ws \<longleftrightarrow> db_space (500 * length (da_items (ed_pollfds ed)) + 1) (ctx_db (snd ws))"

inductive rip_reachable ::
  "('w, 'r, 'n, 'a) os \<Rightarrow> rip_ipc \<Rightarrow> (rip_cb, rip_arg) event_dispatcher \<Rightarrow> 'w \<times> rip_context \<Rightarrow>
   'w \<times> rip_context \<Rightarrow> bool"
  for os ri ed ws0
where
  start: "rip_reachable os ri ed ws0 ws0"
| turn: "rip_reachable os ri ed ws0 ws \<Longrightarrow> has_room ed ws \<Longrightarrow>
    rip_handle_events_turn os ri ed ws = Some (Inl ws') \<Longrightarrow> rip_reachable os ri ed ws0 ws'"

text \<open>The state a turn ends in, whether the loop goes on or not, and how a turn ends.\<close>

definition turn_state :: "('w \<times> rip_context) + ('w \<times> rip_context) \<times> ret \<Rightarrow> 'w \<times> rip_context" where
  "turn_state r = (case r of Inl ws \<Rightarrow> ws | Inr (ws, rc) \<Rightarrow> ws)"

lemma turn_parts:
  assumes "rip_handle_events_turn os ri ed ws = Some r"
  obtains (stopped) ws1 rc1 where
    "event_dispatcher_poll_and_dispatch os (rip_call os ri) zero_event ed ws = Some (ws1, rc1)" "rc1 \<noteq> Returned 0"
    "r = Inr (ws1, if rc1 = Exited then Exited else Returned 1)"
  | (dispatched) ws1 ws2 ec where
    "event_dispatcher_poll_and_dispatch os (rip_call os ri) zero_event ed ws = Some (ws1, Returned 0)"
    "check_route_changed os ws1 = Some (ws2, ec)" "r = (if ec = 0 then Inl ws2 else Inr (ws2, Returned 0))"
  using assms unfolding rip_handle_events_turn_def by (fastforce simp: bind_eq_Some_conv split: if_splits)

lemma turn_keeps:
  assumes "ed_inv ed" "buffer_law os" "routes_ok (ctx_db (snd ws))" "has_room ed ws"
    and t: "rip_handle_events_turn os ri ed ws = Some r"
  shows "routes_ok (ctx_db (snd (turn_state r)))"
proof -
  have "loop_inv os (0 + length (da_items (ed_pollfds ed))) ws"
    using assms(2-4) by (simp add: loop_inv_def has_room_def)
  note i = lp.poll_and_dispatch_keeps [OF assms(1) this]
  from t show ?thesis
  proof (cases rule: turn_parts)
    case (stopped ws1 rc1)
    with i [OF stopped(1)] show ?thesis by (simp add: loop_inv_def turn_state_def)
  next
    case (dispatched ws1 ws2 ec)
    obtain w1 ctx1 w2 ctx2 where ws: "ws1 = (w1, ctx1)" "ws2 = (w2, ctx2)" by fastforce
    from loop_inv_unchanged [OF i [OF dispatched(1), unfolded ws(1)] check_route_changed_db [OF dispatched(2) [unfolded ws]]]
      dispatched(3) show ?thesis by (simp add: ws loop_inv_def turn_state_def)
  qed
qed

text \<open>
  When the loop ends, it has made a number of turns, and the next one has left it. \<open>roomy\<close> says
  that there is room in every state the loop reaches.
\<close>

definition roomy ::
  "('w, 'r, 'n, 'a) os \<Rightarrow> rip_ipc \<Rightarrow> (rip_cb, rip_arg) event_dispatcher \<Rightarrow> 'w \<times> rip_context \<Rightarrow> bool" where
  "roomy os ri ed ws0 \<longleftrightarrow> (\<forall>ws. rip_reachable os ri ed ws0 ws \<longrightarrow> has_room ed ws)"

lemma loop_last_turn:
  assumes "rip_handle_events os ri ed ws = Some out" "roomy os ri ed ws0" "rip_reachable os ri ed ws0 ws"
  shows "\<exists>ws1. rip_reachable os ri ed ws0 ws1 \<and> rip_handle_events_turn os ri ed ws1 = Some (Inr out)"
  using assms
proof (induction os ri ed ws out rule: rip_handle_events.raw_induct [rotated, consumes 1, case_names step])
  case (step f os ri ed ws out)
  from step(2) obtain r where r: "rip_handle_events_turn os ri ed ws = Some r"
    "(case r of Inl ws \<Rightarrow> f os ri ed ws | Inr out \<Rightarrow> Some out) = Some out" by (auto simp: bind_eq_Some_conv)
  show ?case
  proof (cases r)
    case (Inl ws1)
    with r have f: "f os ri ed ws1 = Some out" by simp
    have "has_room ed ws" using step(3,4) unfolding roomy_def by blast
    from rip_reachable.turn [OF step(4) this] r Inl have "rip_reachable os ri ed ws0 ws1" by simp
    from step(1) [OF f step(3) this] show ?thesis .
  next
    case (Inr o1)
    with r have "rip_handle_events_turn os ri ed ws = Some (Inr out)" by simp
    with step(4) show ?thesis by blast
  qed
qed

section \<open>Properties\<close>

text \<open>The state in which the examples start: an empty database and no interfaces.\<close>

definition sample_ctx :: rip_context where
  "sample_ctx = \<lparr>config = zero_configuration, rip_ifcs = da_empty,
     timers = (let t = \<lparr>timer_fd = 7, ticking = True\<rparr> in
       \<lparr>t_update = t, t_triggered_lock = t\<lparr>ticking := False\<rparr>, t_request_warmup = t, t_timeout = t, t_gc = t\<rparr>),
     ctx_db = sample_db\<rparr>"

lemma sample_buffer: "buffer_law sample_os"
  by (simp add: buffer_law_def sample_os_def)

lemma sample_ctx_ok: "routes_ok (ctx_db sample_ctx)" "db_space 1 (ctx_db sample_ctx)" "db_space 100 (ctx_db sample_ctx)"
  using sample_db_routes_ok sample_db_space by (simp_all add: sample_ctx_def)

text \<open>
  The invariant of the event loop. If it holds when the loop of \<^verbatim>\<open>rip_handle_events\<close> is
  entered, it holds at the start of every turn, whatever datagrams, timer events and requests
  arrive and whichever calls of the kernel, the allocator and the network fail: the hash maps
  are well formed, no key is both in use and garbage, masks and metrics are valid, and a
  changed route is covered by the flag. The number of routes is bounded by the 16 bits of the
  map's distance field (\<open>has_room\<close> in each turn).
\<close>

lemma event_loop_invariant:
  assumes "ed_inv ed" "buffer_law os" "routes_ok (ctx_db (snd ws0))" "rip_reachable os ri ed ws0 ws"
  shows "routes_ok (ctx_db (snd ws))"
  using assms(4)
proof (induction rule: rip_reachable.induct)
  case (turn ws ws')
  then show ?case using turn_keeps [OF assms(1,2) turn.IH turn.hyps(2,3)] by (simp add: turn_state_def)
qed (rule assms(3))

lemma check_failed:
  assumes "check_route_changed os (w, ctx) = Some (ws', ec)" "ec \<noteq> 0"
  shows "\<not> ticking (t_triggered_lock (timers ctx)) \<and> any_route_changed (ctx_db ctx)"
  using assms unfolding check_route_changed_def
  by (auto simp: timer_is_ticking_def rip_db_any_route_changed_def split: if_splits)

text \<open>
  C17: how the event loop ends. If \<^verbatim>\<open>rip_handle_events\<close> returns or the process exits in it, it has
  reached, turn by turn, a last state from which one of three things happened: \<^verbatim>\<open>poll\<close> failed, and
  the status is 1; a handler ended the process; or every handler returned and the triggered
  update that was due could not be sent or its lock not be started, and then the status is 0. The status is
  never 0 for another reason, and no status of a handler ends the loop.
\<close>

theorem loop_ends:
  assumes "ed_inv ed" "roomy os ri ed ws0" "rip_handle_events os ri ed ws0 = Some (ws', rc)"
  shows "\<exists>ws ws1 rcd. rip_reachable os ri ed ws0 ws \<and>
    event_dispatcher_poll_and_dispatch os (rip_call os ri) zero_event ed ws = Some (ws1, rcd) \<and>
    (rc = Returned 1 \<and> fst (snd (os_poll os (fst ws) (da_items (ed_pollfds ed)))) = - 1 \<and> ws' = ws1 \<or>
     rc = Exited \<and> rcd = Exited \<and> ws' = ws1 \<or>
     rc = Returned 0 \<and> rcd = Returned 0 \<and> (\<exists>ec. ec \<noteq> 0 \<and> check_route_changed os ws1 = Some (ws', ec)) \<and>
       \<not> ticking (t_triggered_lock (timers (snd ws1))) \<and> any_route_changed (ctx_db (snd ws1)))"
proof -
  from loop_last_turn [OF assms(3,2) rip_reachable.start] obtain ws where
    ws: "rip_reachable os ri ed ws0 ws" "rip_handle_events_turn os ri ed ws = Some (Inr (ws', rc))" by blast
  from ws(2) show ?thesis
  proof (cases rule: turn_parts)
    case (stopped ws1 rc1)
    have "if fst (snd (os_poll os (fst ws) (da_items (ed_pollfds ed)))) = - 1 then rc1 = Returned 1 else rc1 = Exited"
      using poll_and_dispatch_status [OF assms(1), of os "rip_call os ri" zero_event "fst ws" "snd ws"] stopped(1,2)
      by (auto split: if_splits)
    with stopped ws(1) show ?thesis
      by (intro exI [of _ ws] exI [of _ ws1] exI [of _ rc1]) (auto split: if_splits)
  next
    case (dispatched ws1 ws2 ec)
    then have "ec \<noteq> 0" "ws2 = ws'" "rc = Returned 0" by (auto split: if_splits)
    moreover from this check_failed [of os "fst ws1" "snd ws1"] dispatched(2) have
      "\<not> ticking (t_triggered_lock (timers (snd ws1))) \<and> any_route_changed (ctx_db (snd ws1))" by simp
    ultimately show ?thesis using dispatched(1,2) ws(1)
      by (intro exI [of _ ws] exI [of _ ws1] exI [of _ "Returned 0"]) blast
  qed
qed

theorem loop_ends_witness:
  "\<exists>(os :: (sample_world, sample_route, sample_nexthop, sample_addr) os) ri ed.
     rip_handle_events os ri ed ({}, sample_ctx) = Some (({}, sample_ctx), Returned 1) \<and>
     (\<exists>ws. rip_reachable os ri ed ({}, sample_ctx) ws \<and>
        fst (snd (os_poll os (fst ws) (da_items (ed_pollfds ed)))) = - 1)"
proof -
  let ?os = "sample_os\<lparr>os_poll := (\<lambda>w fds. (w, - 1, \<lambda>_. 0))\<rparr>" and ?ri = "\<lparr>ipc_fd = 6, cmd_h = []\<rparr>"
  obtain ed :: "(rip_cb, rip_arg) event_dispatcher" where
    i: "event_dispatcher_init (\<lambda>_. True) (\<lambda>_. True) zero_event = Some ed"
    by (auto simp: event_dispatcher_init_def hashmap_new_def hashmap_new_with_allocator_def Let_def)
  note ed = dispatcher_init_inv [OF i]
  have t: "rip_handle_events_turn ?os ?ri ed ws = Some (Inr (ws, Returned 1))" for ws
    by (simp add: rip_handle_events_turn_def event_dispatcher_poll_and_dispatch_def)
  then have l: "rip_handle_events ?os ?ri ed ws = Some (ws, Returned 1)" for ws
    by (simp add: rip_handle_events.simps)
  have "ws = ({}, sample_ctx)" if "rip_reachable ?os ?ri ed ({}, sample_ctx) ws" for ws
    using that by cases (simp_all add: t)
  then have "roomy ?os ?ri ed ({}, sample_ctx)"
    using sample_ctx_ok(2) ed(2) unfolding roomy_def has_room_def by fastforce
  from loop_ends [OF ed(1) this l] obtain ws where
    "rip_reachable ?os ?ri ed ({}, sample_ctx) ws" "fst (snd (os_poll ?os (fst ws) (da_items (ed_pollfds ed)))) = - 1"
    by auto
  with l show ?thesis by blast
qed

text \<open>
  C14: garbage collection. When the timer and the clock can be read, \<^verbatim>\<open>rip_t_gc_expired\<close> returns
  0 (its loop, which restarts after every removal, ends), keeps the invariant, leaves the routes
  in use alone and removes from the garbage exactly the routes that expired at least 120
  seconds ago; the timer is started again exactly if garbage is left.
\<close>

theorem gc_collects_expired:
  assumes "routes_ok (ctx_db ctx)" "db_space 1 (ctx_db ctx)"
    and "timer_clear os w (t_gc (timers ctx)) = (t, w1, 0)" "get_monotonic_time os w1 = (w2, Some now)"
  shows "\<exists>w' ctx'. rip_t_gc_expired os (w, ctx) = Some ((w', ctx'), Returned 0) \<and> routes_ok (ctx_db ctx') \<and>
    ok_map (ctx_db ctx') = ok_map (ctx_db ctx) \<and>
    (\<forall>k r. garbage_map (ctx_db ctx') k = Some r \<longleftrightarrow>
       garbage_map (ctx_db ctx) k = Some r \<and> tv_sec now - tv_sec (gc_started_at r) < 120) \<and>
    t_gc (timers ctx') = (if garbage_map (ctx_db ctx') = Map.empty then t else fst (timer_start_oneshot os w2 t 5))"
proof -
  have sp: "db_space (0 + 1) (ctx_db ctx)" using assms(2) by simp
  from gc_keeps [OF assms(1) sp, of "os_malloc os w2" now] obtain db' where
    g: "gc_loop (os_malloc os w2) now (ctx_db ctx) iter_zero = Some db'" "routes_ok db'"
    "ok_map db' = ok_map (ctx_db ctx)" "garbage_map db' = keep now (garbage_map (ctx_db ctx))" by blast
  have "rip_db_count db' rip_db_garbage = card (dom (garbage_map db'))"
    using hm_count_card [OF db_inv_parts(2) [OF routes_okD(1) [OF g(2)]]] by (simp add: hashmap_count_def)
  then have c: "rip_db_count db' rip_db_garbage > 0 \<longleftrightarrow> garbage_map db' \<noteq> Map.empty"
    by (simp add: card_gt_0_iff)
  obtain t' w3 ec where st: "timer_start_oneshot os w2 t 5 = (t', w3, ec)" by (metis prod_cases3)
  let ?ctx = "ctx\<lparr>timers := (timers ctx)\<lparr>t_gc := t\<rparr>, ctx_db := db'\<rparr>"
  have "rip_t_gc_expired os (w, ctx) = Some (if garbage_map db' \<noteq> Map.empty
      then (w3, ?ctx\<lparr>timers := (timers ?ctx)\<lparr>t_gc := t'\<rparr>\<rparr>) else (w2, ?ctx), Returned 0)"
    using assms(3,4) g(1) c st by (simp add: rip_t_gc_expired_def GC_PERIOD_TIMER_def Let_def)
  moreover have "garbage_map db' k = Some r \<longleftrightarrow>
      garbage_map (ctx_db ctx) k = Some r \<and> tv_sec now - tv_sec (gc_started_at r) < 120" for k r
    unfolding g(4) by (auto simp: keep_def has_time_passed_def GC_PERIOD_RFC_def split: option.splits)
  ultimately show ?thesis using g(2,3) st by (cases "garbage_map db' = Map.empty") auto
qed

theorem gc_collects_expired_witness:
  "\<exists>w' ctx'. rip_t_gc_expired sample_os ({}, sample_ctx) = Some ((w', ctx'), Returned 0) \<and>
     \<not> ticking (t_gc (timers ctx'))"
proof -
  have t: "timer_clear sample_os {} (t_gc (timers sample_ctx)) = (\<lparr>timer_fd = 7, ticking = False\<rparr>, {}, 0)"
    "get_monotonic_time sample_os {} = ({}, Some \<lparr>tv_sec = 1000, tv_nsec = 0\<rparr>)"
    by (simp_all add: timer_clear_def sample_ctx_def sample_os_def get_monotonic_time_def Let_def)
  have "garbage_map (ctx_db sample_ctx) = Map.empty" by (simp add: sample_ctx_def sample_db_ok)
  with gc_collects_expired [OF sample_ctx_ok(1,2) t] show ?thesis
    by (auto simp: fun_eq_iff)
qed



text \<open>
  Aging. In a pass of the timeout timer in which no route expires, the counter of every
  learned route grows by 15 and nothing else changes: not the local routes, the garbage, the
  machine or the flag. (Twelve such passes make up the 180 seconds of the protocol.)
\<close>

lemma aging_pass:
  assumes "db_inv db" "\<And>r. r \<in> ran (ok_map db) \<Longrightarrow> is_local r \<or> timeout_cnt r + 15 < 180"
  shows "\<exists>db'. timeout_loop os now w db iter_zero start_gc = Some (w, db', start_gc, Returned 0) \<and> db_inv db' \<and>
    garbage_map db' = garbage_map db \<and> any_route_changed db' = any_route_changed db \<and>
    (\<forall>k. ok_map db' k = map_option (\<lambda>r. if is_local r then r else r\<lparr>timeout_cnt := timeout_cnt r + 15\<rparr>) (ok_map db k))"
proof -
  note all = hm.pending_all [OF db_inv_parts(1) [OF assms(1)]]
  have fr: "\<forall>x\<in>set (hm_pending (ok_routes db) (ok_routes_iter iter_zero)). is_local x \<or> timeout_cnt (age x) < TIMEOUT_PERIOD_RFC"
    using assms(2) all by (simp add: TIMEOUT_PERIOD_TIMER_def TIMEOUT_PERIOD_RFC_def)
  have "tick = (\<lambda>r. if is_local r then r else r\<lparr>timeout_cnt := timeout_cnt r + 15\<rparr>)"
    by (simp add: fun_eq_iff tick_def TIMEOUT_PERIOD_TIMER_def)
  with quiet_loop [OF assms(1) fr, of os now w start_gc] all map_routes_all [of "ok_map db" tick, OF ok_key [OF assms(1)]]
  show ?thesis by auto
qed





text \<open>\<^verbatim>\<open>rand\<close> returns a number of at most \<^verbatim>\<open>RAND_MAX\<close>.\<close>

definition rand_law :: "('w, 'r, 'n, 'a) os \<Rightarrow> bool" where
  "rand_law os \<longleftrightarrow> (\<forall>w. snd (os_rand os w) \<le> os_rand_max os)"

text \<open>
  The period of updates. The duration \<^verbatim>\<open>create_t_update_time\<close> yields is between 30 and 35
  seconds, and \<^verbatim>\<open>timer_start_oneshot\<close> passes it to the kernel as that many whole seconds and a
  number of nanoseconds below a second, as the kernel requires.
\<close>

lemma update_period:
  assumes "rand_law os" "create_t_update_time os w = (w', v)"
  shows "30 \<le> v \<and> v \<le> 35 \<and>
    (\<exists>sec nsec. timer_start_oneshot os w' t v =
       (case os_timerfd_settime os w' (timer_fd t) sec nsec of (w2, ec) \<Rightarrow>
          if ec \<noteq> 0 then (t, w2, 1) else (t\<lparr>ticking := True\<rparr>, w2, 0)) \<and>
     30 \<le> sec \<and> sec \<le> 35 \<and> 0 \<le> nsec \<and> nsec < 1000000000)"
proof -
  obtain x where g: "get_random_float os w (5/2) (15/2) = (w', x)" and v: "v = 55/2 + x"
    using assms(2) by (auto simp: create_t_update_time_def split: prod.splits)
  have "snd (os_rand os w) \<le> os_rand_max os" using assms(1) by (simp add: rand_law_def)
  from random_float_range [OF g _ this] v have r: "30 \<le> v" "v \<le> 35" by simp_all
  then have "30 \<le> \<lfloor>v\<rfloor>" "\<lfloor>v\<rfloor> \<le> 35" by linarith+
  with r have "30 \<le> trunc v" "trunc v \<le> 35" by (simp_all add: trunc_def)
  with r oneshot_nanoseconds [of v] show ?thesis
    by (intro conjI exI [of _ "trunc v"] exI [of _ "trunc ((v - of_int (trunc v)) * 1000 * 1000 * 1000)"])
      (simp_all add: timer_start_oneshot_def timer_set_def Let_def split: prod.splits)
qed

end
