(* ===== verification/Rip_Sync.thy ===== *)
theory Rip_Sync
  imports Rip_Loop
begin

text \<open>
  The kernel's table and the database. As long as nobody else changes the routes of the daemon,
  every learned route the database holds as in use is in the kernel's table, the routes of others
  stay there, and without failing calls there is nothing else: each handler keeps
  this, so it holds in every state of the event loop.
\<close>

section \<open>What is assumed of the machine\<close>

text \<open>Only the two netlink calls change the table.\<close>

definition frame_law :: "('w, 'r, 'n, 'a) os \<Rightarrow> ('w \<Rightarrow> 'r set) \<Rightarrow> bool" where
  "frame_law os table \<longleftrightarrow> (\<forall>w.
     table (fst (os_clock_gettime os w)) = table w \<and> table (fst (os_rand os w)) = table w \<and>
     (\<forall>fd s n. table (fst (os_timerfd_settime os w fd s n)) = table w) \<and>
     (\<forall>fd. table (fst (os_read os w fd)) = table w) \<and> table (fst (os_socket os w)) = table w \<and>
     (\<forall>fd. table (fst (os_so_reuseport os w fd)) = table w) \<and>
     (\<forall>fd d. table (fst (os_so_bindtodevice os w fd d)) = table w) \<and>
     (\<forall>fd p. table (fst (os_bind os w fd p)) = table w) \<and> (\<forall>fd. table (os_close os w fd) = table w) \<and>
     (\<forall>fd a p d. table (fst (os_sendto os w fd a p d)) = table w) \<and>
     (\<forall>fd n. table (fst (os_recvfrom os w fd n)) = table w) \<and> (\<forall>fds. table (fst (os_poll os w fds)) = table w) \<and>
     table (fst (os_mq_open_cli os w)) = table w \<and> (\<forall>fd n. table (fst (os_mq_receive os w fd n)) = table w) \<and>
     (\<forall>fd c t. table (fst (os_mq_send os w fd c t)) = table w) \<and> (\<forall>fd. table (os_mq_close os w fd) = table w) \<and>
     table (fst (nl_cache_mngr_data_ready os w)) = table w)"

text \<open>
  libnl keeps apart the route objects built for different destinations, next hops and
  interfaces.
\<close>

definition kroute_law :: "('w, 'r, 'n, 'a) os \<Rightarrow> 'r \<Rightarrow> 'n \<Rightarrow> 'a \<Rightarrow> bool" where
  "kroute_law os r0 n0 a0 \<longleftrightarrow> (\<forall>a b x. wf_route a \<longrightarrow> wf_route b \<longrightarrow>
     kroute os r0 n0 a0 a = Some x \<longrightarrow> kroute os r0 n0 a0 b = Some x \<longrightarrow> route_key a = route_key b)"

definition machine_laws :: "('w, 'r, 'n, 'a) os \<Rightarrow> ('w \<Rightarrow> 'r set) \<Rightarrow> 'r \<Rightarrow> 'n \<Rightarrow> 'a \<Rightarrow> bool" where
  "machine_laws os table r0 n0 a0 \<longleftrightarrow> kernel_laws os table \<and> blank_laws os r0 n0 a0 \<and>
     frame_law os table \<and> kroute_law os r0 n0 a0"

definition synced ::
  "('w, 'r, 'n, 'a) os \<Rightarrow> ('w \<Rightarrow> 'r set) \<Rightarrow> 'r \<Rightarrow> 'n \<Rightarrow> 'a \<Rightarrow> 'w \<Rightarrow> (route_id \<rightharpoonup> rip_route_description) \<Rightarrow> bool" where
  "synced os table r0 n0 a0 w m \<longleftrightarrow>
     (\<forall>r\<in>ran m. is_local r \<or> (\<exists>x\<in>table w. kroute os r0 n0 a0 r = Some x))"

lemma synced_table: "synced os table r0 n0 a0 w m \<Longrightarrow> table w' = table w \<Longrightarrow> synced os table r0 n0 a0 w' m"
  by (simp add: synced_def)

lemma synced_clear: "synced os table r0 n0 a0 w m \<Longrightarrow> synced os table r0 n0 a0 w (m(k := None))"
  unfolding synced_def using db_routes_upd(2) [of m k] by blast

lemma kroute_same:
  assumes "entry b = entry a" "if_index b = if_index a"
  shows "kroute os r0 n0 a0 b = kroute os r0 n0 a0 a"
  unfolding kroute_def assms ..

lemma synced_map:
  assumes "synced os table r0 n0 a0 w m"
    and "\<And>r. entry (f r) = entry r \<and> if_index (f r) = if_index r \<and> is_local (f r) = is_local r"
  shows "synced os table r0 n0 a0 w (map_option f \<circ> m)"
  using assms kroute_same [of "f _" _ os r0 n0 a0] unfolding synced_def ran_map_option by simp

text \<open>No deletion of a route from the kernel fails.\<close>

definition deletes_ok :: "('w, 'r, 'n, 'a) os \<Rightarrow> bool" where
  "deletes_ok os \<longleftrightarrow> (\<forall>w r. wf_route r \<longrightarrow> (\<exists>w'. rip_route_delete_route os w r = Some (w', 0)))"

text \<open>
  What the daemon owns. \<open>T\<close> is the table when the loop is entered. Routes that are not of the
  daemon's making stay in the table; and if no deletion fails and there is memory, the
  table holds nothing else but the learned routes in use.
\<close>

definition own_routes :: "('w, 'r, 'n, 'a) os \<Rightarrow> 'r \<Rightarrow> 'n \<Rightarrow> 'a \<Rightarrow> 'r set" where
  "own_routes os r0 n0 a0 = {x. \<exists>r. kroute os r0 n0 a0 r = Some x}"

definition learned_routes ::
  "('w, 'r, 'n, 'a) os \<Rightarrow> 'r \<Rightarrow> 'n \<Rightarrow> 'a \<Rightarrow> (route_id \<rightharpoonup> rip_route_description) \<Rightarrow> 'r set" where
  "learned_routes os r0 n0 a0 m = {x. \<exists>r\<in>ran m. \<not> is_local r \<and> kroute os r0 n0 a0 r = Some x}"

definition owned ::
  "('w, 'r, 'n, 'a) os \<Rightarrow> ('w \<Rightarrow> 'r set) \<Rightarrow> 'r \<Rightarrow> 'n \<Rightarrow> 'a \<Rightarrow> 'r set \<Rightarrow> 'w \<Rightarrow>
   (route_id \<rightharpoonup> rip_route_description) \<Rightarrow> bool" where
  "owned os table r0 n0 a0 T w m \<longleftrightarrow> T - own_routes os r0 n0 a0 \<subseteq> table w \<and>
     (memory_ok os \<and> deletes_ok os \<longrightarrow> table w \<subseteq> T \<union> learned_routes os r0 n0 a0 m)"

definition in_step ::
  "('w, 'r, 'n, 'a) os \<Rightarrow> ('w \<Rightarrow> 'r set) \<Rightarrow> 'r \<Rightarrow> 'n \<Rightarrow> 'a \<Rightarrow> 'r set \<Rightarrow> 'w \<Rightarrow>
   (route_id \<rightharpoonup> rip_route_description) \<Rightarrow> bool" where
  "in_step os table r0 n0 a0 T w m \<longleftrightarrow> synced os table r0 n0 a0 w m \<and> owned os table r0 n0 a0 T w m"

lemma in_step_table:
  "in_step os table r0 n0 a0 T w m \<Longrightarrow> table w' = table w \<Longrightarrow> in_step os table r0 n0 a0 T w' m"
  by (simp add: in_step_def synced_def owned_def)

lemma learned_routes_map:
  assumes "\<And>r. entry (f r) = entry r \<and> if_index (f r) = if_index r \<and> is_local (f r) = is_local r"
  shows "learned_routes os r0 n0 a0 (map_option f \<circ> m) = learned_routes os r0 n0 a0 m"
  using assms kroute_same [of "f _" _ os r0 n0 a0] unfolding learned_routes_def ran_map_option by simp

lemma in_step_map:
  assumes "in_step os table r0 n0 a0 T w m"
    and f: "\<And>r. entry (f r) = entry r \<and> if_index (f r) = if_index r \<and> is_local (f r) = is_local r"
  shows "in_step os table r0 n0 a0 T w (map_option f \<circ> m)"
  using assms(1) synced_map [OF _ f, of os table r0 n0 a0 w m]
  by (simp add: in_step_def owned_def learned_routes_map [of f, OF f])

lemma ran_split: "ran (m(k \<mapsto> y)) = insert y (ran (m(k := None)))" "m k = Some x \<Longrightarrow> ran m = insert x (ran (m(k := None)))"
  unfolding ran_def by (auto simp: fun_upd_def split: if_splits; metis option.inject)+

lemma in_step_same:
  assumes s: "in_step os table r0 n0 a0 T w m" and k: "m k = Some x"
    and y: "entry y = entry x" "if_index y = if_index x" "is_local y = is_local x"
  shows "in_step os table r0 n0 a0 T w (m(k \<mapsto> y))"
proof -
  note ky = kroute_same [OF y(1,2), of os r0 n0 a0]
  note r = ran_split(1) [of m k y] ran_split(2) [of m, OF k]
  have "learned_routes os r0 n0 a0 (m(k \<mapsto> y)) = learned_routes os r0 n0 a0 m"
    using ky y(3) by (simp add: learned_routes_def r)
  moreover have "synced os table r0 n0 a0 w (m(k \<mapsto> y)) = synced os table r0 n0 a0 w m"
    using ky y(3) by (simp add: synced_def r)
  ultimately show ?thesis using s by (simp add: in_step_def owned_def)
qed

section \<open>Changing the kernel's table\<close>

lemma delete_synced:
  assumes laws: "kernel_laws os table" "blank_laws os r0 n0 a0" "kroute_law os r0 n0 a0"
    and ok: "routes_ok db" and old: "ok_map db k = Some old"
    and s: "synced os table r0 n0 a0 w (ok_map db)"
    and d: "rip_route_delete_route os w old = Some (w', ec)"
  shows "synced os table r0 n0 a0 w' ((ok_map db)(k := None))" "ec \<noteq> 0 \<Longrightarrow> table w' = table w"
proof -
  from kernel_delete [OF laws(1) d] obtain w1 c where
    c: "rip_rtnl_route_create os w old = Some (w1, c)"
    "if ec = 0 then \<exists>x. c = Some x \<and> table w' = table w - {x} else table w' = table w" by blast
  then show "ec \<noteq> 0 \<Longrightarrow> table w' = table w" by simp
  note inv = routes_okD(1) [OF ok]
  have key: "route_key r \<noteq> k" if "r \<in> ran ((ok_map db)(k := None))" for r
  proof -
    from that obtain l where "l \<noteq> k" "ok_map db l = Some r" by (auto simp: ran_def split: if_splits)
    with ok_key [OF inv this(2)] show ?thesis by simp
  qed
  show "synced os table r0 n0 a0 w' ((ok_map db)(k := None))"
  proof (cases "ec = 0")
    case False
    with c(2) synced_clear [OF s] synced_table show ?thesis by (metis (no_types))
  next
    case True
    with c obtain x where x: "rip_rtnl_route_create os w old = Some (w1, Some x)" "table w' = table w - {x}" by auto
    note kx = create_kroute [OF laws(2) x(1)]
    have wf: "wf_route old" by (rule routes_okD(3) [OF ok ok_route_in [OF old]])
    show ?thesis unfolding synced_def
    proof
      fix r assume r: "r \<in> ran ((ok_map db)(k := None))"
      then have "r \<in> ran (ok_map db)" using db_routes_upd(2) [of "ok_map db" k] by blast
      with routes_okD(3) [OF ok] have wr: "wf_route r" by (simp add: db_routes_def)
      have "route_key r \<noteq> route_key old" using key [OF r] ok_key [OF inv old] by simp
      then have "kroute os r0 n0 a0 r \<noteq> Some x" using laws(3) wf wr kx unfolding kroute_law_def by blast
      with s \<open>r \<in> ran (ok_map db)\<close> x(2) show "is_local r \<or> (\<exists>x\<in>table w'. kroute os r0 n0 a0 r = Some x)"
        unfolding synced_def by auto
    qed
  qed
qed

lemma installed_synced:
  assumes laws: "kernel_laws os table" "blank_laws os r0 n0 a0"
    and s: "synced os table r0 n0 a0 w ((ok_map db)(route_key nr := None))"
    and i: "installed os w db nr w' db' st"
  shows "synced os table r0 n0 a0 w' (ok_map db')"
proof -
  let ?nr = "nr\<lparr>changed := True\<rparr>" and ?m = "(ok_map db)(route_key nr := None)"
  from i obtain ec where a: "rip_route_add_route os w ?nr = Some (w', ec)"
    and alt: "ec = 0 \<and> ok_map db' = (ok_map db)(route_key nr \<mapsto> ?nr) \<or> ok_map db' = ?m"
    unfolding installed_def by blast
  from kernel_add [OF laws(1) a] obtain w1 c where
    c: "rip_rtnl_route_create os w ?nr = Some (w1, c)"
    "if ec = 0 then \<exists>x. c = Some x \<and> table w' = insert x (table w) else table w' = table w" by blast
  then have sub: "table w \<subseteq> table w'" by (auto split: if_splits)
  with s have s': "synced os table r0 n0 a0 w' ?m" unfolding synced_def by blast
  from alt show ?thesis
  proof
    assume "ec = 0 \<and> ok_map db' = (ok_map db)(route_key nr \<mapsto> ?nr)"
    with c obtain x where x: "rip_rtnl_route_create os w ?nr = Some (w1, Some x)" "x \<in> table w'"
      and m: "ok_map db' = ?m(route_key nr \<mapsto> ?nr)" by auto
    from create_kroute [OF laws(2) x(1)] x(2) s' show ?thesis
      unfolding m synced_def using db_routes_upd(1) [of ?m "route_key nr" ?nr] by blast
  qed (use s' in simp)
qed

lemma delete_owned:
  assumes laws: "kernel_laws os table" "blank_laws os r0 n0 a0"
    and wf: "wf_route old" and old: "m k = Some old" and o: "owned os table r0 n0 a0 T w m"
    and d: "rip_route_delete_route os w old = Some (w', ec)"
  shows "owned os table r0 n0 a0 T w' (m(k := None))"
proof -
  from kernel_delete [OF laws(1) d] obtain w1 c where
    c: "rip_rtnl_route_create os w old = Some (w1, c)"
    "if ec = 0 then \<exists>x. c = Some x \<and> table w' = table w - {x} else table w' = table w" by blast
  show ?thesis
  proof (cases "ec = 0")
    case False
    with d wf have "\<not> deletes_ok os" unfolding deletes_ok_def by (metis option.inject prod.inject)
    with False c(2) o show ?thesis by (simp add: owned_def)
  next
    case True
    with c obtain x where x: "rip_rtnl_route_create os w old = Some (w1, Some x)" "table w' = table w - {x}" by auto
    note kx = create_kroute [OF laws(2) x(1)]
    then have "x \<in> own_routes os r0 n0 a0" by (auto simp: own_routes_def)
    moreover have "learned_routes os r0 n0 a0 m - {x} \<subseteq> learned_routes os r0 n0 a0 (m(k := None))"
      using kx unfolding learned_routes_def ran_split(2) [of m, OF old] by auto
    ultimately show ?thesis using o x(2) unfolding owned_def by blast
  qed
qed

lemma installed_owned:
  assumes laws: "kernel_laws os table" "blank_laws os r0 n0 a0" and nl: "\<not> is_local nr"
    and o: "owned os table r0 n0 a0 T w ((ok_map db)(route_key nr := None))"
    and i: "installed os w db nr w' db' st"
  shows "owned os table r0 n0 a0 T w' (ok_map db')"
proof -
  let ?nr = "nr\<lparr>changed := True\<rparr>" and ?m = "(ok_map db)(route_key nr := None)"
  from i obtain ec where a: "rip_route_add_route os w ?nr = Some (w', ec)"
    and alt: "ec = 0 \<and> ok_map db' = ?m(route_key nr \<mapsto> ?nr) \<or> ok_map db' = ?m \<and> (ec \<noteq> 0 \<or> \<not> memory_ok os)"
    unfolding installed_def memory_ok_def by fastforce
  from kernel_add [OF laws(1) a] obtain w1 c where
    c: "rip_rtnl_route_create os w ?nr = Some (w1, c)"
    "if ec = 0 then \<exists>x. c = Some x \<and> table w' = insert x (table w) else table w' = table w" by blast
  show ?thesis
  proof (cases "ec = 0")
    case False
    with alt c(2) o show ?thesis by (simp add: owned_def)
  next
    case True
    with c obtain x where x: "rip_rtnl_route_create os w ?nr = Some (w1, Some x)" "table w' = insert x (table w)" by auto
    from alt True show ?thesis
    proof (elim disjE conjE)
      assume m: "ok_map db' = ?m(route_key nr \<mapsto> ?nr)"
      have "learned_routes os r0 n0 a0 (ok_map db') = insert x (learned_routes os r0 n0 a0 ?m)"
        using nl create_kroute [OF laws(2) x(1)] unfolding m learned_routes_def ran_split(1) fun_upd_upd by auto
      with o x(2) show ?thesis by (auto simp: owned_def)
    next
      assume "\<not> memory_ok os"
      with o x(2) show ?thesis by (auto simp: owned_def)
    qed simp
  qed
qed

lemma delete_in_step:
  assumes laws: "kernel_laws os table" "blank_laws os r0 n0 a0" "kroute_law os r0 n0 a0"
    and ok: "routes_ok db" and old: "ok_map db k = Some old"
    and s: "in_step os table r0 n0 a0 T w (ok_map db)"
    and d: "rip_route_delete_route os w old = Some (w', ec)"
  shows "in_step os table r0 n0 a0 T w' ((ok_map db)(k := None))"
proof -
  have p: "synced os table r0 n0 a0 w (ok_map db)" "owned os table r0 n0 a0 T w (ok_map db)"
    using s by (simp_all add: in_step_def)
  from delete_synced(1) [OF laws ok old p(1) d]
    delete_owned [OF laws(1,2) routes_okD(3) [OF ok ok_route_in [OF old]] _ p(2) d, of k] old
  show ?thesis by (simp add: in_step_def)
qed

lemma installed_in_step:
  assumes laws: "kernel_laws os table" "blank_laws os r0 n0 a0" and nl: "\<not> is_local nr"
    and s: "in_step os table r0 n0 a0 T w ((ok_map db)(route_key nr := None))"
    and i: "installed os w db nr w' db' st"
  shows "in_step os table r0 n0 a0 T w' (ok_map db')"
  using s installed_synced [OF laws _ i] installed_owned [OF laws nl _ i] by (simp add: in_step_def)

section \<open>Received messages\<close>

lemma entry_synced:
  assumes laws: "kernel_laws os table" "blank_laws os r0 n0 a0" "kroute_law os r0 n0 a0"
    and ok: "routes_ok db" and sp: "db_space 1 db" and s: "in_step os table r0 n0 a0 T w (ok_map db)"
    and h: "handle_ripv2_entry os w db e sa i = Some (w', db', st)"
  shows "in_step os table r0 n0 a0 T w' (ok_map db')"
proof (cases "is_entry_valid (rip2_entry_ntoh e) = Some True")
  case False
  then have "is_entry_valid (rip2_entry_ntoh e) = Some False"
    using h unfolding handle_ripv2_entry_def Let_def by (auto dest!: bind_eq_Some_conv [THEN iffD1])
  with handle_entry_invalid [of e os w db sa i] h s show ?thesis by simp
next
  case v: True
  let ?in = "incoming e sa i"
  have sp0: "db_space (0 + 1) db" using sp by simp
  show ?thesis
  proof (cases "ok_map db (route_key ?in)")
    case None
    with handle_entry_new [OF ok sp0 v None, of os w] h have "installed os w db ?in w' db' st" by auto
    moreover have "in_step os table r0 n0 a0 T w ((ok_map db)(route_key ?in := None))" using s None by (simp add: fun_upd_idem)
    ultimately show ?thesis by (intro installed_in_step [OF laws(1,2) incoming_sel(6)])
  next
    case (Some old)
    from handle_entry_known [OF ok sp0 v Some, of os w] h consider
        "w' = w" "db' = db"
      | ec where "rip_route_delete_route os w old = Some (w', ec)" "ec \<noteq> 0" "db' = db"
      | w1 where "rip_route_delete_route os w old = Some (w1, 0)" "installed os w1 db ?in w' db' st"
      by (auto split: if_splits)
    then show ?thesis
    proof cases
      case 1
      with s show ?thesis by simp
    next
      case 2
      with in_step_table [OF s delete_synced(2) [OF laws ok Some conjunct1 [OF s [unfolded in_step_def]] 2(1,2)]] show ?thesis by simp
    next
      case 3
      show ?thesis
        by (rule installed_in_step [OF laws(1,2) incoming_sel(6) delete_in_step [OF laws ok Some s 3(1)] 3(2)])
    qed
  qed
qed

lemma entries_synced:
  assumes laws: "kernel_laws os table" "blank_laws os r0 n0 a0" "kroute_law os r0 n0 a0"
  shows "routes_ok db \<Longrightarrow> db_space (1 + length es) db \<Longrightarrow> in_step os table r0 n0 a0 T w (ok_map db) \<Longrightarrow>
    handle_entries os w db es sa i ret = Some (w', db', st) \<Longrightarrow> in_step os table r0 n0 a0 T w' (ok_map db')"
proof (induction es arbitrary: w db ret)
  case (Cons e es)
  from Cons.prems(4) obtain w1 db1 st1 where h: "handle_ripv2_entry os w db e sa i = Some (w1, db1, st1)"
    "handle_entries os w1 db1 es sa i (if st1 \<noteq> 0 then 1 else ret) = Some (w', db', st)"
    by (auto simp: bind_eq_Some_conv)
  have sp: "db_space (1 + length es + 1) db" "db_space 1 db"
    using Cons.prems(2) db_space_le [OF Cons.prems(2), of 1] by simp_all
  from handle_entry_keeps [OF Cons.prems(1) sp(1) h(1)]
    entry_synced [OF laws Cons.prems(1) sp(2) Cons.prems(3) h(1)] Cons.IH [OF _ _ _ h(2)] show ?case by blast
qed simp

section \<open>Calls that leave the table alone\<close>

lemma frameD:
  assumes "frame_law os table"
  shows "os_clock_gettime os w = (w', x1) \<Longrightarrow> table w' = table w" "os_rand os w = (w', x2) \<Longrightarrow> table w' = table w"
    "os_timerfd_settime os w fd sc n = (w', x3) \<Longrightarrow> table w' = table w"
    "os_read os w fd = (w', x3) \<Longrightarrow> table w' = table w" "os_socket os w = (w', x3) \<Longrightarrow> table w' = table w"
    "os_so_reuseport os w fd = (w', x3) \<Longrightarrow> table w' = table w"
    "os_so_bindtodevice os w fd d = (w', x3) \<Longrightarrow> table w' = table w"
    "os_bind os w fd p = (w', x3) \<Longrightarrow> table w' = table w" "table (os_close os w fd) = table w"
    "os_sendto os w fd a p dg = (w', x3) \<Longrightarrow> table w' = table w"
    "os_recvfrom os w fd sz = (w', x4) \<Longrightarrow> table w' = table w" "os_poll os w fds = (w', x5) \<Longrightarrow> table w' = table w"
    "os_mq_open_cli os w = (w', x3) \<Longrightarrow> table w' = table w"
    "os_mq_receive os w fd sz = (w', x6) \<Longrightarrow> table w' = table w"
    "os_mq_send os w fd c t = (w', x3) \<Longrightarrow> table w' = table w" "table (os_mq_close os w fd) = table w"
    "nl_cache_mngr_data_ready os w = (w', x3) \<Longrightarrow> table w' = table w"
  using assms [unfolded frame_law_def, THEN spec, of w] by (metis fst_conv)+

lemma timer_set_frame:
  assumes "frame_law os table" "timer_set os w t s = (w', ec)"
  shows "table w' = table w"
  using frameD(3) [OF assms(1)] assms(2) by (auto simp: timer_set_def Let_def split: prod.splits)

lemma timer_frame:
  assumes f: "frame_law os table"
  shows "timer_clear os w t = (t', w', ec) \<Longrightarrow> table w' = table w"
    "timer_start_oneshot os w t v = (t', w', ec) \<Longrightarrow> table w' = table w"
    "get_random_float os w a b = (w', x) \<Longrightarrow> table w' = table w"
    "create_t_update_time os w = (w', x) \<Longrightarrow> table w' = table w"
    "get_monotonic_time os w = (w', now) \<Longrightarrow> table w' = table w"
proof -
  show "timer_clear os w t = (t', w', ec) \<Longrightarrow> table w' = table w"
    using frameD(4) [OF f] by (auto simp: timer_clear_def Let_def split: prod.splits if_splits)
  show "timer_start_oneshot os w t v = (t', w', ec) \<Longrightarrow> table w' = table w"
    using timer_set_frame [OF f] by (auto simp: timer_start_oneshot_def Let_def split: prod.splits if_splits)
  have r: "get_random_float os w a b = (w', x) \<Longrightarrow> table w' = table w" for a b x
    using frameD(2) [OF f] by (auto simp: get_random_float_def split: prod.splits)
  then show "get_random_float os w a b = (w', x) \<Longrightarrow> table w' = table w" .
  show "create_t_update_time os w = (w', x) \<Longrightarrow> table w' = table w"
    using r by (auto simp: create_t_update_time_def split: prod.splits)
  show "get_monotonic_time os w = (w', now) \<Longrightarrow> table w' = table w"
    using frameD(1) [OF f] by (auto simp: get_monotonic_time_def Let_def split: prod.splits if_splits)
qed

lemma send_frame:
  assumes "frame_law os table" "rip_send os w fd dest b n = Some (w', st)"
  shows "table w' = table w"
  using frameD(10) [OF assms(1)] assms(2)
  by (auto simp: rip_send_def bind_eq_Some_conv Let_def split: if_splits prod.splits)

lemma send_response_frame:
  assumes "frame_law os table" "rip_send_response os w b sock dest db p = Some (w', b', st)"
  shows "table w' = table w"
  using send_frame [OF assms(1)] assms(2) by (auto simp: rip_send_response_def bind_eq_Some_conv)

lemma send_responses_frame:
  assumes f: "frame_law os table"
  shows "send_responses os w b ifcs db p ret = Some (w', st) \<Longrightarrow> table w' = table w"
proof (induction ifcs arbitrary: w b ret)
  case (Cons ifc ifcs)
  then obtain w1 b1 r where "rip_send_response os w b (socket_tx ifc) rip_multicast_n db p = Some (w1, b1, r)"
    "send_responses os w1 b1 ifcs db p (ret OR r) = Some (w', st)" by (auto simp: bind_eq_Some_conv)
  with send_response_frame [OF f this(1)] Cons.IH [OF this(2)] show ?case by simp
qed simp

lemma send_requests_frame:
  assumes f: "frame_law os table"
  shows "send_requests os w b ifcs ret = Some (w', st) \<Longrightarrow> table w' = table w"
proof (induction ifcs arbitrary: w ret)
  case (Cons ifc ifcs)
  then obtain w1 r where "rip_send os w (sock_fd (socket_tx ifc)) rip_multicast_n b 1 = Some (w1, r)"
    "send_requests os w1 b ifcs (ret OR r) = Some (w', st)" by (auto simp: bind_eq_Some_conv)
  with send_frame [OF f this(1)] Cons.IH [OF this(2)] show ?case by simp
qed simp

lemma multicast_frame:
  assumes "frame_law os table" "rip_send_advertisement_multicast os w db ifcs oc = Some (w', db', st)"
  shows "table w' = table w"
  using send_responses_frame [OF assms(1)] assms(2)
  by (auto simp: rip_send_advertisement_multicast_def bind_eq_Some_conv Let_def)

lemma asserted_frame:
  assumes "asserted_call fd w f = (w', rc)" "\<And>w1 x. f w = (w1, x) \<Longrightarrow> table w1 = table w"
  shows "table w' = table w"
  using assms by (auto simp: asserted_call_def Let_def split: prod.splits if_splits)

lemma setup_tx_frame:
  assumes f: "frame_law os table" and t: "rip_setup_tx_socket os w sock = (w', rc)"
  shows "table w' = table w"
proof -
  have "table (fst (asserted_call fd v (\<lambda>w. os_so_bindtodevice os w fd nm))) = table v" for v fd nm
    by (rule asserted_frame [OF surjective_pairing]) (rule frameD(7) [OF f])
  then have d: "table (fst (socket_bind_to_device os v fd nm)) = table v" for v fd nm
    by (simp add: socket_bind_to_device_def)
  have r: "table (fst (socket_set_allow_reuse_port os v fd)) = table v" for v fd
    unfolding socket_set_allow_reuse_port_def by (rule asserted_frame [OF surjective_pairing]) (rule frameD(6) [OF f])
  have b: "table (fst (socket_bind_port os v fd port)) = table v" for v fd port
    unfolding socket_bind_port_def by (rule asserted_frame [OF surjective_pairing]) (rule frameD(8) [OF f])
  obtain w1 rc1 where 1: "socket_bind_to_device os w (sock_fd sock) (if_name sock) = (w1, rc1)" by fastforce
  obtain w2 rc2 where 2: "socket_set_allow_reuse_port os w1 (sock_fd sock) = (w2, rc2)" by fastforce
  obtain w3 rc3 where 3: "socket_bind_port os w2 (sock_fd sock) RIP_UDP_PORT = (w3, rc3)" by fastforce
  have "w' \<in> {w1, w2, w3}"
    using t 1 2 3 by (auto simp: rip_setup_tx_socket_def check_then_def split: ret.splits if_splits)
  moreover have "table w1 = table w" "table w2 = table w1" "table w3 = table w2"
    using d [of w] r [of w1] b [of w2] 1 2 3 by (metis fst_conv)+
  ultimately show ?thesis by auto
qed

lemma create_ifindex_frame:
  assumes "frame_law os table" "rip_create_socket_ifindex os w sock i = (sock', w', ec)"
  shows "table w' = table w"
  using frameD(5) [OF assms(1)] assms(2)
  by (auto simp: rip_create_socket_ifindex_def socket_create_udp_socket_def Let_def
      split: option.splits prod.splits if_splits)

lemma unicast_frame:
  assumes f: "frame_law os table"
    and u: "rip_send_advertisement_unicast os w db es n target i = Some (w', rc)"
  shows "table w' = table w"
proof (cases "n = 0 \<or> \<not> is_initial_request es n")
  case True
  with u have "w' = w" unfolding rip_send_advertisement_unicast_def by (auto split: if_splits)
  then show ?thesis by simp
next
  case False
  obtain sock w1 ec where c: "rip_create_socket_ifindex os w zero_socket i = (sock, w1, ec)" by (metis prod_cases3)
  obtain w2 rc2 where s: "rip_setup_tx_socket os w1 sock = (w2, rc2)" by fastforce
  from u False c s create_ifindex_frame [OF f c] setup_tx_frame [OF f s] frameD(9) [OF f] show ?thesis
    by (auto simp: rip_send_advertisement_unicast_def Let_def bind_eq_Some_conv
        dest: send_response_frame [OF f] split: if_splits ret.splits)
qed

lemma ipc_frame:
  assumes f: "frame_law os table" and h: "rip_ipc_handle_event os call ri w = Some (w', rc)"
    and call: "\<And>c w w' t s. call c w = Some (w', t, s) \<Longrightarrow> table w' = table w"
  shows "table w' = table w"
proof -
  obtain w1 nb c where m: "os_mq_receive os w (ipc_fd ri) REQ_BUFFER_SIZE = (w1, nb, c)" by (metis prod_cases3)
  obtain w2 q where o: "os_mq_open_cli os w1 = (w2, q)" by fastforce
  define close where "close v = (if q \<noteq> 0 then os_mq_close os v q else v)" for v
  have cl: "table (close v) = table v" for v using frameD(16) [OF f] by (simp add: close_def)
  have t2: "table w1 = table w" "table w2 = table w" using frameD(14) [OF f m] frameD(13) [OF f o] by simp_all
  show ?thesis
  proof (cases "nb < 0 \<or> q = - 1 \<or> \<not> os_malloc os w2 sizeof_ipc_response \<or> find_handler (cmd_h ri) c = None")
    case True
    with h m o have "w' \<in> {w1, close w2}"
      unfolding rip_ipc_handle_event_def Let_def close_def by (auto split: if_splits)
    with t2 cl show ?thesis by auto
  next
    case False
    then obtain hl where hl: "find_handler (cmd_h ri) c = Some hl" by blast
    from False h m o hl obtain w3 out st where r: "run_handler os call hl w2 = Some (w3, out, st)"
      and w': "w' = close (fst (os_mq_send os w3 q (status_code st) out))"
      by (auto simp: rip_ipc_handle_event_def close_def bind_eq_Some_conv split_beta Let_def)
    have "table w3 = table w2"
    proof (cases "os_fmemopen os w2 resp_output_size")
      case True
      with r obtain tx s where "call hl w2 = Some (w3, tx, s)"
        by (auto simp: run_handler_def bind_eq_Some_conv split_beta Let_def)
      then show ?thesis by (rule call)
    qed (use r in \<open>simp add: run_handler_def\<close>)
    moreover have "table (fst (os_mq_send os w3 q (status_code st) out)) = table w3"
      using frameD(15) [OF f] by (metis prod.collapse)
    ultimately show ?thesis using w' cl t2 by simp
  qed
qed

lemma ipc_call_frame:
  assumes "kernel_laws os table" "rip_ipc_call os db c w = Some (w', t, s)"
  shows "table w' = table w"
  using assms(2) kernel_lawsD(3) [OF assms(1)]
  by (cases c) (auto simp: rip_route_sprintf_table_def dump_caches_def bind_eq_Some_conv split: prod.splits option.splits)

section \<open>Handlers keep the table and the database in step\<close>

lemma message_synced:
  assumes laws: "machine_laws os table r0 n0 a0" and ok: "routes_ok db" and sp: "db_space 501 db"
    and law: "buffer_law os" and s: "in_step os table r0 n0 a0 T w (ok_map db)"
    and h: "rip_handle_message_event os w db ifcs fd = Some (w', db', rc)"
  shows "in_step os table r0 n0 a0 T w' (ok_map db')"
proof (cases "rip_find_rx_socket_by_fd (da_items ifcs) fd")
  case None
  with h s show ?thesis by (simp add: rip_handle_message_event_def)
next
  case (Some sock)
  note l = laws [unfolded machine_laws_def]
  have f: "frame_law os table" using l by blast
  obtain w1 nb sender buff where rv: "os_recvfrom os w (sock_fd sock) sizeof_msg_buffer = (w1, nb, sender, buff)"
    by (metis prod_cases4)
  let ?n = "unat (calculate_entries_count (word_of_int nb))" and ?es = "entries buff"
  have s1: "in_step os table r0 n0 a0 T w1 (ok_map db)" by (rule in_step_table [OF s frameD(11) [OF f rv]])
  have "w' = w1 \<and> db' = db \<or>
    (\<exists>st. rip_handle_response os w1 db ?es ?n sender (sock_if_index sock) = Some (w', db', st)) \<or>
    rip_send_advertisement_unicast os w1 db ?es ?n sender (sock_if_index sock) = Some (w', rc) \<and> db' = db"
    using h Some rv
    by (simp add: rip_handle_message_event_def rip_recvfrom_def Let_def bind_eq_Some_conv split: if_splits) auto
  then consider "w' = w1" "db' = db"
    | st where "rip_handle_response os w1 db ?es ?n sender (sock_if_index sock) = Some (w', db', st)"
    | "rip_send_advertisement_unicast os w1 db ?es ?n sender (sock_if_index sock) = Some (w', rc)" "db' = db" by blast
  then show ?thesis
  proof cases
    case 1
    with s1 show ?thesis by simp
  next
    case (2 st)
    then have e: "handle_entries os w1 db (take ?n ?es) sender (sock_if_index sock) 0 = Some (w', db', st)"
      unfolding rip_handle_response_def by (auto split: if_splits)
    have "length ?es = 500" using law rv by (simp add: buffer_law_def msg_buffer_entries_def)
    then have "db_space (1 + length (take ?n ?es)) db" by (intro db_space_le [OF sp]) simp
    from entries_synced [OF _ _ _ ok this s1 e] l show ?thesis by blast
  next
    case 3
    with in_step_table [OF s1 unicast_frame [OF f 3(1)]] show ?thesis by simp
  qed
qed

lemma marked_synced:
  assumes "routes_ok db" "in_step os table r0 n0 a0 T w (ok_map db)"
  shows "in_step os table r0 n0 a0 T w (ok_map (rip_db_mark_all_routes_as_unchanged db))"
  unfolding mark_unchanged_refines(3) [OF routes_okD(1,2) [OF assms(1)]]
  by (rule in_step_map [OF assms(2)]) simp

interpretation ts: timeout_pass os now
  "\<lambda>w db. machine_laws os table r0 n0 a0 \<longrightarrow> in_step os table r0 n0 a0 T w (ok_map db)"
  "\<lambda>r. True" True for os now table r0 n0 a0 T
proof unfold_locales
  fix w db p assume J: "machine_laws os table r0 n0 a0 \<longrightarrow> in_step os table r0 n0 a0 T w (ok_map db)"
    and ok: "routes_ok db" and v: "hm_valid (ok_routes db) p"
  let ?x = "item_at (ok_routes db) p"
  note inv = routes_okD(1) [OF ok]
  have st: "ok_map db (route_key ?x) = Some ?x" by (rule hm.valid_stored [OF db_inv_parts(1) [OF inv] v])
  have "db_valid db (In_ok p)" using v by simp
  from db_write_ok(2) [OF inv this, of age] have
    m: "ok_map (rip_db_write db (In_ok p) age) = (ok_map db)(route_key ?x \<mapsto> age ?x)" by simp
  from J in_step_same [of os table r0 n0 a0 T w "ok_map db" "route_key ?x" ?x "age ?x"] st
  show "machine_laws os table r0 n0 a0 \<longrightarrow> in_step os table r0 n0 a0 T w (ok_map (rip_db_write db (In_ok p) age))"
    unfolding m by simp
next
  fix w db p w' db' rc assume J: "machine_laws os table r0 n0 a0 \<longrightarrow> in_step os table r0 n0 a0 T w (ok_map db)"
    and ok: "routes_ok db" "db_space 1 db" and v: "hm_valid (ok_routes db) p"
    and e: "rip_route_timeout_expired os w db (In_ok p) now = Some (w', db', rc)"
  let ?x = "item_at (ok_routes db) p"
  have st: "ok_map db (route_key ?x) = Some ?x"
    by (rule hm.valid_stored [OF db_inv_parts(1) [OF routes_okD(1) [OF ok(1)]] v])
  from timeout_expired_refines [OF ok v, of os w now] e obtain ec where
    d: "rip_route_delete_route os w ?x = Some (w', ec)" "ok_map db' = (ok_map db)(route_key ?x := None)" by auto
  with delete_in_step [OF _ _ _ ok(1) st _ d(1), of table r0 n0 a0 T] J
  show "machine_laws os table r0 n0 a0 \<longrightarrow> in_step os table r0 n0 a0 T w' (ok_map db')"
    by (simp add: machine_laws_def)
qed simp_all

lemma timeout_synced:
  assumes "machine_laws os table r0 n0 a0" "routes_ok db" "db_space 1 db" "in_step os table r0 n0 a0 T w (ok_map db)"
    and "timeout_loop os now w db iter_zero False = Some (w', db', g, rc)"
  shows "in_step os table r0 n0 a0 T w' (ok_map db')"
  using ts.timeout_loop_refines [OF assms(2,3) passed_fresh_start [OF routes_okD(1) [OF assms(2)]],
      of os table r0 n0 a0 T w now False] assms(1,4,5)
  unfolding ts.pass_done_def by auto

lemma update_frame:
  assumes f: "frame_law os table" and h: "rip_t_update_expired os (w, ctx) = Some ((w', ctx'), rc)"
  shows "table w' = table w"
proof -
  note T = timer_frame [OF f]
  obtain t w1 ec where c: "timer_clear os w (t_update (timers ctx)) = (t, w1, ec)" by (metis prod_cases3)
  show ?thesis
  proof (cases "ec = 0")
    case False
    with h c T(1) [OF c] show ?thesis by (auto simp: rip_t_update_expired_def)
  next
    case True
    with h c obtain w2 db ec2 where
      m: "rip_send_advertisement_multicast os w1 (ctx_db ctx) (rip_ifcs ctx) False = Some (w2, db, ec2)"
      by (auto simp: rip_t_update_expired_def bind_eq_Some_conv)
    obtain w3 v where p: "create_t_update_time os w2 = (w3, v)" by fastforce
    obtain t' w4 ec4 where s: "timer_start_oneshot os w3 t v = (t', w4, ec4)" by (metis prod_cases3)
    have "w' = w2 \<or> w' = w4"
      using h c m p s True unfolding rip_t_update_expired_def Let_def by (auto split: if_splits)
    with T(1) [OF c] multicast_frame [OF f m] T(4) [OF p] T(2) [OF s] show ?thesis by auto
  qed
qed

lemma gc_frame:
  assumes f: "frame_law os table" and h: "rip_t_gc_expired os (w, ctx) = Some ((w', ctx'), rc)"
  shows "table w' = table w"
proof -
  note T = timer_frame [OF f]
  obtain t w1 ec where c: "timer_clear os w (t_gc (timers ctx)) = (t, w1, ec)" by (metis prod_cases3)
  obtain w2 now where m: "get_monotonic_time os w1 = (w2, now)" by fastforce
  obtain t' w3 ec3 where s: "timer_start_oneshot os w2 t (of_int GC_PERIOD_TIMER) = (t', w3, ec3)" by (metis prod_cases3)
  have "w' = w1 \<or> w' = w2 \<or> w' = w3"
    using h c m s unfolding rip_t_gc_expired_def Let_def
    by (cases now) (auto simp: bind_eq_Some_conv split: if_splits)
  with T(1) [OF c] T(5) [OF m] T(2) [OF s] show ?thesis by auto
qed

lemma check_frame:
  assumes f: "frame_law os table" and h: "check_route_changed os (w, ctx) = Some ((w', ctx'), ec)"
  shows "table w' = table w"
proof (cases "timer_is_ticking (t_triggered_lock (timers ctx)) \<or> \<not> rip_db_any_route_changed (ctx_db ctx)")
  case True
  with h have "w' = w" by (auto simp: check_route_changed_def split: if_splits)
  then show ?thesis by simp
next
  case False
  with h obtain w1 db ec1 where
    m: "rip_send_advertisement_multicast os w (ctx_db ctx) (rip_ifcs ctx) True = Some (w1, db, ec1)"
    by (auto simp: check_route_changed_def bind_eq_Some_conv)
  obtain w2 v where p: "get_random_float os w1 1 5 = (w2, v)" by fastforce
  obtain t w3 ec3 where s: "timer_start_oneshot os w2 (t_triggered_lock (timers ctx)) v = (t, w3, ec3)"
    by (metis prod_cases3)
  have "w' = w1 \<or> w' = w3"
    using h m p s False unfolding check_route_changed_def Let_def by (auto split: if_splits)
  with multicast_frame [OF f m] timer_frame(3) [OF f p] timer_frame(2) [OF f s] show ?thesis by auto
qed

lemma quiet_call_frame:
  assumes f: "frame_law os table" and k: "kernel_laws os table" and q: "quiet (ev_cb e)"
    and c: "rip_call os ri e (w, ctx) = Some ((w', ctx'), rc)"
  shows "table w' = table w"
proof (cases "ev_cb e")
  case Cb_t_request_warmup
  with c have "rip_t_request_warmup_expired os (w, ctx) = Some ((w', ctx'), rc)" by simp
  then show ?thesis
    unfolding rip_t_request_warmup_expired_def rip_send_request_multicast_def Let_def
    by (auto simp: bind_eq_Some_conv dest!: timer_frame(1) [OF f] send_requests_frame [OF f] split: prod.splits if_splits)
next
  case Cb_t_triggered_lock
  with c have "rip_t_triggered_lock_expired os (w, ctx) = Some ((w', ctx'), rc)" by simp
  then show ?thesis
    unfolding rip_t_triggered_lock_expired_def Let_def by (auto dest!: timer_frame(1) [OF f] split: prod.splits)
next
  case Cb_route
  with c show ?thesis
    by (auto simp: rip_route_handle_event_def dest!: frameD(17) [OF f] split: prod.splits if_splits)
next
  case Cb_ipc
  with c have "rip_ipc_handle_event os (rip_ipc_call os (ctx_db ctx)) ri w = Some (w', rc)" by (auto simp: bind_eq_Some_conv)
  then show ?thesis by (rule ipc_frame [OF f _ ipc_call_frame [OF k]])
qed (use q c in \<open>simp_all add: quiet_def\<close>)

lemma timeout_handler_parts:
  assumes f: "frame_law os table" and h: "rip_t_timeout_expired os (w, ctx) = Some ((w', ctx'), rc)"
  shows "ctx_db ctx' = ctx_db ctx \<and> table w' = table w \<or>
    (\<exists>now w1 w2 g rc1. timeout_loop os now w1 (ctx_db ctx) iter_zero False = Some (w2, ctx_db ctx', g, rc1) \<and>
       table w1 = table w \<and> table w' = table w2)"
proof -
  note T = timer_frame [OF f]
  obtain t w1 ec where c: "timer_clear os w (t_timeout (timers ctx)) = (t, w1, ec)" by (metis prod_cases3)
  obtain w2 now where m: "get_monotonic_time os w1 = (w2, now)" by fastforce
  note tw = T(1) [OF c] T(5) [OF m]
  show ?thesis
  proof (cases "ec \<noteq> 0 \<or> now = None")
    case True
    with h c m have "ctx_db ctx' = ctx_db ctx \<and> (w' = w1 \<or> w' = w2)"
      unfolding rip_t_timeout_expired_def Let_def by (auto split: if_splits)
    with tw show ?thesis by auto
  next
    case False
    then obtain n where n: "now = Some n" by blast
    with h c m False obtain w3 db g rc1 where
      l: "timeout_loop os n w2 (ctx_db ctx) iter_zero False = Some (w3, db, g, rc1)"
      unfolding rip_t_timeout_expired_def Let_def by (auto simp: bind_eq_Some_conv)
    have "ctx_db ctx' = db \<and> table w' = table w3"
      using h c m n l False by (auto simp: rip_t_timeout_expired_def Let_def dest!: T(2) split: prod.splits if_splits)
    with l tw show ?thesis by (intro disjI2 exI [of _ n] exI [of _ w2] exI [of _ w3]) auto
  qed
qed

definition sync_inv ::
  "('w, 'r, 'n, 'a) os \<Rightarrow> ('w \<Rightarrow> 'r set) \<Rightarrow> 'r \<Rightarrow> 'n \<Rightarrow> 'a \<Rightarrow> 'r set \<Rightarrow> nat \<Rightarrow> 'w \<times> rip_context \<Rightarrow> bool" where
  "sync_inv os table r0 n0 a0 T n ws \<longleftrightarrow> machine_laws os table r0 n0 a0 \<and> loop_inv os n ws \<and>
     in_step os table r0 n0 a0 T (fst ws) (ok_map (ctx_db (snd ws)))"

lemma rip_call_synced:
  assumes i: "sync_inv os table r0 n0 a0 T (Suc n) (w, ctx)" and c: "rip_call os ri e (w, ctx) = Some ((w', ctx'), rc)"
  shows "in_step os table r0 n0 a0 T w' (ok_map (ctx_db ctx'))"
proof -
  have laws: "machine_laws os table r0 n0 a0" and l: "loop_inv os (Suc n) (w, ctx)"
    and s: "in_step os table r0 n0 a0 T w (ok_map (ctx_db ctx))" using i by (simp_all add: sync_inv_def)
  have f: "frame_law os table" and k: "kernel_laws os table" using laws by (simp_all add: machine_laws_def)
  have ok: "routes_ok (ctx_db ctx)" "buffer_law os" and sp: "db_space (500 * Suc n + 1) (ctx_db ctx)"
    using l by (simp_all add: loop_inv_def)
  have sp1: "db_space 1 (ctx_db ctx)" "db_space 501 (ctx_db ctx)" by (rule db_space_le [OF sp]; simp)+
  note S = in_step_table [OF s]
  show ?thesis
  proof (cases "ev_cb e")
    case Cb_message
    with c show ?thesis using message_synced [OF laws ok(1) sp1(2) ok(2) s] by (auto simp: bind_eq_Some_conv)
  next
    case Cb_t_update
    with c have h: "rip_t_update_expired os (w, ctx) = Some ((w', ctx'), rc)" by simp
    have "in_step os table r0 n0 a0 T w (ok_map (ctx_db ctx'))"
      using update_handler_db [OF h] s marked_synced [OF ok(1) s] by auto
    from in_step_table [OF this update_frame [OF f h]] show ?thesis .
  next
    case Cb_t_timeout
    with c have "rip_t_timeout_expired os (w, ctx) = Some ((w', ctx'), rc)" by simp
    from timeout_handler_parts [OF f this] show ?thesis
    proof (elim disjE exE conjE)
      fix now w1 w2 g rc1
      assume t: "timeout_loop os now w1 (ctx_db ctx) iter_zero False = Some (w2, ctx_db ctx', g, rc1)"
        and w: "table w1 = table w" "table w' = table w2"
      from in_step_table [OF timeout_synced [OF laws ok(1) sp1(1) S [OF w(1)] t] w(2)] show ?thesis .
    qed (use S in simp)
  next
    case Cb_t_gc
    with c have h: "rip_t_gc_expired os (w, ctx) = Some ((w', ctx'), rc)" by simp
    have "db_space (0 + 1) (ctx_db ctx)" using sp1(1) by simp
    then have "ok_map (ctx_db ctx') = ok_map (ctx_db ctx)"
      if "gc_loop ma now (ctx_db ctx) iter_zero = Some (ctx_db ctx')" for ma now
      using gc_keeps [OF ok(1), of 0 ma now] that by auto
    with gc_handler_db [OF h] have "ok_map (ctx_db ctx') = ok_map (ctx_db ctx)" by metis
    with S [OF gc_frame [OF f h]] show ?thesis by simp
  qed (use S [OF quiet_call_frame [OF f k _ c]] quiet_call_db [OF _ c] in \<open>simp_all add: quiet_def\<close>)
qed

interpretation sy: polled_callbacks "rip_call os ri" "sync_inv os table r0 n0 a0 T" os for os ri table r0 n0 a0 T
proof unfold_locales
  fix n ws e ws' rc assume i: "sync_inv os table r0 n0 a0 T (Suc n) ws" and c: "rip_call os ri e ws = Some (ws', rc)"
  obtain w ctx w' ctx' where ws: "ws = (w, ctx)" "ws' = (w', ctx')" by fastforce
  have "loop_inv os n ws'" by (rule rip_call_keeps [OF _ c]) (use i in \<open>simp add: sync_inv_def\<close>)
  with rip_call_synced [OF i [unfolded ws] c [unfolded ws]] i ws show "sync_inv os table r0 n0 a0 T n ws'"
    by (simp add: sync_inv_def)
next
  fix n ws m assume "sync_inv os table r0 n0 a0 T n ws" "m \<le> n"
  then show "sync_inv os table r0 n0 a0 T m ws" using loop_inv_weaken [of os n ws m] by (simp add: sync_inv_def)
next
  fix n w x fds assume i: "sync_inv os table r0 n0 a0 T n (w, x)"
  obtain w1 z where p: "os_poll os w fds = (w1, z)" by (cases "os_poll os w fds")
  have "frame_law os table" using i by (simp add: sync_inv_def machine_laws_def)
  from frameD(12) [OF this p] i p show "sync_inv os table r0 n0 a0 T n (fst (os_poll os w fds), x)"
    by (simp add: sync_inv_def loop_inv_def in_step_def synced_def owned_def)
qed

lemma turn_synced:
  assumes "ed_inv ed" "sync_inv os table r0 n0 a0 T (length (da_items (ed_pollfds ed))) ws"
    and t: "rip_handle_events_turn os ri ed ws = Some r"
  shows "in_step os table r0 n0 a0 T (fst (turn_state r)) (ok_map (ctx_db (snd (turn_state r))))"
proof -
  have "sync_inv os table r0 n0 a0 T (0 + length (da_items (ed_pollfds ed))) ws" using assms(2) by simp
  note i = sy.poll_and_dispatch_keeps [OF assms(1) this]
  from t show ?thesis
  proof (cases rule: turn_parts)
    case (stopped ws1 rc1)
    with i [OF stopped(1)] show ?thesis by (simp add: sync_inv_def turn_state_def)
  next
    case (dispatched ws1 ws2 ec)
    obtain w1 ctx1 w2 ctx2 where ws: "ws1 = (w1, ctx1)" "ws2 = (w2, ctx2)" by fastforce
    have f: "frame_law os table" and ok: "routes_ok (ctx_db ctx1)" and s: "in_step os table r0 n0 a0 T w1 (ok_map (ctx_db ctx1))"
      using i [OF dispatched(1)] ws by (simp_all add: sync_inv_def machine_laws_def loop_inv_def)
    have "in_step os table r0 n0 a0 T w1 (ok_map (ctx_db ctx2))"
      using check_route_changed_db [OF dispatched(2) [unfolded ws]] s marked_synced [OF ok s] by auto
    from in_step_table [OF this check_frame [OF f dispatched(2) [unfolded ws]]] ws dispatched(3) show ?thesis
      by (simp add: turn_state_def)
  qed
qed

section \<open>Properties\<close>

lemma sample_deletes: "deletes_ok sample_os"
  unfolding deletes_ok_def
proof (intro allI impI)
  fix w r assume "wf_route r"
  then obtain n where "get_prefix_len (subnet_mask (entry r)) = Some n"
    using wf_mask get_prefix_len_None [of "route_mask r"] by auto
  from sample_create [OF this, of w] show "\<exists>w'. rip_route_delete_route sample_os w r = Some (w', 0)"
    by (auto simp: rip_route_delete_route_def sample_os_def)
qed

lemma sample_frame: "frame_law sample_os id"
  by (simp add: frame_law_def sample_os_def)

lemma sample_kroute:
  "kroute sample_os ([], [], (0, 0, 0)) ((0, 0, 0), 0, 0) (0, 0, 0) r =
     map_option (\<lambda>p. ([AF_INET, RTN_UNICAST, RT_TABLE_MAIN, RTPROT_RIP, 20 + unat (ucast (metric (entry r)) :: u8)],
       [((AF_INET, next_hop (entry r), 32), if_index r, 50)], (AF_INET, ip_address (entry r), word_of_nat p)))
     (get_prefix_len (route_mask r))"
  by (cases "get_prefix_len (route_mask r)")
    (simp_all add: kroute_def rip_fill_nl_addr_def rip_fill_next_hop_def rip_fill_route_def sample_os_def)

lemma mask_of_prefix:
  assumes "is_net_mask_valid m = Some True" "get_prefix_len m = Some p"
  shows "p \<le> 31 \<and> m = htonl (host_mask p)"
proof -
  from assms(1) obtain q where q: "1 \<le> q" "q \<le> 31" "ntohl m = host_mask q" by (auto simp: is_net_mask_valid_total)
  then have "m = htonl (host_mask q)" by (metis htonl_swap)
  with get_prefix_len_host_mask [of q] q assms(2) show ?thesis by simp
qed

lemma sample_kroute_law: "kroute_law sample_os ([], [], (0, 0, 0)) ((0, 0, 0), 0, 0) (0, 0, 0)"
  unfolding kroute_law_def
proof (intro allI impI)
  fix a b x assume wf: "wf_route a" "wf_route b"
    and k: "kroute sample_os ([], [], (0, 0, 0)) ((0, 0, 0), 0, 0) (0, 0, 0) a = Some x"
      "kroute sample_os ([], [], (0, 0, 0)) ((0, 0, 0), 0, 0) (0, 0, 0) b = Some x"
  from k obtain p q where pq: "get_prefix_len (route_mask a) = Some p" "get_prefix_len (route_mask b) = Some q"
    by (auto simp: sample_kroute)
  from mask_of_prefix [OF _ pq(1)] mask_of_prefix [OF _ pq(2)] wf
  have m: "p \<le> 31" "route_mask a = htonl (host_mask p)" "q \<le> 31" "route_mask b = htonl (host_mask q)"
    by (simp_all add: wf_route_def)
  from k pq have e: "next_hop (entry a) = next_hop (entry b)" "if_index a = if_index b"
    "ip_address (entry a) = ip_address (entry b)" "(word_of_nat p :: u8) = word_of_nat q"
    by (auto simp: sample_kroute)
  have "unat (word_of_nat p :: u8) = p" "unat (word_of_nat q :: u8) = q"
    unfolding unat_of_nat by (rule mod_less; use m in simp)+
  with e(4) have "p = q" by metis
  with m e show "route_key a = route_key b" by (simp add: route_key_def)
qed

lemma sample_machine: "machine_laws sample_os id ([], [], (0, 0, 0)) ((0, 0, 0), 0, 0) (0, 0, 0)"
  using sample_laws sample_frame sample_kroute_law by (simp add: machine_laws_def)

text \<open>
  The kernel follows the database. If every learned route in use is in the kernel's table
  when the loop of \<^verbatim>\<open>rip_handle_events\<close> is entered (the table is empty of them at the start, when
  there are no learned routes), this holds at the start of every turn and after the last one, for every sequence of
  messages and timer events and whichever calls fail; and so does what is said of the rest of the
  table. It is assumed that the table changes only
  by the two netlink calls of the daemon, as they report, and that libnl keeps different routes
  apart.
\<close>

lemma turn_in_step:
  assumes "machine_laws os table r0 n0 a0" "buffer_law os" "ed_inv ed"
    and "routes_ok (ctx_db (snd ws))" "in_step os table r0 n0 a0 T (fst ws) (ok_map (ctx_db (snd ws)))"
    and "has_room ed ws" "rip_handle_events_turn os ri ed ws = Some r"
  shows "routes_ok (ctx_db (snd (turn_state r))) \<and>
    in_step os table r0 n0 a0 T (fst (turn_state r)) (ok_map (ctx_db (snd (turn_state r))))"
proof -
  have "sync_inv os table r0 n0 a0 T (length (da_items (ed_pollfds ed))) ws"
    using assms(1,2,4-6) by (simp add: sync_inv_def loop_inv_def has_room_def)
  from turn_synced [OF assms(3) this assms(7)] turn_keeps [OF assms(3,2,4,6,7)] show ?thesis by blast
qed

lemma kernel_follows_database:
  assumes "machine_laws os table r0 n0 a0" "buffer_law os" "ed_inv ed"
    and "routes_ok (ctx_db (snd ws0))" "in_step os table r0 n0 a0 T (fst ws0) (ok_map (ctx_db (snd ws0)))"
    and "rip_reachable os ri ed ws0 ws"
  shows "routes_ok (ctx_db (snd ws)) \<and> in_step os table r0 n0 a0 T (fst ws) (ok_map (ctx_db (snd ws)))"
  using assms(6)
proof (induction rule: rip_reachable.induct)
  case (turn ws ws')
  with turn_in_step [OF assms(1-3), of ws T ri "Inl ws'"] show ?case by (simp add: turn_state_def)
qed (use assms(4,5) in simp)

end
