(* ===== verification/Rip_Begin.thy ===== *)
theory Rip_Begin
  imports Rip_Main
begin

text \<open>
  Model of the start and the shutdown in \<^verbatim>\<open>rip.c\<close>: the advertised networks of the configuration
  become local routes, the timers are started and the descriptors registered.
\<close>

section \<open>Local routes\<close>

definition add_advertised_network_to_db ::
  "('w, 'r, 'n, 'a) os \<Rightarrow> 'w \<Rightarrow> rip_db \<Rightarrow> advertised_network \<Rightarrow> (rip_db \<times> int) option" where
  "add_advertised_network_to_db os w db adv_network = do {
     dev \<leftarrow> net_dev adv_network;
     let desc = zero_route\<lparr>if_index := os_if_nametoindex os w dev\<rparr>;
     if if_index desc = 0 then Some (db, 1)
     else do {
       let desc = desc\<lparr>in_routing_table := False, is_local := True\<rparr>;
       address \<leftarrow> net_address adv_network;
       case os_inet_pton os address of
         None \<Rightarrow> Some (db, 1)
       | Some addr \<Rightarrow> do {
           prefix \<leftarrow> net_prefix adv_network;
           (ec, msk) \<leftarrow> prefix_len_to_subnet (unat (word_of_int prefix :: u64)) 0;
           if ec \<noteq> 0 then Some (db, 1)
           else do {
             let e = zero_entry\<lparr>ip_address := addr AND msk, subnet_mask := msk, next_hop := 0,
                   routing_family_id := word_of_nat AF_INET, route_tag := 0, metric := 1\<rparr>;
             let desc = desc\<lparr>entry := rip2_entry_hton e\<rparr>;
             (db, desc, ec) \<leftarrow> rip_db_add (os_malloc os w) db desc;
             Some (db, if ec \<noteq> 0 then 1 else 0)
           }
         }
     }
   }"

fun add_advertised_networks_to_db ::
  "('w, 'r, 'n, 'a) os \<Rightarrow> 'w \<Rightarrow> rip_db \<Rightarrow> advertised_network list \<Rightarrow> (rip_db \<times> int) option" where
  "add_advertised_networks_to_db os w db [] = Some (db, 0)"
| "add_advertised_networks_to_db os w db (n # ns) = do {
     (db, ec) \<leftarrow> add_advertised_network_to_db os w db n;
     if ec \<noteq> 0 then Some (db, 1) else add_advertised_networks_to_db os w db ns
   }"

section \<open>Timers and events\<close>

text \<open>\<^verbatim>\<open>timer_init\<close> followed, if it succeeds, by \<^verbatim>\<open>timer_start_oneshot\<close> when a duration is given.\<close>

definition init_and_start ::
  "('w, 'r, 'n, 'a) os \<Rightarrow> 'w \<Rightarrow> timer \<Rightarrow> ('w \<Rightarrow> 'w \<times> real) option \<Rightarrow> timer \<times> 'w \<times> ret" where
  "init_and_start os w t duration =
     (case timer_init os w t of
        (t, w, Exited) \<Rightarrow> (t, w, Exited)
      | (t, w, Returned ec) \<Rightarrow>
          if ec \<noteq> 0 then (t, w, Returned 1)
          else case duration of
            None \<Rightarrow> (t, w, Returned 0)
          | Some d \<Rightarrow> let (w, v) = d w; (t, w, ec) = timer_start_oneshot os w t v
                     in (t, w, Returned (if ec \<noteq> 0 then 1 else 0)))"

definition rip_init_timers ::
  "('w, 'r, 'n, 'a) os \<Rightarrow> 'w \<Rightarrow> rip_timers \<Rightarrow> rip_timers \<times> 'w \<times> ret" where
  "rip_init_timers os w ts =
     (let (t, w, rc) = init_and_start os w (t_update ts) (Some (create_t_update_time os));
          ts = ts\<lparr>t_update := t\<rparr> in
      if rc \<noteq> Returned 0 then (ts, w, rc)
      else let (t, w, rc) = init_and_start os w (t_triggered_lock ts) None;
               ts = ts\<lparr>t_triggered_lock := t\<rparr> in
      if rc \<noteq> Returned 0 then (ts, w, rc)
      else let (t, w, rc) = init_and_start os w (t_request_warmup ts)
                 (Some (\<lambda>w. get_random_float os w (1/2) 1));
               ts = ts\<lparr>t_request_warmup := t\<rparr> in
      if rc \<noteq> Returned 0 then (ts, w, rc)
      else let (t, w, rc) = init_and_start os w (t_timeout ts)
                 (Some (\<lambda>w. (w, of_int TIMEOUT_PERIOD_TIMER)));
               ts = ts\<lparr>t_timeout := t\<rparr> in
      if rc \<noteq> Returned 0 then (ts, w, rc)
      else let (t, w, rc) = init_and_start os w (t_gc ts) None;
               ts = ts\<lparr>t_gc := t\<rparr> in
      (ts, w, rc))"

text \<open>The receive sockets first, then the seven fixed events.\<close>

definition socket_event :: "rip_ifc \<Rightarrow> rip_event" where
  "socket_event ifc = \<lparr>ev_fd = sock_fd (socket_rx ifc), ev_cb = Cb_message, ev_arg = Arg_ctx,
     ev_name = if_name (socket_rx ifc)\<rparr>"

definition fixed_events :: "int \<Rightarrow> rip_ipc \<Rightarrow> rip_timers \<Rightarrow> rip_event list" where
  "fixed_events route_fd ri ts =
     [\<lparr>ev_fd = rip_ipc_getfd ri, ev_cb = Cb_ipc, ev_arg = Arg_ipc_mngr, ev_name = ''ipc''\<rparr>,
      \<lparr>ev_fd = route_fd, ev_cb = Cb_route, ev_arg = Arg_route_mngr, ev_name = ''route_table_update''\<rparr>,
      \<lparr>ev_fd = timer_getfd (t_update ts), ev_cb = Cb_t_update, ev_arg = Arg_ctx, ev_name = ''t_update''\<rparr>,
      \<lparr>ev_fd = timer_getfd (t_triggered_lock ts), ev_cb = Cb_t_triggered_lock,
        ev_arg = Arg_t_triggered_lock, ev_name = ''t_triggered_lock''\<rparr>,
      \<lparr>ev_fd = timer_getfd (t_timeout ts), ev_cb = Cb_t_timeout, ev_arg = Arg_ctx, ev_name = ''t_timeout''\<rparr>,
      \<lparr>ev_fd = timer_getfd (t_gc ts), ev_cb = Cb_t_gc, ev_arg = Arg_ctx, ev_name = ''t_gc''\<rparr>,
      \<lparr>ev_fd = timer_getfd (t_request_warmup ts), ev_cb = Cb_t_request_warmup, ev_arg = Arg_ctx,
        ev_name = ''t_request_warmup''\<rparr>]"

text \<open>The inner \<open>None\<close> is the return value 1.\<close>

definition init_event_dispatcher ::
  "('w, 'r, 'n, 'a) os \<Rightarrow> 'w \<Rightarrow> rip_ipc \<Rightarrow> rip_context \<Rightarrow> (rip_cb, rip_arg) event_dispatcher option option" where
  "init_event_dispatcher os w ri ctx =
     (case event_dispatcher_init (os_malloc os w) (os_malloc os w) zero_event of
        None \<Rightarrow> Some None
      | Some ed \<Rightarrow> do {
          (ed, ec) \<leftarrow> event_dispatcher_register_many (os_malloc os w) ed (map socket_event (da_items (rip_ifcs ctx)));
          if ec \<noteq> 0 then Some None
          else do {
            (ed, ec) \<leftarrow> event_dispatcher_register_many (os_malloc os w) ed
                          (fixed_events (rip_route_getfd os w) ri (timers ctx));
            Some (if ec \<noteq> 0 then None else Some ed)
          }
        })"

section \<open>Start\<close>

definition zero_timer :: timer where
  "zero_timer = \<lparr>timer_fd = 0, ticking = False\<rparr>"

definition zero_timers :: rip_timers where
  "zero_timers = \<lparr>t_update = zero_timer, t_triggered_lock = zero_timer, t_request_warmup = zero_timer,
     t_timeout = zero_timer, t_gc = zero_timer\<rparr>"

text \<open>
  What \<^verbatim>\<open>rip_begin\<close> does before it enters the event loop. \<open>Inr\<close> is an early return or an exit, with
  what the context holds by then: \<open>None\<close> while \<^verbatim>\<open>ctx->rip_db\<close> is still a null pointer. \<open>Inl\<close> is the
  state in which the loop starts. The status of \<^verbatim>\<open>rip_init_timers\<close> is ignored unless
  the process exits. While the configuration is read, memory comes from \<open>malloc\<close> with the state
  \<open>m\<close>; the loops over its arrays read the elements up to the stored length.
\<close>

definition rip_setup ::
  "('w, 'r, 'n, 'a) os \<Rightarrow> 'w \<Rightarrow> 'm allocator \<Rightarrow> 'm \<Rightarrow> config_source \<Rightarrow>
   ('w \<times> rip_context \<times> rip_ipc \<times> (rip_cb, rip_arg) event_dispatcher + 'w \<times> rip_context option \<times> ret) option" where
  "rip_setup os w malloc m src = do {
     (m, cfg, ec) \<leftarrow> rip_read_config malloc m src zero_configuration;
     if ec \<noteq> 0 then Some (Inr (w, None, Returned 1))
     else do {
        rip_configuration_print cfg;
        interfaces \<leftarrow> array_view (rip_interfaces cfg) (rip_interfaces_n cfg);
        (ifcs, w, ec) \<leftarrow> rip_create_sockets os w interfaces da_empty;
        if ec \<noteq> 0 then Some (Inr (w, None, Returned 1))
        else case rip_setup_sockets os w ifcs of (ifcs, w, rc) \<Rightarrow>
        if rc = Exited then Some (Inr (w, None, Exited))
        else if rc \<noteq> Returned 0 then Some (Inr (w, None, Returned 1))
        else case rip_route_init os w of (w, ok) \<Rightarrow>
        if \<not> ok then Some (Inr (w, None, Returned 1))
        else case rip_db_init (os_malloc os w) (os_malloc os w) (os_malloc os w) of
          None \<Rightarrow> Some (Inr (w, None, Returned 1))
        | Some db \<Rightarrow> do {
            nets \<leftarrow> array_view (advertised_networks cfg) (advertised_networks_n cfg);
            (db, ec) \<leftarrow> add_advertised_networks_to_db os w db nets;
            let ctx = \<lparr>config = cfg, rip_ifcs = ifcs, timers = zero_timers, ctx_db = db\<rparr>;
            if ec \<noteq> 0 then Some (Inr (w, Some ctx, Returned 1))
            else case rip_ipc_alloc_init os w [dump_libnl_route_table, dump_rip_routes] of
              (w, None) \<Rightarrow> Some (Inr (w, Some ctx, Returned 1))
            | (w, Some ri) \<Rightarrow>
                (case rip_init_timers os w (timers ctx) of (ts, w, rc) \<Rightarrow> do {
                   let ctx = ctx\<lparr>timers := ts\<rparr>;
                   if rc = Exited then Some (Inr (w, Some ctx, Exited))
                   else do {
                     r \<leftarrow> init_event_dispatcher os w ri ctx;
                     Some (case r of None \<Rightarrow> Inr (w, Some ctx, Returned 1) | Some ed \<Rightarrow> Inl (w, ctx, ri, ed))
                   }
                 })
          }
     }
   }"

text \<open>The result is what the context holds at the end, and the status.\<close>

definition rip_begin ::
  "('w, 'r, 'n, 'a) os \<Rightarrow> 'w \<Rightarrow> 'm allocator \<Rightarrow> 'm \<Rightarrow> config_source \<Rightarrow> ('w \<times> rip_context option \<times> ret) option" where
  "rip_begin os w malloc m src = do {
     r \<leftarrow> rip_setup os w malloc m src;
     case r of
       Inr out \<Rightarrow> Some out
     | Inl (w, ctx, ri, ed) \<Rightarrow> do {
         ((w, ctx), rc) \<leftarrow> rip_handle_events os ri ed (w, ctx);
         Some (w, Some ctx, rc)
       }
   }"

section \<open>Shutdown\<close>

function rip_clear_routing_table ::
  "('w, 'r, 'n, 'a) os \<Rightarrow> 'w \<Rightarrow> rip_db \<Rightarrow> db_iter \<Rightarrow> 'w option" where
  "rip_clear_routing_table os w db iter =
     (case rip_db_iter_const db rip_db_ok iter of
        (iter, None) \<Rightarrow> Some w
      | (iter, Some r) \<Rightarrow>
          if is_local (rip_db_read db r) then rip_clear_routing_table os w db iter
          else do {
            (w, ec) \<leftarrow> rip_route_delete_route os w (rip_db_read db r);
            (if ec \<noteq> 0 then log_route (rip_db_read db r) else Some ());
            rip_clear_routing_table os w db iter
          })"
  by pat_completeness auto
termination
  by (relation "measure (\<lambda>(os, w, db, iter). iter_left db iter)")
    (auto simp: rip_db_iter_const_def dest: iter_left_ok(1) [OF sym])

declare rip_clear_routing_table.simps [simp del]

definition rip_cleanup ::
  "('w, 'r, 'n, 'a) os \<Rightarrow> 'w \<times> rip_context \<Rightarrow> ('w \<times> rip_context) option" where
  "rip_cleanup os = (\<lambda>(w, ctx). do {
     (w, db) \<leftarrow> rip_send_advertisement_shutdown os w (ctx_db ctx) (rip_ifcs ctx);
     w \<leftarrow> rip_clear_routing_table os w db iter_zero;
     Some (w, ctx\<lparr>ctx_db := db\<rparr>)
   })"

end
