(* ===== verification/Rip_Lifecycle.thy ===== *)
theory Rip_Lifecycle
  imports Rip_Sync Rip_Begin
begin

text \<open>
  Start and shutdown of the daemon: the database with which the event loop is entered, and that
  \<^verbatim>\<open>rip_cleanup\<close> takes the learned routes out of the kernel's table.
\<close>

section \<open>Local routes\<close>

text \<open>When \<^verbatim>\<open>rip_db_add\<close> returns 0 the key was free and the mask could be printed.\<close>

lemma db_add_zero:
  assumes inv: "db_inv db" and sp: "db_space 1 db" and g: "garbage_map db (route_key e) = None"
    and a: "rip_db_add ma db e = Some (db', e', 0)"
  shows "route_mask e \<noteq> 0xFFFFFFFF" "ok_map db (route_key e) = None" "db_inv db'" "any_route_changed db'"
    "garbage_map db' = garbage_map db" "ok_map db' = (ok_map db)(route_key e \<mapsto> e\<lparr>changed := True\<rparr>)"
proof -
  let ?e = "e\<lparr>changed := True\<rparr>"
  have "hashmap_count (ok_routes db) + 1 < 2 ^ 16" by (rule db_space_rooms(1) [OF sp order_refl])
  from hm.put_law [OF db_inv_parts(1) [OF inv] this, of ma ?e] obtain ok old where
    p: "hashmap_set ma (ok_routes db) ?e = Some (ok, old)"
    "if hashmap_oom ok then old = None else old = ok_map db (route_key e)" by (auto split: if_splits)
  from a p(1) have "old = None" "\<not> hashmap_oom ok" "log_route ?e \<noteq> None"
    by (auto simp: rip_db_add_def Let_def bind_eq_Some_conv split: option.splits if_splits)
  then show m: "route_mask e \<noteq> 0xFFFFFFFF" and n: "ok_map db (route_key e) = None"
    using p(2) by (auto simp: log_route_eq split: if_splits)
  from rip_db_add_fresh [OF inv sp m n g, of ma] a
  show "db_inv db'" "any_route_changed db'" "garbage_map db' = garbage_map db"
    "ok_map db' = (ok_map db)(route_key e \<mapsto> ?e)" by auto
qed

text \<open>The database while the networks of the configuration are added: local routes only.\<close>

definition local_db :: "rip_db \<Rightarrow> bool" where
  "local_db db \<longleftrightarrow> routes_ok db \<and> garbage_map db = Map.empty \<and>
     (\<forall>r\<in>ran (ok_map db). is_local r \<and> host_metric r = 1 \<and> next_hop (entry r) = 0)"

text \<open>A network of the configuration has its local route: its address cut to its prefix length.\<close>

definition network_stored :: "('w, 'r, 'n, 'a) os \<Rightarrow> rip_db \<Rightarrow> advertised_network \<Rightarrow> bool" where
  "network_stored os db net \<longleftrightarrow> (\<exists>a p addr q. net_address net = Some a \<and> os_inet_pton os a = Some addr \<and>
     net_prefix net = Some p \<and> q = unat (word_of_int p :: u64) \<and> 1 \<le> q \<and> q \<le> 31 \<and>
     (\<exists>r\<in>ran (ok_map db). route_mask r = htonl (host_mask q) \<and> ip_address (entry r) = addr AND htonl (host_mask q)))"

lemma map_le_implies_ran: "f \<subseteq>\<^sub>m g \<Longrightarrow> ran f \<subseteq> ran g"
proof
  fix x assume le: "f \<subseteq>\<^sub>m g" and "x \<in> ran f"
  then obtain k where "f k = Some x" by (auto simp: ran_def)
  with le have "g k = Some x" unfolding map_le_def by (metis domI)
  then show "x \<in> ran g" by (rule ranI)
qed

lemma network_stored_mono: "network_stored os db net \<Longrightarrow> ok_map db \<subseteq>\<^sub>m ok_map db' \<Longrightarrow> network_stored os db' net"
  unfolding network_stored_def using map_le_implies_ran [of "ok_map db" "ok_map db'"] by blast

lemma network_route:
  assumes "add_advertised_network_to_db os w db net = Some (db', 0)"
  shows "\<exists>r e' a p addr q. rip_db_add (os_malloc os w) db r = Some (db', e', 0) \<and> is_local r \<and> host_metric r = 1 \<and>
    next_hop (entry r) = 0 \<and> net_address net = Some a \<and> os_inet_pton os a = Some addr \<and> net_prefix net = Some p \<and>
    q = unat (word_of_int p :: u64) \<and> prefix_len_to_subnet q 0 = Some (0, route_mask r) \<and>
    ip_address (entry r) = addr AND route_mask r"
proof -
  from assms obtain dev a addr p msk e' where n: "net_dev net = Some dev" "net_address net = Some a"
    "os_inet_pton os a = Some addr" "net_prefix net = Some p"
    and m: "prefix_len_to_subnet (unat (word_of_int p :: u64)) 0 = Some (0, msk)"
    and d: "rip_db_add (os_malloc os w) db (zero_route\<lparr>if_index := os_if_nametoindex os w dev,
      in_routing_table := False, is_local := True, entry := rip2_entry_hton (zero_entry\<lparr>ip_address := addr AND msk,
        subnet_mask := msk, next_hop := 0, routing_family_id := word_of_nat AF_INET, route_tag := 0, metric := 1\<rparr>)\<rparr>) =
      Some (db', e', 0)"
    unfolding add_advertised_network_to_db_def Let_def
    by (auto simp: bind_eq_Some_conv split: if_splits option.splits)
  let ?r = "zero_route\<lparr>if_index := os_if_nametoindex os w dev,
      in_routing_table := False, is_local := True, entry := rip2_entry_hton (zero_entry\<lparr>ip_address := addr AND msk,
        subnet_mask := msk, next_hop := 0, routing_family_id := word_of_nat AF_INET, route_tag := 0, metric := 1\<rparr>)\<rparr>"
  have "is_local ?r" "host_metric ?r = 1" "next_hop (entry ?r) = 0" "route_mask ?r = msk"
    "ip_address (entry ?r) = addr AND msk"
    by (simp_all add: host_metric_def rip2_entry_hton_def)
  with d m n show ?thesis by metis
qed

lemma add_network:
  assumes l: "local_db db" and sp: "db_space (n + 1) db"
    and a: "add_advertised_network_to_db os w db net = Some (db', 0)"
  shows "local_db db' \<and> db_space n db' \<and> card (dom (ok_map db')) = card (dom (ok_map db)) + 1 \<and>
    ok_map db \<subseteq>\<^sub>m ok_map db' \<and> network_stored os db' net"
proof -
  have ok: "routes_ok db" and g: "garbage_map db = Map.empty" using l by (simp_all add: local_db_def)
  note inv = routes_okD(1) [OF ok]
  from network_route [OF a] obtain r e' a0 p0 addr p where add: "rip_db_add (os_malloc os w) db r = Some (db', e', 0)"
    and r: "is_local r" "host_metric r = 1" "next_hop (entry r) = 0"
    and n: "net_address net = Some a0" "os_inet_pton os a0 = Some addr" "net_prefix net = Some p0"
      "p = unat (word_of_int p0 :: u64)" "ip_address (entry r) = addr AND route_mask r"
    and p: "prefix_len_to_subnet p 0 = Some (0, route_mask r)" by blast
  have sp1: "db_space 1 db" by (rule db_space_le [OF sp]) simp
  note z = db_add_zero [OF inv sp1 _ add, unfolded g, simplified]
  from p have "1 \<le> p" "p \<le> 32" by (auto simp: prefix_len_to_subnet_def split: if_splits)
  with p have m: "route_mask r = htonl (host_mask p)" by (simp add: prefix_len_to_subnet_defined)
  have "htonl (host_mask 32) = 0xFFFFFFFF" by (simp add: host_mask_def mask_all_ones)
  with z(1) m have "p \<noteq> 32" by auto
  with m \<open>1 \<le> p\<close> \<open>p \<le> 32\<close> have "is_net_mask_valid (route_mask r) = Some True" by (auto simp: is_net_mask_valid_total)
  with r have wf: "wf_route r" by (simp add: wf_route_def)
  let ?r = "r\<lparr>changed := True\<rparr>"
  have rts: "ran (ok_map db') \<subseteq> insert ?r (ran (ok_map db))"
    unfolding z(6) by (rule db_routes_upd(1))
  have ok': "routes_ok db'"
  proof (rule routes_okI [OF ok z(3)])
    fix x assume "x \<in> db_routes db'"
    then show "x \<in> db_routes db \<or> wf_route x \<and> any_route_changed db'"
      using rts z(4,5) wf unfolding db_routes_def by auto
  qed (use z(4) in simp)
  have c: "card (dom (ok_map db')) = card (dom (ok_map db)) + 1"
    unfolding z(6) using z(2) by (simp add: card_insert_if domIff)
  have "ok_map db \<subseteq>\<^sub>m ok_map db'" unfolding z(6) using z(2) by (auto simp: map_le_def)
  moreover have "ok_map db' (route_key r) = Some ?r" unfolding z(6) by simp
  then have "?r \<in> ran (ok_map db')" by (rule ranI)
  then have "network_stored os db' net"
    unfolding network_stored_def
    using n m \<open>1 \<le> p\<close> \<open>p \<le> 32\<close> \<open>p \<noteq> 32\<close>
    by (intro exI [of _ a0] exI [of _ p0] exI [of _ addr] exI [of _ p] conjI bexI [of _ ?r]) simp_all
  moreover have "db_space n db'" by (rule db_space_update [OF inv z(3) sp]) (use c z(5) g in simp)
  moreover have "local_db db'"
    using ok' z(5) rts l r unfolding local_db_def by (auto simp: host_metric_def)
  ultimately show ?thesis using c by blast
qed

lemma add_networks:
  assumes "local_db db" "db_space (n + length ns) db" "add_advertised_networks_to_db os w db ns = Some (db', 0)"
  shows "local_db db' \<and> db_space n db' \<and> card (dom (ok_map db')) = card (dom (ok_map db)) + length ns \<and>
    ok_map db \<subseteq>\<^sub>m ok_map db' \<and> (\<forall>net\<in>set ns. network_stored os db' net)"
  using assms
proof (induction ns arbitrary: db)
  case (Cons x ns)
  from Cons.prems(3) obtain db1 where a: "add_advertised_network_to_db os w db x = Some (db1, 0)"
    "add_advertised_networks_to_db os w db1 ns = Some (db', 0)" by (auto simp: bind_eq_Some_conv split: if_splits)
  have "db_space (n + length ns + 1) db" using Cons.prems(2) by simp
  note n = add_network [OF Cons.prems(1) this a(1)]
  with Cons.IH [OF _ _ a(2)] have h: "local_db db' \<and> db_space n db' \<and>
      card (dom (ok_map db')) = card (dom (ok_map db1)) + length ns \<and> ok_map db1 \<subseteq>\<^sub>m ok_map db' \<and>
      (\<forall>net\<in>set ns. network_stored os db' net)" by blast
  with n have "ok_map db \<subseteq>\<^sub>m ok_map db'" "network_stored os db' x"
    using map_le_trans network_stored_mono by blast+
  with n h show ?case by simp
qed simp

section \<open>Registration\<close>

lemma ed_count: "ed_inv ed \<Longrightarrow> hashmap_count (ed_events ed) = length (da_items (ed_pollfds ed))"
  using hm_count_card [of ev_fd "ed_events ed"] by (simp add: ed_inv_def hashmap_count_def distinct_card)

lemma register_many_refines:
  assumes "ed_inv ed" "length (da_items (ed_pollfds ed)) + length es + 1 < 2 ^ 16"
    and "event_dispatcher_register_many ma ed es = Some (ed', 0)"
  shows "ed_inv ed' \<and> da_items (ed_pollfds ed') = da_items (ed_pollfds ed) @ map ev_fd es \<and>
    (\<forall>e\<in>set es. ed_map ed' (ev_fd e) = Some e) \<and> ed_map ed \<subseteq>\<^sub>m ed_map ed'"
  using assms
proof (induction es arbitrary: ed)
  case (Cons e es)
  from Cons.prems(3) obtain ed1 where r: "event_dispatcher_register ma ed e = Some (ed1, 0)"
    "event_dispatcher_register_many ma ed1 es = Some (ed', 0)" by (auto simp: bind_eq_Some_conv split: if_splits)
  have "hashmap_count (ed_events ed) + 1 < 2 ^ 16" using Cons.prems(2) ed_count [OF Cons.prems(1)] by simp
  from register_refines(1) [OF Cons.prems(1) this r(1)] have
    i: "ed_inv ed1" "ed_map ed1 = (ed_map ed)(ev_fd e \<mapsto> e)"
    "da_items (ed_pollfds ed1) = da_items (ed_pollfds ed) @ [ev_fd e]" "ev_fd e \<notin> dom (ed_map ed)" by auto
  from Cons.IH [OF i(1) _ r(2)] Cons.prems(2) i(3) have
    h: "ed_inv ed'" "da_items (ed_pollfds ed') = da_items (ed_pollfds ed1) @ map ev_fd es"
    "\<forall>e\<in>set es. ed_map ed' (ev_fd e) = Some e" "ed_map ed1 \<subseteq>\<^sub>m ed_map ed'" by auto
  have "ed_map ed' (ev_fd e) = Some e" using h(4) i(2) by (auto simp: map_le_def)
  moreover have "ed_map ed \<subseteq>\<^sub>m ed_map ed1" using i(2,4) by (auto simp: map_le_def)
  then have "ed_map ed \<subseteq>\<^sub>m ed_map ed'" using h(4) by (rule map_le_trans)
  ultimately show ?case using h(1-3) i(3) by simp
qed (simp add: map_le_def)

lemma register_many_total:
  assumes "ed_inv ed" "length (da_items (ed_pollfds ed)) + length es + 1 < 2 ^ 16" "\<forall>n. ma n"
    and "distinct (da_items (ed_pollfds ed) @ map ev_fd es)"
  shows "\<exists>ed'. event_dispatcher_register_many ma ed es = Some (ed', 0)"
  using assms(1,2,4)
proof (induction es arbitrary: ed)
  case (Cons e es)
  have room: "hashmap_count (ed_events ed) + 1 < 2 ^ 16" using Cons.prems(2) ed_count [OF Cons.prems(1)] by simp
  have "ev_fd e \<notin> dom (ed_map ed)" using Cons.prems(1,3) by (auto simp: ed_inv_def)
  with register_total [OF Cons.prems(1) room assms(3), of e] obtain ed1 where
    r: "event_dispatcher_register ma ed e = Some (ed1, 0)" by auto
  from register_refines(1) [OF Cons.prems(1) room r] Cons.IH [of ed1] Cons.prems(2,3) r show ?case by auto
qed simp

lemma init_dispatcher_refines:
  assumes "init_event_dispatcher os w ri ctx = Some (Some ed)" "length (da_items (rip_ifcs ctx)) + 10 < 2 ^ 16"
  defines "es \<equiv> map socket_event (da_items (rip_ifcs ctx)) @ fixed_events (rip_route_getfd os w) ri (timers ctx)"
  shows "ed_inv ed \<and> da_items (ed_pollfds ed) = map ev_fd es \<and> (\<forall>e\<in>set es. ed_map ed (ev_fd e) = Some e)"
proof -
  let ?s = "map socket_event (da_items (rip_ifcs ctx))"
    and ?f = "fixed_events (rip_route_getfd os w) ri (timers ctx)"
  from assms(1) obtain ed0 ed1 where i: "event_dispatcher_init (os_malloc os w) (os_malloc os w) zero_event = Some ed0"
    and r: "event_dispatcher_register_many (os_malloc os w) ed0 ?s = Some (ed1, 0)"
      "event_dispatcher_register_many (os_malloc os w) ed1 ?f = Some (ed, 0)"
    unfolding init_event_dispatcher_def by (auto simp: bind_eq_Some_conv split: option.splits if_splits)
  note i0 = dispatcher_init_inv [OF i]
  have r1: "ed_inv ed1" "da_items (ed_pollfds ed1) = map ev_fd ?s" "\<forall>e\<in>set ?s. ed_map ed1 (ev_fd e) = Some e"
    using register_many_refines [OF i0(1) _ r(1)] i0(2) assms(2) by simp_all
  have "length ?f = 7" by (simp add: fixed_events_def)
  with r1(2) assms(2) have "length (da_items (ed_pollfds ed1)) + length ?f + 1 < 2 ^ 16" by simp
  from register_many_refines [OF r1(1) this r(2)] have r2: "ed_inv ed"
    "da_items (ed_pollfds ed) = da_items (ed_pollfds ed1) @ map ev_fd ?f"
    "\<forall>e\<in>set ?f. ed_map ed (ev_fd e) = Some e" "ed_map ed1 \<subseteq>\<^sub>m ed_map ed" by blast+
  have "ed_map ed (ev_fd e) = Some e" if "e \<in> set ?s" for e
    using r1(3) that r2(4) unfolding map_le_def by (metis domI)
  then have "\<forall>e\<in>set es. ed_map ed (ev_fd e) = Some e" using r2(3) unfolding es_def set_append by blast
  with r2(1,2) r1(2) show ?thesis unfolding es_def by simp
qed

lemma setup_parts:
  assumes "rip_setup os w malloc m src = Some (Inl (w', ctx, ri, ed))"
  shows "\<exists>m' w1 db interfaces w2 ifcs nets.
    rip_read_config malloc m src zero_configuration = Some (m', config ctx, 0) \<and>
    array_view (rip_interfaces (config ctx)) (rip_interfaces_n (config ctx)) = Some interfaces \<and>
    rip_create_sockets os w interfaces da_empty = Some (ifcs, w2, 0) \<and>
    (\<exists>w3. rip_setup_sockets os w2 ifcs = (rip_ifcs ctx, w3, Returned 0)) \<and>
    rip_db_init (os_malloc os w1) (os_malloc os w1) (os_malloc os w1) = Some db \<and>
    array_view (advertised_networks (config ctx)) (advertised_networks_n (config ctx)) = Some nets \<and>
    add_advertised_networks_to_db os w1 db nets = Some (ctx_db ctx, 0) \<and>
    init_event_dispatcher os w' ri ctx = Some (Some ed)"
  using assms unfolding rip_setup_def Let_def
  by (simp add: bind_eq_Some_conv split: if_splits prod.splits option.splits) fastforce

section \<open>Removing the learned routes\<close>

lemma delete_shrinks:
  assumes "kernel_laws os table" "blank_laws os r0 n0 a0" "rip_route_delete_route os w r = Some (w', ec)"
  shows "table w' \<subseteq> table w" "ec = 0 \<Longrightarrow> kroute os r0 n0 a0 r \<notin> Some ` table w'"
    "table w - own_routes os r0 n0 a0 \<subseteq> table w'"
proof -
  from kernel_delete [OF assms(1,3)] obtain w1 c where c: "rip_rtnl_route_create os w r = Some (w1, c)"
    "if ec = 0 then \<exists>x. c = Some x \<and> table w' = table w - {x} else table w' = table w" by blast
  then show "table w' \<subseteq> table w" by (auto split: if_splits)
  show "kroute os r0 n0 a0 r \<notin> Some ` table w'" if "ec = 0"
    using c that create_kroute [OF assms(2), of w r w1] by auto
  show "table w - own_routes os r0 n0 a0 \<subseteq> table w'"
    using c create_kroute [OF assms(2), of w r w1] by (auto simp: own_routes_def split: if_splits)
qed

lemma clear_end: "rip_db_iter_ok db iter = (iter', None) \<Longrightarrow> rip_clear_routing_table os w db iter = Some w"
  by (subst rip_clear_routing_table.simps) (simp add: rip_db_iter_const_def)

lemma clear_next:
  assumes "rip_db_iter_ok db iter = (iter', Some r)" "route_mask (rip_db_read db r) \<noteq> 0xFFFFFFFF"
    and "\<not> is_local (rip_db_read db r) \<Longrightarrow> rip_route_delete_route os w (rip_db_read db r) = Some (w1, ec)"
  shows "rip_clear_routing_table os w db iter =
    rip_clear_routing_table os (if is_local (rip_db_read db r) then w else w1) db iter'"
  using assms by (subst rip_clear_routing_table.simps) (simp add: rip_db_iter_const_def log_route_eq)

lemma clear_refines:
  assumes "db_inv db" "\<And>r. r \<in> db_routes db \<Longrightarrow> wf_route r"
  shows "\<exists>w'. rip_clear_routing_table os w db iter = Some w' \<and>
    (kernel_laws os table \<and> blank_laws os r0 n0 a0 \<longrightarrow>
      table w' \<subseteq> table w \<and> table w - own_routes os r0 n0 a0 \<subseteq> table w' \<and>
      (deletes_ok os \<longrightarrow> (\<forall>r\<in>set (hm_pending (ok_routes db) (ok_routes_iter iter)).
         is_local r \<or> kroute os r0 n0 a0 r \<notin> Some ` table w')))"
proof (induction "iter_left db iter" arbitrary: iter w rule: less_induct)
  case less
  obtain iter' r where it: "rip_db_iter_ok db iter = (iter', r)" by fastforce
  note law = iter_ok_law [OF assms(1) it]
  show ?case
  proof (cases r)
    case None
    with law(1) it show ?thesis by (auto simp: clear_end)
  next
    case (Some r')
    with law(1) obtain p where p: "r' = In_ok p" "hm_valid (ok_routes db) p"
      "hm_pending (ok_routes db) (ok_routes_iter iter) =
        item_at (ok_routes db) p # hm_pending (ok_routes db) (ok_routes_iter iter')" by auto
    let ?x = "item_at (ok_routes db) p"
    have "ok_map db (route_key ?x) = Some ?x" by (rule hm.valid_stored [OF db_inv_parts(1) [OF assms(1)] p(2)])
    then have wf: "wf_route ?x" by (rule assms(2) [OF ok_route_in])
    obtain w1 ec where d: "rip_route_delete_route os w ?x = Some (w1, ec)"
      using delete_route_total [OF wf_mask [OF wf], of os w] by auto
    let ?w = "if is_local ?x then w else w1"
    have "iter_left db iter' < iter_left db iter" using iter_left_ok(1) it Some by blast
    from less.hyps [OF this, of ?w] obtain w' where
      IH: "rip_clear_routing_table os ?w db iter' = Some w'"
      "kernel_laws os table \<and> blank_laws os r0 n0 a0 \<longrightarrow>
        table w' \<subseteq> table ?w \<and> table ?w - own_routes os r0 n0 a0 \<subseteq> table w' \<and>
        (deletes_ok os \<longrightarrow> (\<forall>r\<in>set (hm_pending (ok_routes db) (ok_routes_iter iter')).
           is_local r \<or> kroute os r0 n0 a0 r \<notin> Some ` table w'))" by blast
    have step: "rip_clear_routing_table os w db iter = Some w'"
      using clear_next [of db iter iter' r' os w w1 ec] it Some p(1) wf_mask [OF wf] d IH(1) by simp
    have "table w' \<subseteq> table w \<and> table w - own_routes os r0 n0 a0 \<subseteq> table w' \<and> (deletes_ok os \<longrightarrow> is_local ?x \<or> kroute os r0 n0 a0 ?x \<notin> Some ` table w')"
      if laws: "kernel_laws os table \<and> blank_laws os r0 n0 a0"
    proof (intro conjI impI)
      note ds = delete_shrinks [OF conjunct1 [OF laws] conjunct2 [OF laws] d]
      show "table w' \<subseteq> table w" "table w - own_routes os r0 n0 a0 \<subseteq> table w'"
        using IH(2) laws ds(1,3) by (auto split: if_splits)
      assume "deletes_ok os"
      then obtain w2 where "rip_route_delete_route os w ?x = Some (w2, 0)" using wf unfolding deletes_ok_def by blast
      with d have "ec = 0" by simp
      with ds(2) IH(2) laws show "is_local ?x \<or> kroute os r0 n0 a0 ?x \<notin> Some ` table w'"
        by (cases "is_local ?x") auto
    qed
    with step IH(2) p(3) show ?thesis by auto
  qed
qed

section \<open>Properties\<close>

text \<open>The database after the shutdown announcement.\<close>

lemma shutdown_db:
  assumes ok: "routes_ok db" and h: "rip_send_advertisement_shutdown os w db ifcs = Some (w', db')"
  shows "routes_ok db'" "ok_map db' = map_option (\<lambda>r. r\<lparr>entry := (entry r)\<lparr>metric := htonl 16\<rparr>, changed := False\<rparr>) \<circ> ok_map db"
proof -
  let ?f = "\<lambda>r. r\<lparr>entry := (entry r)\<lparr>metric := htonl 16\<rparr>\<rparr>"
  let ?db = "rip_db_update_all ?f db iter_zero"
  have k: "\<And>r. route_key (?f r) = route_key r" by simp
  note u = update_all_from_start [OF routes_okD(1) [OF ok], of ?f, OF k]
  have rts: "db_routes ?db = ?f ` db_routes db"
    unfolding db_routes_def u(3,4) ran_map_option by blast
  have wf: "wf_route r \<Longrightarrow> wf_route (?f r)" for r by (simp add: wf_route_def host_metric_def)
  have ok16: "routes_ok ?db"
    using ok wf u(1,2) unfolding routes_ok_alt rts by auto
  have db': "db' = rip_db_mark_all_routes_as_unchanged ?db"
    using h multicast_db unfolding rip_send_advertisement_shutdown_def Let_def by (fastforce simp: bind_eq_Some_conv)
  show "routes_ok db'" unfolding db' by (rule mark_unchanged_ok(1) [OF ok16])
  show "ok_map db' = map_option (\<lambda>r. r\<lparr>entry := (entry r)\<lparr>metric := htonl 16\<rparr>, changed := False\<rparr>) \<circ> ok_map db"
    unfolding db' mark_unchanged_refines(3) [OF routes_okD(1,2) [OF ok16]] u(3)
    by (simp add: fun_eq_iff option.map_comp comp_def)
qed

lemma setup_sockets_names:
  assumes "rip_setup_sockets_from os w passed rest = (xs, w', rc)"
  shows "map (\<lambda>i. if_name (socket_rx i)) xs = map (\<lambda>i. if_name (socket_rx i)) (passed @ rest)"
  using assms
proof (induction rest arbitrary: w passed)
  case (Cons ifc rest)
  obtain rx w1 rc1 where s: "setup_socket_multicast_rx os w (socket_rx ifc) = (rx, w1, rc1)" by (metis prod_cases3)
  then have "if_name rx = if_name (socket_rx ifc)"
    by (auto simp: setup_socket_multicast_rx_def socket_create_udp_socket_def Let_def split: prod.splits if_splits ret.splits)
  with s Cons show ?case by (auto simp: Let_def split: prod.splits if_splits)
qed simp

lemma setup_refines:
  assumes "rip_setup os w malloc m src = Some (Inl (w', ctx, ri, ed))"
    and "advertised_networks_n (config ctx) < 2 ^ 16" "rip_interfaces_n (config ctx) + 10 < 2 ^ 16"
  shows "(\<exists>m'. rip_read_config malloc m src zero_configuration = Some (m', config ctx, 0)) \<and>
    routes_ok (ctx_db ctx) \<and> garbage_map (ctx_db ctx) = Map.empty \<and>
    card (dom (ok_map (ctx_db ctx))) = advertised_networks_n (config ctx) \<and>
    (\<forall>nets. advertised_networks (config ctx) = Some nets \<longrightarrow> (\<forall>net\<in>set nets. network_stored os (ctx_db ctx) net)) \<and>
    (\<forall>r\<in>ran (ok_map (ctx_db ctx)). is_local r \<and> host_metric r = 1) \<and>
    rip_interfaces (config ctx) = Some (map (\<lambda>i. \<lparr>ifc_dev = Some (if_name (socket_rx i))\<rparr>) (da_items (rip_ifcs ctx))) \<and>
    ed_inv ed \<and>
    (let es = map socket_event (da_items (rip_ifcs ctx)) @ fixed_events (rip_route_getfd os w') ri (timers ctx)
     in da_items (ed_pollfds ed) = map ev_fd es \<and> (\<forall>e\<in>set es. ed_map ed (ev_fd e) = Some e))"
proof -
  from setup_parts [OF assms(1)] obtain m' w1 db interfaces w2 ifcs nets w3 where
    rd: "rip_read_config malloc m src zero_configuration = Some (m', config ctx, 0)"
    and i: "array_view (rip_interfaces (config ctx)) (rip_interfaces_n (config ctx)) = Some interfaces"
      "rip_create_sockets os w interfaces da_empty = Some (ifcs, w2, 0)"
      "rip_setup_sockets os w2 ifcs = (rip_ifcs ctx, w3, Returned 0)"
    and d: "rip_db_init (os_malloc os w1) (os_malloc os w1) (os_malloc os w1) = Some db"
      "array_view (advertised_networks (config ctx)) (advertised_networks_n (config ctx)) = Some nets"
      "add_advertised_networks_to_db os w1 db nets = Some (ctx_db ctx, 0)"
      "init_event_dispatcher os w' ri ctx = Some (Some ed)" by blast
  have c: "complete (config ctx)" using read_config_parts [OF rd] by blast
  have ifs: "rip_interfaces (config ctx) = Some interfaces" "length interfaces = rip_interfaces_n (config ctx)"
    using complete_views(2) [OF c] i(1) c by (auto simp: complete_def)
  have nts: "length nets = advertised_networks_n (config ctx)" "\<And>ns. advertised_networks (config ctx) = Some ns \<Longrightarrow> ns = nets"
    using complete_views(3) [OF c] d(2) by auto
  have names: "map (\<lambda>i. if_name (socket_rx i)) (da_items (rip_ifcs ctx)) = map (\<lambda>i. if_name (socket_rx i)) (da_items ifcs)"
  proof -
    from i(3) obtain xs where "rip_setup_sockets_from os w2 [] (da_items ifcs) = (xs, w3, Returned 0)"
      "rip_ifcs ctx = ifcs\<lparr>da_items := xs\<rparr>" by (auto simp: rip_setup_sockets_def Let_def split: prod.splits)
    from setup_sockets_names [OF this(1)] this(2) show ?thesis by simp
  qed
  from create_sockets_names [OF i(2)] have "map ifc_dev interfaces = map Some (map (\<lambda>i. if_name (socket_rx i)) (da_items ifcs))"
    by (simp add: da_empty_def comp_def)
  then have dev: "map ifc_dev interfaces = map (\<lambda>i. Some (if_name (socket_rx i))) (da_items (rip_ifcs ctx))"
    unfolding names [symmetric] by (simp add: comp_def)
  have "map (\<lambda>x. \<lparr>ifc_dev = ifc_dev x\<rparr>) interfaces = interfaces" by (rule map_idI) simp
  then have "interfaces = map (\<lambda>d. \<lparr>ifc_dev = d\<rparr>) (map ifc_dev interfaces)" by (simp add: comp_def)
  then have int: "interfaces = map (\<lambda>i. \<lparr>ifc_dev = Some (if_name (socket_rx i))\<rparr>) (da_items (rip_ifcs ctx))"
    unfolding dev by (simp add: comp_def)
  then have "length (da_items (rip_ifcs ctx)) + 10 < 2 ^ 16" using assms(3) ifs(2) by (metis length_map)
  note ed = init_dispatcher_refines [OF d(4) this]
  note db = rip_db_init_ok [OF d(1)]
  have "local_db db" using db by (simp add: local_db_def routes_ok_def flag_covers_def db_routes_def)
  from add_networks [OF this _ d(3), of 0] db assms(2) nts(1) have
    "local_db (ctx_db ctx)" "card (dom (ok_map (ctx_db ctx))) = advertised_networks_n (config ctx)"
    "\<forall>net\<in>set nets. network_stored os (ctx_db ctx) net" by simp_all
  with ed rd nts(2) ifs(1) int show ?thesis by (auto simp: local_db_def Let_def)
qed

text \<open>
  C15: start. When \<^verbatim>\<open>rip_begin\<close> gets as far as the event loop, the configuration was read and is the
  one in use; the database satisfies the invariant and holds exactly one local route of metric 1
  per configured network, its address cut to its prefix length, and no other route; there is
  one interface per configured device, in order; and the dispatcher polls the receive sockets,
  then the message queue, the netlink socket and the five timers, with each descriptor registered
  for its own handler. The prefix lengths need no hypothesis: with one outside 1 to 31 this point
  is not reached.
\<close>

theorem setup_establishes:
  assumes "rip_setup os w malloc m src = Some (Inl (w', ctx, ri, ed))"
    and "advertised_networks_n (config ctx) < 2 ^ 16" "rip_interfaces_n (config ctx) + 10 < 2 ^ 16"
  shows "(\<exists>m'. rip_read_config malloc m src zero_configuration = Some (m', config ctx, 0)) \<and>
    routes_ok (ctx_db ctx) \<and> garbage_map (ctx_db ctx) = Map.empty \<and>
    card (dom (ok_map (ctx_db ctx))) = advertised_networks_n (config ctx) \<and>
    (\<forall>nets. advertised_networks (config ctx) = Some nets \<longrightarrow> (\<forall>net\<in>set nets. network_stored os (ctx_db ctx) net)) \<and>
    (\<forall>r\<in>ran (ok_map (ctx_db ctx)). is_local r \<and> host_metric r = 1) \<and>
    rip_interfaces (config ctx) = Some (map (\<lambda>i. \<lparr>ifc_dev = Some (if_name (socket_rx i))\<rparr>) (da_items (rip_ifcs ctx))) \<and>
    ed_inv ed \<and>
    (let es = map socket_event (da_items (rip_ifcs ctx)) @ fixed_events (rip_route_getfd os w') ri (timers ctx)
     in da_items (ed_pollfds ed) = map ev_fd es \<and> (\<forall>e\<in>set es. ed_map ed (ev_fd e) = Some e))"
  by (rule setup_refines [OF assms])

text \<open>
  For the example: a machine whose timer descriptors are distinct, counted by marks in its state,
  where the timer of the timeout becomes ready but cannot be read, and a configuration with one network.
\<close>

definition start_os :: "(sample_world, sample_route, sample_nexthop, sample_addr) os" where
  "start_os = sample_os\<lparr>os_timerfd_create :=
     (\<lambda>w. (insert ([card w], [], (0, 0, 0)) w, 20 + int (card w))),
     os_poll := (\<lambda>w fds. (w, 1, \<lambda>i. if i = 4 then 1 else 0)), os_read := (\<lambda>w fd. (w, - 1))\<rparr>"

definition start_network :: advertised_network where
  "start_network = \<lparr>net_address = Some ''10.1.0.0'', net_prefix = Some 16, net_dev = Some ''eth0''\<rparr>"

definition start_cfg :: rip_configuration where
  "start_cfg = \<lparr>cfg_version = Some 2, rip_interfaces = Some [], rip_interfaces_n = 0,
     advertised_networks = Some [start_network], advertised_networks_n = 1\<rparr>"

definition start_source :: config_source where
  "start_source = \<lparr>file_opened = True, parser_initialized = True, parser_loaded = Some (document_of
    [YAML_MAPPING_NODE [(2, 3)], YAML_SCALAR_NODE ''rip_configuration'', YAML_MAPPING_NODE [(4, 5), (6, 7), (8, 9)],
     YAML_SCALAR_NODE ''version'', YAML_SCALAR_NODE ''2'', YAML_SCALAR_NODE ''rip_interfaces'', YAML_SEQUENCE_NODE [],
     YAML_SCALAR_NODE ''advertised_networks'', YAML_SEQUENCE_NODE [10],
     YAML_MAPPING_NODE [(11, 12), (13, 14), (15, 16)], YAML_SCALAR_NODE ''address'', YAML_SCALAR_NODE ''10.1.0.0'',
     YAML_SCALAR_NODE ''prefix'', YAML_SCALAR_NODE ''16'', YAML_SCALAR_NODE ''dev'', YAML_SCALAR_NODE ''eth0''])\<rparr>"

definition start_malloc :: "unit allocator" where
  "start_malloc m n = (m, True)"

lemma start_read: "rip_read_config start_malloc () start_source zero_configuration = Some ((), start_cfg, 0)"
  by code_simp

lemma start_network_added:
  "\<exists>db. add_advertised_networks_to_db start_os {} sample_db [start_network] = Some (db, 0)"
proof -
  let ?m = "htonl (host_mask 16)"
  let ?r = "zero_route\<lparr>if_index := 3, in_routing_table := False, is_local := True,
    entry := rip2_entry_hton (zero_entry\<lparr>ip_address := 0x0000010A AND ?m, subnet_mask := ?m, next_hop := 0,
      routing_family_id := word_of_nat AF_INET, route_tag := 0, metric := 1\<rparr>)\<rparr>"
  have "get_prefix_len ?m \<noteq> None" using get_prefix_len_host_mask [of 16] by simp
  then have "?m \<noteq> 0xFFFFFFFF" using get_prefix_len_None [of ?m] by simp
  then have m: "route_mask ?r \<noteq> 0xFFFFFFFF" by (simp add: rip2_entry_hton_def)
  have o: "os_malloc start_os {} = (\<lambda>_. True)" "os_if_nametoindex start_os {} d = 3"
    "os_inet_pton start_os a = Some 0x0000010A" for d a
    by (simp_all add: start_os_def sample_os_def)
  from rip_db_add_fresh [OF sample_db_ok(1) sample_db_space(2) m, of "\<lambda>_. True"] obtain db where
    "rip_db_add (os_malloc start_os {}) sample_db ?r = Some (db, ?r\<lparr>changed := True\<rparr>, 0)"
    by (auto simp: sample_db_ok o)
  then have "add_advertised_network_to_db start_os {} sample_db start_network = Some (db, 0)"
    by (simp add: add_advertised_network_to_db_def start_network_def o prefix_len_to_subnet_defined Let_def)
  then show ?thesis by simp
qed

lemma start_timers:
  "\<exists>ts w. rip_init_timers start_os {} zero_timers = (ts, w, Returned 0) \<and>
     map timer_fd [t_update ts, t_triggered_lock ts, t_timeout ts, t_gc ts, t_request_warmup ts] = [20, 21, 23, 24, 22]"
proof -
  define d where "d n = (([n], [], (0, 0, 0)) :: sample_route)" for n
  have dd: "d n = d k \<longleftrightarrow> n = k" for n k by (simp add: d_def)
  have c: "os_timerfd_create start_os w = (insert (d (card w)) w, 20 + int (card w))" for w
    by (simp add: start_os_def d_def)
  have s: "timer_start_oneshot start_os w t v = (t\<lparr>ticking := True\<rparr>, w, 0)" for w t v
    by (simp add: timer_start_oneshot_def timer_set_def start_os_def sample_os_def)
  have u: "fst (create_t_update_time start_os w) = w" "fst (get_random_float start_os w a b) = w" for w a b
    by (simp_all add: create_t_update_time_def get_random_float_def start_os_def sample_os_def split: prod.splits)
  have i: "init_and_start start_os w zero_timer (Some f) =
      (\<lparr>timer_fd = 20 + int (card w), ticking = True\<rparr>, insert (d (card w)) w, Returned 0)"
    if "\<And>w. fst (f w) = w" for f w
    using that [of "insert (d (card w)) w"]
    by (cases "f (insert (d (card w)) w)") (simp add: init_and_start_def timer_init_def zero_timer_def c s)
  have n: "init_and_start start_os w zero_timer None =
      (\<lparr>timer_fd = 20 + int (card w), ticking = False\<rparr>, insert (d (card w)) w, Returned 0)" for w
    by (simp add: init_and_start_def timer_init_def zero_timer_def c)
  show ?thesis
    by (simp add: rip_init_timers_def zero_timers_def i n u dd)
qed

lemma start_setup:
  "\<exists>w' ctx ri ed. rip_setup start_os {} start_malloc () start_source = Some (Inl (w', ctx, ri, ed)) \<and>
     config ctx = start_cfg"
proof -
  from start_network_added obtain db where
    n: "add_advertised_networks_to_db start_os {} sample_db [start_network] = Some (db, 0)" by blast
  from start_timers obtain ts w where
    t: "rip_init_timers start_os {} zero_timers = (ts, w, Returned 0)"
    "timer_fd (t_update ts) = 20" "timer_fd (t_triggered_lock ts) = 21" "timer_fd (t_timeout ts) = 23"
    "timer_fd (t_gc ts) = 24" "timer_fd (t_request_warmup ts) = 22" by auto
  let ?ctx = "\<lparr>config = start_cfg, rip_ifcs = da_empty, timers = ts, ctx_db = db\<rparr>"
    and ?ri = "\<lparr>ipc_fd = 6, cmd_h = [dump_libnl_route_table, dump_rip_routes]\<rparr>"
  have mem: "os_malloc start_os v = (\<lambda>_. True)" for v by (simp add: start_os_def sample_os_def)
  obtain ed0 where i: "event_dispatcher_init (\<lambda>_. True) (\<lambda>_. True) zero_event = Some ed0"
    by (auto simp: event_dispatcher_init_def hashmap_new_def hashmap_new_with_allocator_def Let_def)
  have fd: "rip_route_getfd start_os w = 9" by (simp add: rip_route_getfd_def start_os_def sample_os_def)
  have "\<exists>ed. event_dispatcher_register_many (\<lambda>_. True) ed0 (fixed_events 9 ?ri ts) = Some (ed, 0)"
    by (rule register_many_total [OF dispatcher_init_inv(1) [OF i]])
      (use dispatcher_init_inv(2) [OF i] t in \<open>simp_all add: fixed_events_def timer_getfd_def rip_ipc_getfd_def\<close>)
  then obtain ed where e: "event_dispatcher_register_many (\<lambda>_. True) ed0 (fixed_events 9 ?ri ts) = Some (ed, 0)" by blast
  have d: "init_event_dispatcher start_os w ?ri ?ctx = Some (Some ed)"
    using i e by (simp add: init_event_dispatcher_def mem fd da_empty_def)
  have "rip_configuration_print start_cfg = Some ()" "array_view (rip_interfaces start_cfg) (rip_interfaces_n start_cfg) = Some []"
    "array_view (advertised_networks start_cfg) (advertised_networks_n start_cfg) = Some [start_network]" by code_simp+
  moreover have "rip_create_sockets start_os {} [] da_empty = Some (da_empty, {}, 0)"
    "rip_setup_sockets start_os {} da_empty = (da_empty, {}, Returned 0)" "rip_route_init start_os {} = ({}, True)"
    "rip_ipc_alloc_init start_os {} [dump_libnl_route_table, dump_rip_routes] = ({}, Some ?ri)"
    by (simp_all add: rip_route_init_def rip_setup_sockets_def da_empty_def rip_ipc_alloc_init_def start_os_def sample_os_def)
  ultimately have "rip_setup start_os {} start_malloc () start_source = Some (Inl (w, ?ctx, ?ri, ed))"
    using n t(1) d sample_db_new by (simp add: rip_setup_def start_read mem Let_def)
  then show ?thesis by (intro exI conjI) (assumption, simp)
qed

theorem setup_establishes_witness:
  "\<exists>w' ctx ri ed. rip_setup start_os {} start_malloc () start_source = Some (Inl (w', ctx, ri, ed)) \<and>
     routes_ok (ctx_db ctx) \<and> card (dom (ok_map (ctx_db ctx))) = 1 \<and> network_stored start_os (ctx_db ctx) start_network \<and>
     length (da_items (ed_pollfds ed)) = 7"
proof -
  from start_setup obtain w' ctx ri ed where
    s: "rip_setup start_os {} start_malloc () start_source = Some (Inl (w', ctx, ri, ed))" "config ctx = start_cfg" by blast
  from setup_establishes [OF s(1)] s show ?thesis
    by (intro exI [of _ w'] exI [of _ ctx] exI [of _ ri] exI [of _ ed])
      (simp add: start_cfg_def fixed_events_def Let_def)
qed

text \<open>
  The shutdown. \<^verbatim>\<open>rip_cleanup\<close> returns when the last announcement fits the message buffers; it only
  removes routes of its own from the kernel's table, and if no deletion fails, no learned route that was in
  use is left there, although the announcement has set every metric to 16 before.
\<close>

lemma cleanup_refines:
  assumes "routes_ok (ctx_db ctx)" "messages_fit (rip_ifcs ctx) False (ctx_db ctx)" "machine_laws os table r0 n0 a0"
  shows "\<exists>w' ctx'. rip_cleanup os (w, ctx) = Some (w', ctx') \<and>
    table w' \<subseteq> table w \<and> table w - own_routes os r0 n0 a0 \<subseteq> table w' \<and>
    (deletes_ok os \<longrightarrow> (\<forall>r\<in>ran (ok_map (ctx_db ctx)). is_local r \<or> kroute os r0 n0 a0 r \<notin> Some ` table w'))"
proof -
  let ?f = "\<lambda>r. r\<lparr>entry := (entry r)\<lparr>metric := htonl 16\<rparr>, changed := False\<rparr>"
  have laws: "kernel_laws os table \<and> blank_laws os r0 n0 a0" "frame_law os table"
    using assms(3) by (simp_all add: machine_laws_def)
  from shutdown_refines [OF routes_okD(1,4) [OF assms(1)] assms(2), of os w] obtain w1 db' where
    s: "rip_send_advertisement_shutdown os w (ctx_db ctx) (rip_ifcs ctx) = Some (w1, db')" by blast
  note d = shutdown_db [OF assms(1) s]
  have t1: "table w1 = table w"
    using s multicast_frame [OF laws(2)] unfolding rip_send_advertisement_shutdown_def Let_def
    by (fastforce simp: bind_eq_Some_conv)
  note inv = routes_okD(1) [OF d(1)]
  from clear_refines [OF inv routes_okD(3) [OF d(1)], of os w1 iter_zero table r0 n0 a0] laws(1) obtain w' where
    c: "rip_clear_routing_table os w1 db' iter_zero = Some w'"
    "table w' \<subseteq> table w1" "table w1 - own_routes os r0 n0 a0 \<subseteq> table w'"
    "deletes_ok os \<Longrightarrow> r \<in> ran (ok_map db') \<Longrightarrow> is_local r \<or> kroute os r0 n0 a0 r \<notin> Some ` table w'" for r
    using hm.pending_all [OF db_inv_parts(1) [OF inv]] by auto
  have "is_local r \<or> kroute os r0 n0 a0 r \<notin> Some ` table w'"
    if "deletes_ok os" "r \<in> ran (ok_map (ctx_db ctx))" for r
  proof -
    have "?f r \<in> ran (ok_map db')" using that(2) unfolding d(2) ran_map_option by blast
    moreover have "host_metric r \<le> 16" using that(2) routes_okD(3) [OF assms(1)] by (auto simp: db_routes_def wf_route_def)
    then have "ntohl (metric (entry r)) < 2 ^ 24" by (simp add: host_metric_def order_le_less_trans)
    then have "kroute os r0 n0 a0 (?f r) = kroute os r0 n0 a0 r" by (intro kroute_key) simp_all
    ultimately show ?thesis using c(4) [OF that(1)] by fastforce
  qed
  with c(1-3) s t1 show ?thesis by (simp add: rip_cleanup_def)
qed

end
