(* ===== verification/Ripd.thy ===== *)
theory Ripd
  imports Rip_Lifecycle
begin

text \<open>
  Model of \<^verbatim>\<open>src/src/ripd.c\<close>: the process around \<^verbatim>\<open>rip_begin\<close>, its exit handler and its signal handler.

  The variable \<^verbatim>\<open>global_ctx\<close> is \<open>None\<close> while it is a null pointer; after that it points to the context,
  whose value is again \<open>None\<close> while \<^verbatim>\<open>rip_db\<close> in it is a null pointer, which \<^verbatim>\<open>rip_cleanup\<close> would
  dereference. A process that ends has a new state of the machine and an exit status. The
  backtrace that the signal handler prints after a segmentation fault has no counterpart.
\<close>

section \<open>Exit and signals\<close>

definition atexit_handler ::
  "('w, 'r, 'n, 'a) os \<Rightarrow> 'w \<Rightarrow> rip_context option option \<Rightarrow> 'w option" where
  "atexit_handler os w global_ctx =
     (case global_ctx of
        None \<Rightarrow> Some w
      | Some None \<Rightarrow> None
      | Some (Some ctx) \<Rightarrow> do { (w, ctx) \<leftarrow> rip_cleanup os (w, ctx); Some w })"

text \<open>\<^verbatim>\<open>exit\<close> of the C library, with the handler that \<^verbatim>\<open>main\<close> has registered.\<close>

definition exit_process ::
  "('w, 'r, 'n, 'a) os \<Rightarrow> 'w \<Rightarrow> rip_context option option \<Rightarrow> int \<Rightarrow> ('w \<times> int) option" where
  "exit_process os w global_ctx status = do {
     w \<leftarrow> atexit_handler os w global_ctx;
     Some (w, status)
   }"

definition sig_handler ::
  "('w, 'r, 'n, 'a) os \<Rightarrow> 'w \<Rightarrow> rip_context option option \<Rightarrow> int \<Rightarrow> ('w \<times> int) option" where
  "sig_handler os w global_ctx sig_num = exit_process os w global_ctx (128 + sig_num)"

text \<open>
  The process as long as no signal arrives. When \<^verbatim>\<open>rip_begin\<close> returns, \<^verbatim>\<open>main\<close> returns its status, the
  context, a local variable of \<^verbatim>\<open>main\<close>, ends its life, and the exit handler then reads it:
  undefined. When the process exits inside \<^verbatim>\<open>rip_begin\<close>, by \<^verbatim>\<open>PANIC\<close> or a failed assertion, the context is alive.
\<close>

definition ripd_main ::
  "('w, 'r, 'n, 'a) os \<Rightarrow> 'w \<Rightarrow> 'm allocator \<Rightarrow> 'm \<Rightarrow> config_source \<Rightarrow> ('w \<times> int) option" where
  "ripd_main os w malloc m src = do {
     (w, ctx, rc) \<leftarrow> rip_begin os w malloc m src;
     case rc of
       Returned ec \<Rightarrow> None
     | Exited \<Rightarrow> exit_process os w (Some ctx) 1
   }"

section \<open>Properties\<close>

text \<open>
  What the kernel's table is after the end, compared with the table \<open>T\<close> the daemon found when it entered its loop: no
  learned route of the database is in it, the routes of others are, and, if there
  was always memory, it holds nothing that was not there before.
\<close>

definition restored ::
  "('w, 'r, 'n, 'a) os \<Rightarrow> ('w \<Rightarrow> 'r set) \<Rightarrow> 'r \<Rightarrow> 'n \<Rightarrow> 'a \<Rightarrow> 'r set \<Rightarrow> rip_db \<Rightarrow> 'w \<Rightarrow> bool" where
  "restored os table r0 n0 a0 T db w \<longleftrightarrow>
     (\<forall>r\<in>ran (ok_map db). is_local r \<or> kroute os r0 n0 a0 r \<notin> Some ` table w) \<and>
     T - own_routes os r0 n0 a0 \<subseteq> table w \<and> (memory_ok os \<longrightarrow> table w \<subseteq> T)"

lemma exit_restores:
  assumes laws: "machine_laws os table r0 n0 a0" "deletes_ok os"
    and ok: "routes_ok (ctx_db ctx)" and s: "in_step os table r0 n0 a0 T w (ok_map (ctx_db ctx))"
    and fit: "messages_fit (rip_ifcs ctx) False (ctx_db ctx)"
  shows "\<exists>w'. exit_process os w (Some (Some ctx)) status = Some (w', status) \<and> restored os table r0 n0 a0 T (ctx_db ctx) w'"
proof -
  from cleanup_refines [OF ok fit laws(1), of w] laws(2) obtain w' ctx' where
    c: "rip_cleanup os (w, ctx) = Some (w', ctx')" "table w' \<subseteq> table w" "table w - own_routes os r0 n0 a0 \<subseteq> table w'"
    "\<forall>r\<in>ran (ok_map (ctx_db ctx)). is_local r \<or> kroute os r0 n0 a0 r \<notin> Some ` table w'" by blast
  have "table w' \<subseteq> T" if "memory_ok os"
    using s that laws(2) c(2,4) unfolding in_step_def owned_def learned_routes_def by blast
  moreover have "T - own_routes os r0 n0 a0 \<subseteq> table w'" using s c(3) unfolding in_step_def owned_def by blast
  ultimately show ?thesis using c by (simp add: exit_process_def atexit_handler_def restored_def)
qed

lemma started_ok:
  assumes "rip_setup os w malloc m src = Some (Inl (w', ctx, ri, ed))"
    and "advertised_networks_n (config ctx) < 2 ^ 16" "rip_interfaces_n (config ctx) + 10 < 2 ^ 16"
  shows "ed_inv ed" "routes_ok (ctx_db (snd (w', ctx)))"
    "in_step os table r0 n0 a0 (table w') (fst (w', ctx)) (ok_map (ctx_db (snd (w', ctx))))"
  using setup_refines [OF assms] by (auto simp: Let_def in_step_def synced_def owned_def)

lemma start_os_laws:
  "machine_laws start_os id ([], [], (0, 0, 0)) ((0, 0, 0), 0, 0) (0, 0, 0)" "buffer_law start_os"
proof -
  have k: "kroute start_os = kroute sample_os"
    unfolding kroute_def rip_fill_nl_addr_def rip_fill_next_hop_def rip_fill_route_def start_os_def
    by (simp cong: if_cong option.case_cong prod.case_cong)
  show "machine_laws start_os id ([], [], (0, 0, 0)) ((0, 0, 0), 0, 0) (0, 0, 0)"
    unfolding machine_laws_def
  proof (intro conjI)
    show "kroute_law start_os ([], [], (0, 0, 0)) ((0, 0, 0), 0, 0) (0, 0, 0)"
      using sample_kroute_law unfolding kroute_law_def k .
  qed (simp_all add: kernel_laws_def blank_laws_def frame_law_def start_os_def sample_os_def)
  show "buffer_law start_os" using sample_buffer by (simp add: buffer_law_def start_os_def)
qed

lemma start_run:
  "\<exists>w ctx ri ed. rip_setup start_os {} start_malloc () start_source = Some (Inl (w, ctx, ri, ed)) \<and> config ctx = start_cfg \<and>
     rip_reachable start_os ri ed (w, ctx) (w, ctx)"
  using start_setup rip_reachable.start by blast

lemma start_deletes: "deletes_ok start_os"
proof -
  have "rip_route_delete_route start_os = rip_route_delete_route sample_os"
    unfolding rip_route_delete_route_def rip_rtnl_route_create_def rip_rtnl_route_create_alloc_def
      rip_fill_nl_addr_def rip_fill_next_hop_def rip_fill_route_def start_os_def
    by (simp cong: if_cong option.case_cong prod.case_cong)
  with sample_deletes show ?thesis by (simp add: deletes_ok_def)
qed

text \<open>In the example the first turn ends the process, because the timer of the timeout cannot be read.\<close>

lemma start_exits:
  "\<exists>w ctx ri ed. rip_setup start_os {} start_malloc () start_source = Some (Inl (w, ctx, ri, ed)) \<and> config ctx = start_cfg \<and>
     roomy start_os ri ed (w, ctx) \<and> rip_begin start_os {} start_malloc () start_source = Some (w, Some ctx, Exited)"
proof -
  from start_setup obtain w ctx ri ed where
    s: "rip_setup start_os {} start_malloc () start_source = Some (Inl (w, ctx, ri, ed))" "config ctx = start_cfg" by blast
  have n: "advertised_networks_n (config ctx) < 2 ^ 16" "rip_interfaces_n (config ctx) + 10 < 2 ^ 16"
    using s(2) by (simp_all add: start_cfg_def)
  note r = setup_refines [OF s(1) n]
  let ?es = "fixed_events (rip_route_getfd start_os w) ri (timers ctx)"
  have i: "da_items (rip_ifcs ctx) = []" using r s(2) by (simp add: start_cfg_def Let_def)
  then have ed: "ed_inv ed" "da_items (ed_pollfds ed) = map ev_fd ?es" "\<forall>e\<in>set ?es. ed_map ed (ev_fd e) = Some e"
    using r by (simp_all add: Let_def)
  let ?e = "\<lparr>ev_fd = timer_getfd (t_timeout (timers ctx)), ev_cb = Cb_t_timeout, ev_arg = Arg_ctx, ev_name = ''t_timeout''\<rparr>"
  have "ready_fds (\<lambda>i. if i = 4 then 1 else 0) 0 (map ev_fd ?es) = [ev_fd ?e]"
    by (simp add: ready_fds_def fixed_events_def POLLIN_def)
  moreover have "ed_map ed (ev_fd ?e) = Some ?e" using ed(3) by (simp add: fixed_events_def)
  moreover have "rip_call start_os ri ?e (w, ctx) = Some ((w, ctx), Exited)"
    by (simp add: rip_t_timeout_expired_def timer_clear_def start_os_def)
  moreover have "os_poll start_os w (da_items (ed_pollfds ed)) = (w, 1, \<lambda>i. if i = 4 then 1 else 0)"
    by (simp add: start_os_def)
  note d = poll_and_dispatch_runs [OF ed(1) this, of "rip_call start_os ri" zero_event ctx]
  ultimately have t: "rip_handle_events_turn start_os ri ed (w, ctx) = Some (Inr ((w, ctx), Exited))"
    using ed(2) by (simp add: rip_handle_events_turn_def d)
  then have "rip_handle_events start_os ri ed (w, ctx) = Some ((w, ctx), Exited)" by (simp add: rip_handle_events.simps)
  with s(1) have b: "rip_begin start_os {} start_malloc () start_source = Some (w, Some ctx, Exited)"
    by (simp add: rip_begin_def)
  have "db_inv (ctx_db ctx)" "card (dom (ok_map (ctx_db ctx))) = 1" "garbage_map (ctx_db ctx) = Map.empty"
    using r s(2) routes_okD(1) by (simp_all add: start_cfg_def)
  then have "has_room ed (w, ctx)"
    by (simp add: has_room_def db_space_def db_count_all ed(2) fixed_events_def del: rip_db_count.simps)
  moreover have "ws = (w, ctx)" if "rip_reachable start_os ri ed (w, ctx) ws" for ws
    using that by induction (simp_all add: t)
  ultimately have "roomy start_os ri ed (w, ctx)" unfolding roomy_def by blast
  with s b show ?thesis by blast
qed

lemma start_fits:
  assumes "rip_setup start_os {} start_malloc () start_source = Some (Inl (w, ctx, ri, ed))" "config ctx = start_cfg"
  shows "advertised_networks_n (config ctx) < 2 ^ 16" "rip_interfaces_n (config ctx) + 10 < 2 ^ 16"
    "messages_fit (rip_ifcs ctx) False (ctx_db ctx)"
proof -
  show n: "advertised_networks_n (config ctx) < 2 ^ 16" "rip_interfaces_n (config ctx) + 10 < 2 ^ 16"
    using assms(2) by (simp_all add: start_cfg_def)
  from setup_refines [OF assms(1) n] assms(2) show "messages_fit (rip_ifcs ctx) False (ctx_db ctx)"
    by (simp add: start_cfg_def messages_fit_def)
qed

text \<open>
  C3: the end by a signal. When the daemon, started by \<^verbatim>\<open>rip_begin\<close>, is interrupted by SIGINT or
  SIGTERM while it waits in \<^verbatim>\<open>poll\<close>, at any turn and after any sequence of messages and timer
  events, the process ends with status 128 plus the signal. None of the learned routes in use is
  then left in the kernel's table, every route the daemon cannot have made is still there, and if
  there was always memory the table holds only what it held when the loop was entered. The last
  announcement has to fit the message buffers and the kernel must not refuse a deletion.
\<close>

theorem signal_clears_kernel:
  assumes "rip_setup os w malloc m src = Some (Inl (w', ctx, ri, ed))"
    and "advertised_networks_n (config ctx) < 2 ^ 16" "rip_interfaces_n (config ctx) + 10 < 2 ^ 16"
    and "machine_laws os table r0 n0 a0" "buffer_law os" "deletes_ok os"
    and "rip_reachable os ri ed (w', ctx) (w1, ctx1)" "messages_fit (rip_ifcs ctx1) False (ctx_db ctx1)"
  shows "\<exists>w2. sig_handler os w1 (Some (Some ctx1)) sig = Some (w2, 128 + sig) \<and>
    restored os table r0 n0 a0 (table w') (ctx_db ctx1) w2"
proof -
  note s = started_ok [OF assms(1-3)]
  from kernel_follows_database [OF assms(4,5) s(1,2,3) assms(7)] have
    "routes_ok (ctx_db ctx1)" "in_step os table r0 n0 a0 (table w') w1 (ok_map (ctx_db ctx1))" by simp_all
  from exit_restores [OF assms(4,6) this assms(8)] show ?thesis unfolding sig_handler_def by blast
qed

theorem signal_clears_kernel_witness:
  "\<exists>w ctx ri ed w2. rip_setup start_os {} start_malloc () start_source = Some (Inl (w, ctx, ri, ed)) \<and>
     sig_handler start_os w (Some (Some ctx)) 15 = Some (w2, 143) \<and>
     restored start_os id ([], [], (0, 0, 0)) ((0, 0, 0), 0, 0) (0, 0, 0) (id w) (ctx_db ctx) w2"
proof -
  from start_run obtain w ctx ri ed where
    s: "rip_setup start_os {} start_malloc () start_source = Some (Inl (w, ctx, ri, ed))" "config ctx = start_cfg"
    and r: "rip_reachable start_os ri ed (w, ctx) (w, ctx)" by blast
  note f = start_fits [OF s]
  from signal_clears_kernel [OF s(1) f(1,2) start_os_laws start_deletes r f(3), of 15] s(1) show ?thesis by auto
qed



end
