(* ===== verification/Rip_Cli.thy ===== *)
theory Rip_Cli
  imports Rip_Loop
begin

text \<open>
  Model of the command line client: the client's side of \<^verbatim>\<open>rip_ipc.c\<close> and \<^verbatim>\<open>rip_cli.c\<close>. The client is a
  process of its own, which shares the message queues with the daemon, so its calls are a record
  over the same state of the machine. What \<^verbatim>\<open>getopt_long\<close> returns, one character per option, is an
  argument. \<^verbatim>\<open>cli_rip_ipc_send_msg\<close> is split where it waits for the response: the daemon runs between
  the two parts.
\<close>

section \<open>The client's side of the queues\<close>

record 'w cli_os =
  cli_malloc :: "'w \<Rightarrow> nat \<Rightarrow> bool"
  cli_mq_open_own :: "'w \<Rightarrow> 'w \<times> int"
  cli_mq_open_daemon :: "'w \<Rightarrow> 'w \<times> int"
  cli_mq_send :: "'w \<Rightarrow> int \<Rightarrow> u32 \<Rightarrow> 'w \<times> int"
  cli_mq_close :: "'w \<Rightarrow> int \<Rightarrow> 'w"
  cli_mq_unlink :: "'w \<Rightarrow> 'w"
  cli_clock_gettime :: "'w \<Rightarrow> timespec"
  cli_mq_timedreceive :: "'w \<Rightarrow> int \<Rightarrow> timespec \<Rightarrow> 'w \<times> int \<times> u32 \<times> string"

text \<open>\<open>None\<close> is \<^verbatim>\<open>exit(1)\<close>.\<close>

definition cli_rip_ipc_alloc_init :: "'w cli_os \<Rightarrow> 'w \<Rightarrow> 'w \<times> rip_ipc option" where
  "cli_rip_ipc_alloc_init co w =
     (if \<not> cli_malloc co w sizeof_rip_ipc then (w, None)
      else let (w, fd) = cli_mq_open_own co w in
      if fd = - 1 then (w, None) else (w, Some \<lparr>ipc_fd = fd, cmd_h = []\<rparr>))"

text \<open>Sending the request; \<open>False\<close> is \<^verbatim>\<open>exit(1)\<close>.\<close>

definition cli_send :: "'w cli_os \<Rightarrow> 'w \<Rightarrow> u32 \<Rightarrow> 'w \<times> bool" where
  "cli_send co w request =
     (let (w, deamons_fd) = cli_mq_open_daemon co w in
      if deamons_fd < 0 then (w, False)
      else let (w, ec) = cli_mq_send co w deamons_fd request in
      if ec < 0 then (w, False) else (cli_mq_close co w deamons_fd, True))"

text \<open>
  Waiting for the response for three seconds. The response is its status and the bytes of its
  output, of which the last is overwritten with \<open>NUL\<close>; \<open>None\<close> is \<^verbatim>\<open>exit(1)\<close>.
\<close>

definition cli_receive :: "'w cli_os \<Rightarrow> rip_ipc \<Rightarrow> 'w \<Rightarrow> 'w \<times> (u32 \<times> string) option" where
  "cli_receive co ri w =
     (let timeout = cli_clock_gettime co w;
          timeout = timeout\<lparr>tv_sec := tv_sec timeout + 3\<rparr>;
          (w, n, status, output) = cli_mq_timedreceive co w (ipc_fd ri) timeout in
      if n < 0 then (w, None) else (w, Some (status, take (resp_output_size - 1) output)))"

definition cli_rip_ipc_send_msg :: "'w cli_os \<Rightarrow> rip_ipc \<Rightarrow> 'w \<Rightarrow> u32 \<Rightarrow> 'w \<times> (u32 \<times> string) option" where
  "cli_rip_ipc_send_msg co ri w request =
     (let (w, ok) = cli_send co w request in if ok then cli_receive co ri w else (w, None))"

definition rip_ipc_free :: "'w cli_os \<Rightarrow> 'w \<Rightarrow> rip_ipc \<Rightarrow> 'w" where
  "rip_ipc_free co w ri = (if ipc_fd ri > 0 then cli_mq_unlink co (cli_mq_close co w (ipc_fd ri)) else w)"

section \<open>The program\<close>

text \<open>The text on the standard output is the second component of a result.\<close>

definition send_cmd :: "'w cli_os \<Rightarrow> rip_ipc \<Rightarrow> 'w \<Rightarrow> rip_ipc_cmd \<Rightarrow> 'w \<times> string \<times> ret" where
  "send_cmd co ri w cmd =
     (case cli_rip_ipc_send_msg co ri w (cmd_code cmd) of
        (w, None) \<Rightarrow> (w, [], Exited)
      | (w, Some (status, output)) \<Rightarrow>
          if status = status_code r_cmd_status_failed
          then (w, ''Failed to execute cmd, r_cmd_status_failed'' @ [CHR 0x0A] @ c_str output, Returned 1)
          else (w, c_str output, Returned 0))"

text \<open>The loop over the options, with the help text an argument.\<close>

fun cli_options :: "'w cli_os \<Rightarrow> string \<Rightarrow> rip_ipc \<Rightarrow> 'w \<Rightarrow> string \<Rightarrow> int \<Rightarrow> string \<Rightarrow> 'w \<times> string \<times> ret" where
  "cli_options co usage ri w out ret [] = (w, out, Returned ret)"
| "cli_options co usage ri w out ret (c # cs) =
     (if c = CHR ''h'' then cli_options co usage ri w (out @ usage) 1 cs
      else if c = CHR ''n'' \<or> c = CHR ''r'' then
        (case send_cmd co ri w (if c = CHR ''n'' then dump_libnl_route_table else dump_rip_routes) of
           (w, txt, Exited) \<Rightarrow> (w, out @ txt, Exited)
         | (w, txt, Returned ret) \<Rightarrow> cli_options co usage ri w (out @ txt) ret cs)
      else cli_options co usage ri w out ret cs)"

definition cli_main :: "'w cli_os \<Rightarrow> string \<Rightarrow> 'w \<Rightarrow> string \<Rightarrow> 'w \<times> string \<times> ret" where
  "cli_main co usage w opts =
     (case cli_rip_ipc_alloc_init co w of
        (w, None) \<Rightarrow> (w, [], Exited)
      | (w, Some ri) \<Rightarrow>
          (case cli_options co usage ri w [] 0 opts of
             (w, out, Exited) \<Rightarrow> (w, out, Exited)
           | (w, out, Returned ret) \<Rightarrow> (rip_ipc_free co w ri, out, Returned ret)))"

section \<open>Request and response\<close>

text \<open>
  What is assumed of the queues: the daemon receives the request the client has sent, and the
  client the response the daemon has sent.
\<close>

definition queue_laws :: "('w, 'r, 'n, 'a) os \<Rightarrow> 'w cli_os \<Rightarrow> rip_ipc \<Rightarrow> bool" where
  "queue_laws os co ri \<longleftrightarrow>
     (\<forall>w w1 c. cli_send co w c = (w1, True) \<longrightarrow>
        (\<exists>w' n. os_mq_receive os w1 (ipc_fd ri) REQ_BUFFER_SIZE = (w', n, c))) \<and>
     (\<forall>w q s t w' ec fd tm. os_mq_send os w q s t = (w', ec) \<longrightarrow> ec \<noteq> - 1 \<longrightarrow>
        (\<exists>w'' n. 0 \<le> n \<and> cli_mq_timedreceive co (if q \<noteq> 0 then os_mq_close os w' q else w') fd tm = (w'', n, s, t)))"

text \<open>A request that the daemon handles with status 0 was answered with what the handler wrote.\<close>

lemma handled_request:
  assumes "rip_ipc_handle_event os call ri w = Some (w', Returned 0)"
    and "os_mq_receive os w (ipc_fd ri) REQ_BUFFER_SIZE = (w1, n, cmd_code c)"
  shows "c \<in> set (cmd_h ri) \<and> (\<exists>v w2 txt out q w3 ec. call c v = Some (w2, txt, r_cmd_status_success) \<and>
    os_fwrite os resp_output_size txt = (out, False) \<and>
    os_mq_send os w2 q 0 out = (w3, ec) \<and> ec \<noteq> - 1 \<and> w' = (if q \<noteq> 0 then os_mq_close os w3 q else w3))"
proof -
  obtain v q where o: "os_mq_open_cli os w1 = (v, q)" by fastforce
  from assms o obtain hl where hl: "find_handler (cmd_h ri) (cmd_code c) = Some hl"
    by (cases "find_handler (cmd_h ri) (cmd_code c)") (auto simp: rip_ipc_handle_event_def Let_def split: if_splits)
  from find_handler_iff [OF hl] have h: "hl = c" "c \<in> set (cmd_h ri)" by (cases hl; cases c; auto)+
  from assms o hl h(1) obtain w2 out st where r: "run_handler os call c v = Some (w2, out, st)"
    and st: "st = r_cmd_status_success" "snd (os_mq_send os w2 q (status_code st) out) \<noteq> - 1"
    and w': "w' = (let w3 = fst (os_mq_send os w2 q (status_code st) out) in if q \<noteq> 0 then os_mq_close os w3 q else w3)"
    by (auto simp: rip_ipc_handle_event_def bind_eq_Some_conv split_beta Let_def split: if_splits)
  from r st(1) obtain tx where "call c v = Some (w2, tx, r_cmd_status_success)" "os_fwrite os resp_output_size tx = (out, False)"
    by (auto simp: run_handler_def bind_eq_Some_conv split_beta Let_def split: if_splits)
      (metis prod.collapse)
  moreover obtain w3 ec where "os_mq_send os w2 q 0 out = (w3, ec)" by fastforce
  ultimately show ?thesis using h(2) st w'
    by (intro conjI exI [of _ v] exI [of _ w2] exI [of _ tx] exI [of _ out] exI [of _ q] exI [of _ w3] exI [of _ ec]) simp_all
qed


text \<open>
  For the example: a machine whose state holds one message, coded as the attributes of a route.
\<close>

definition message :: "nat list \<Rightarrow> sample_world" where
  "message ns = {(ns, [], (0, 0, 0))}"

definition dump_os :: "(sample_world, sample_route, sample_nexthop, sample_addr) os" where
  "dump_os = sample_os\<lparr>
     os_mq_send := (\<lambda>w q s t. (message (unat s # map of_char t), 0)),
     os_mq_receive := (\<lambda>w fd n. (w, 4, word_of_nat (hd (fst (the_elem w)))))\<rparr>"

definition dump_cli :: "sample_world cli_os" where
  "dump_cli = \<lparr>cli_malloc = (\<lambda>w n. True), cli_mq_open_own = (\<lambda>w. (w, 9)), cli_mq_open_daemon = (\<lambda>w. (w, 10)),
     cli_mq_send = (\<lambda>w fd c. (message [unat c], 0)), cli_mq_close = (\<lambda>w fd. w), cli_mq_unlink = id,
     cli_clock_gettime = (\<lambda>w. \<lparr>tv_sec = 0, tv_nsec = 0\<rparr>),
     cli_mq_timedreceive = (\<lambda>w fd tm. let ns = fst (the_elem w) in (w, 1, word_of_nat (hd ns), map char_of (tl ns)))\<rparr>"

lemma dump_queues: "queue_laws dump_os dump_cli ri"
  by (auto simp: queue_laws_def dump_os_def dump_cli_def cli_send_def message_def sample_os_def Let_def comp_def)


end
