(* ===== verification/Hashmap_Util.thy ===== *)
theory Hashmap_Util
  imports Hashmap_Map Complex_Main
begin

text \<open>
  The operations of \<^verbatim>\<open>utils/hashmap.c\<close> that the daemon itself does not call: the two settings, clearing
  and releasing a map with the function that frees its elements, scanning and probing.

  The function \<^verbatim>\<open>elfree\<close>, which \<^verbatim>\<open>hashmap_new\<close> stores in the map, is an argument here; it changes a
  state \<open>'s\<close> that stands for whatever the elements own. A double is a real number or, as \<open>None\<close>, not a
  number. The percentage \<^verbatim>\<open>(uint8_t)(factor * 100)\<close>, which depends on the rounding of the product, is
  an argument \<open>percent\<close>; from it on the threshold is exact, because the number of buckets is a power
  of two.
\<close>

section \<open>Settings\<close>

definition hashmap_set_grow_by_power :: "'a hashmap \<Rightarrow> nat \<Rightarrow> 'a hashmap" where
  "hashmap_set_grow_by_power m pw =
     m\<lparr>growpower := (if pw < 1 then 1 else if pw > 16 then 16 else pw)\<rparr>"

definition clamp_load_factor :: "real option \<Rightarrow> real \<Rightarrow> real" where
  "clamp_load_factor factor default_factor =
     (case factor of
        None \<Rightarrow> default_factor
      | Some f \<Rightarrow> if f < 50 / 100 then 50 / 100 else if f > 95 / 100 then 95 / 100 else f)"

definition hashmap_set_load_factor :: "(real \<Rightarrow> nat) \<Rightarrow> 'a hashmap \<Rightarrow> real option \<Rightarrow> 'a hashmap" where
  "hashmap_set_load_factor percent m factor =
     (let factor = clamp_load_factor factor (real (loadfactor m) / 100);
          m = m\<lparr>loadfactor := percent factor\<rparr>
      in m\<lparr>growat := nbuckets m * loadfactor m div 100\<rparr>)"

section \<open>Clearing and releasing\<close>

definition free_elements :: "('a \<Rightarrow> 's \<Rightarrow> 's) option \<Rightarrow> 'a hashmap \<Rightarrow> 's \<Rightarrow> 's" where
  "free_elements elfree m s =
     (case elfree of
        None \<Rightarrow> s
      | Some f \<Rightarrow> fold (\<lambda>i s. let bucket = bucket_at m i in if b_dib bucket \<noteq> 0 then f (b_item bucket) s else s)
          [0..<nbuckets m] s)"

text \<open>
  When the allocation of a smaller array fails, the old one stays in use, and only its first
  \<^verbatim>\<open>cap\<close> buckets are used from then on; when that of a larger one fails, \<^verbatim>\<open>memset\<close> writes past the old
  one, which is undefined.
\<close>

definition hashmap_clear ::
  "(nat \<Rightarrow> bool) \<Rightarrow> ('a \<Rightarrow> 's \<Rightarrow> 's) option \<Rightarrow> 'a hashmap \<Rightarrow> bool \<Rightarrow> 's \<Rightarrow> ('a hashmap \<times> 's) option" where
  "hashmap_clear malloc elfree m update_cap s =
     (let m = m\<lparr>hm_count := 0\<rparr>;
          s = free_elements elfree m s;
          allocated = (if \<not> update_cap \<and> nbuckets m \<noteq> cap m \<and> malloc (bucketsz m * cap m)
                       then cap m else length (buckets m));
          m = (if update_cap then m\<lparr>cap := nbuckets m\<rparr> else m\<lparr>nbuckets := cap m\<rparr>)
      in if allocated < nbuckets m then None
         else Some (m\<lparr>buckets := replicate (nbuckets m) (empty_bucket (elzero m)),
                      hm_mask := nbuckets m - 1,
                      growat := nbuckets m * loadfactor m div 100,
                      shrinkat := nbuckets m * 10 div 100\<rparr>, s))"

text \<open>The array and the map are released after the elements.\<close>

definition hashmap_free :: "('a \<Rightarrow> 's \<Rightarrow> 's) option \<Rightarrow> 'a hashmap option \<Rightarrow> 's \<Rightarrow> 's" where
  "hashmap_free elfree m s = (case m of None \<Rightarrow> s | Some m \<Rightarrow> free_elements elfree m s)"

section \<open>Scanning and probing\<close>

text \<open>\<open>scan_buckets\<close> is the loop of \<^verbatim>\<open>hashmap_scan\<close>; the callback threads its \<open>udata\<close>.\<close>

fun scan_buckets :: "('a \<Rightarrow> 's \<Rightarrow> bool \<times> 's) \<Rightarrow> 'a bucket list \<Rightarrow> 's \<Rightarrow> bool \<times> 's" where
  "scan_buckets it [] s = (True, s)"
| "scan_buckets it (b # bs) s =
     (if b_dib b = 0 then scan_buckets it bs s
      else case it (b_item b) s of (go, s') \<Rightarrow>
        if go then scan_buckets it bs s' else (False, s'))"

definition hashmap_scan :: "'a hashmap \<Rightarrow> ('a \<Rightarrow> 's \<Rightarrow> bool \<times> 's) \<Rightarrow> 's \<Rightarrow> bool \<times> 's" where
  "hashmap_scan m it udata = scan_buckets it (take (nbuckets m) (buckets m)) udata"

definition hashmap_probe :: "'a hashmap \<Rightarrow> u64 \<Rightarrow> 'a option" where
  "hashmap_probe m position =
     (let bucket = bucket_at m (hash_index (hm_mask m) position)
      in if b_dib bucket = 0 then None else Some (b_item bucket))"

section \<open>The settings keep the map\<close>

lemma settings_ok:
  fixes l :: nat
  assumes "hm_inv key m" "g < nbuckets m" "1 \<le> p"
  defines "m' \<equiv> m\<lparr>loadfactor := l, growat := g, growpower := p\<rparr>"
  shows "hm_inv key m' \<and> hm_lookup key m' = hm_lookup key m"
proof -
  have "get_hash m' = get_hash m" by (rule ext) (simp add: get_hash_def m'_def)
  moreover have "keyed key m' = keyed key m" by (simp add: keyed_def items_match_def get_hash_def m'_def)
  ultimately show ?thesis using assms(1-3) unfolding hm_inv_def hm_lookup_def by (simp add: m'_def)
qed

lemma set_grow_by_power_ok:
  assumes "hm_inv key m"
  shows "hm_inv key (hashmap_set_grow_by_power m p) \<and> hm_lookup key (hashmap_set_grow_by_power m p) = hm_lookup key m"
proof -
  have "hashmap_set_grow_by_power m p = m\<lparr>loadfactor := loadfactor m, growat := growat m,
      growpower := if p < 1 then 1 else if p > 16 then 16 else p\<rparr>"
    by (simp add: hashmap_set_grow_by_power_def)
  then show ?thesis
    using settings_ok [OF assms hm_invD(10) [OF assms], of "if p < 1 then 1 else if p > 16 then 16 else p" "loadfactor m"]
    by (simp only:) simp
qed

text \<open>Whatever the rounding does, the percentage of a clamped factor is between 50 and 95.\<close>

definition percent_law :: "(real \<Rightarrow> nat) \<Rightarrow> bool" where
  "percent_law percent \<longleftrightarrow> (\<forall>f. 50 / 100 \<le> f \<longrightarrow> f \<le> 95 / 100 \<longrightarrow> 50 \<le> percent f \<and> percent f \<le> 95)"

lemma clamp_load_factor_bounds:
  assumes "50 \<le> p" "p \<le> 95"
  shows "50 / 100 \<le> clamp_load_factor f (real p / 100) \<and> clamp_load_factor f (real p / 100) \<le> 95 / 100"
  using assms by (cases f) (auto simp: clamp_load_factor_def)

lemma set_load_factor_ok:
  fixes f :: "real option"
  assumes inv: "hm_inv key m" and law: "percent_law percent" and p: "50 \<le> loadfactor m" "loadfactor m \<le> 95"
  defines "m' \<equiv> hashmap_set_load_factor percent m f"
  shows "hm_inv key m' \<and> hm_lookup key m' = hm_lookup key m \<and> 50 \<le> loadfactor m' \<and> loadfactor m' \<le> 95"
proof -
  let ?p = "percent (clamp_load_factor f (real (loadfactor m) / 100))"
  have b: "50 \<le> ?p" "?p \<le> 95" using law clamp_load_factor_bounds [OF p, of f] by (simp_all add: percent_law_def)
  have m': "m' = m\<lparr>loadfactor := ?p, growat := nbuckets m * ?p div 100, growpower := growpower m\<rparr>"
    by (simp add: m'_def hashmap_set_load_factor_def Let_def)
  have "nbuckets m * ?p < nbuckets m * 100" using b hm_invD(9) [OF inv] by simp
  then have "nbuckets m * ?p div 100 < nbuckets m" by (rule less_mult_imp_div_less)
  moreover have "1 \<le> growpower m" using inv by (simp add: hm_inv_def)
  ultimately have "hm_inv key m' \<and> hm_lookup key m' = hm_lookup key m" unfolding m' by (rule settings_ok [OF inv])
  with b show ?thesis by (simp add: m')
qed

section \<open>Clearing frees each element once\<close>

lemma free_elements_items:
  assumes "length (buckets m) = nbuckets m"
  shows "free_elements (Some f) m s = fold f (items (buckets m)) s"
proof -
  have f: "fold (\<lambda>i. let bucket = bs ! i in if b_dib bucket \<noteq> 0 then f (b_item bucket) else (\<lambda>s. s)) [0..<length bs] s =
      fold f (items bs) s" for bs s
  proof (induction bs arbitrary: s rule: rev_induct)
    case (snoc b bs)
    have "fold (\<lambda>i. let bucket = (bs @ [b]) ! i in if b_dib bucket \<noteq> 0 then f (b_item bucket) else (\<lambda>s. s)) [0..<length bs] s =
        fold (\<lambda>i. let bucket = bs ! i in if b_dib bucket \<noteq> 0 then f (b_item bucket) else (\<lambda>s. s)) [0..<length bs] s"
      by (rule fold_cong) (auto simp: nth_append)
    with snoc show ?case by (simp add: items_def)
  qed (simp add: items_def)
  have "(\<lambda>i s. let bucket = bucket_at m i in if b_dib bucket \<noteq> 0 then f (b_item bucket) s else s) =
      (\<lambda>i. let bucket = buckets m ! i in if b_dib bucket \<noteq> 0 then f (b_item bucket) else (\<lambda>s. s))"
    by (intro ext) (simp add: bucket_at_def Let_def)
  with f [of "buckets m" s] show ?thesis unfolding free_elements_def option.case assms [symmetric] by simp
qed

lemma scan_fold:
  "hashmap_scan m (\<lambda>x s. (True, f x s)) s = (True, fold f (items (take (nbuckets m) (buckets m))) s)"
proof -
  have "scan_buckets (\<lambda>x s. (True, f x s)) bs s = (True, fold f (items bs) s)" for bs s
    by (induction bs arbitrary: s) (simp_all add: items_def)
  then show ?thesis by (simp add: hashmap_scan_def)
qed

lemma cleared_ok:
  assumes inv: "hm_inv key m" and lf: "loadfactor m \<le> 95" and n: "n \<in> {nbuckets m, cap m}" "c \<in> {nbuckets m, cap m}"
  defines "m' \<equiv> m\<lparr>hm_count := 0, cap := c, nbuckets := n, buckets := replicate n (empty_bucket (elzero m)),
    hm_mask := n - 1, growat := n * loadfactor m div 100, shrinkat := n * 10 div 100\<rparr>"
  shows "hm_inv key m' \<and> hm_lookup key m' = Map.empty"
proof -
  have k: "\<exists>k\<ge>4. n = 2 ^ k" "\<exists>k\<ge>4. c = 2 ^ k" using inv n by (auto simp: hm_inv_def)
  then have n16: "16 \<le> n" using power_increasing [of 4 _ "2::nat"] by auto
  have "n * loadfactor m < n * 100" using lf n16 by simp
  then have "n * loadfactor m div 100 < n" "n * 10 div 100 * 2 < n"
    using n16 by (simp_all only: less_mult_imp_div_less)
  moreover have "get_hash m' = get_hash m" by (rule ext) (simp add: get_hash_def m'_def)
  moreover have "keyed key m' = keyed key m" by (simp add: keyed_def items_match_def get_hash_def m'_def)
  ultimately show ?thesis
    using k n16 inv unfolding hm_inv_def hm_lookup_def by (simp add: m'_def robin_replicate_empty)
qed

text \<open>
  C38: clearing a map. \<^verbatim>\<open>hashmap_clear\<close> leaves an empty map that satisfies the invariant, whether the
  allocation of the new array succeeds or not, and has passed every stored element exactly once
  to the function that frees elements, before they are overwritten.
\<close>

theorem hashmap_clear_correct:
  assumes "hm_inv key m" "loadfactor m \<le> 95" "cap m \<le> nbuckets m"
  shows "\<exists>m' xs. hashmap_clear ma (Some f) m update_cap s = Some (m', fold f xs s) \<and>
    hm_inv key m' \<and> hm_lookup key m' = Map.empty \<and>
    distinct (map key xs) \<and> set xs = ran (hm_lookup key m)"
proof -
  note I = hm_invD [OF assms(1)]
  let ?n = "if update_cap then nbuckets m else cap m" and ?c = "if update_cap then nbuckets m else cap m"
  have fr: "free_elements (Some f) (m\<lparr>hm_count := 0\<rparr>) s = fold f (items (buckets m)) s"
    using free_elements_items [of "m\<lparr>hm_count := 0\<rparr>" f s] I(2) by simp
  have "hashmap_clear ma (Some f) m update_cap s = Some (m\<lparr>hm_count := 0, cap := ?c, nbuckets := ?n,
      buckets := replicate ?n (empty_bucket (elzero m)), hm_mask := ?n - 1, growat := ?n * loadfactor m div 100,
      shrinkat := ?n * 10 div 100\<rparr>, fold f (items (buckets m)) s)"
    using assms(3) I(2) fr by (auto simp: hashmap_clear_def Let_def)
  moreover have "set (items (buckets m)) = ran (hm_lookup key m)"
    using hm_lookup_Some [OF assms(1)] by (auto simp: ran_def)
  ultimately show ?thesis using cleared_ok [OF assms(1,2), of ?n ?c] I(8) by auto
qed

theorem hashmap_clear_correct_witness:
  "\<exists>m' xs. hashmap_clear (\<lambda>_. False) (Some (\<lambda>x s. s @ [x])) sample_map False [] = Some (m', fold (\<lambda>x s. s @ [x]) xs []) \<and>
     hm_lookup id m' = Map.empty \<and> set xs = {}"
proof -
  have "loadfactor sample_map \<le> 95" "cap sample_map \<le> nbuckets sample_map"
    by (simp_all add: sample_map_def hashmap_new_def hashmap_new_with_allocator_def Let_def)
  from hashmap_clear_correct [OF sample_map_ok(1) this, of "\<lambda>_. False" "\<lambda>x s. s @ [x]" False "[]"]
  show ?thesis unfolding sample_map_ok(2) by auto
qed

end
