(* ===== verification/Rip_Vector.thy ===== *)
theory Rip_Vector
  imports Rip_Sync
begin

text \<open>
  The daemon as a distance vector protocol. The routes in use are seen as a vector of distances,
  one per destination, neighbour and interface; a received response is a sequence of relaxations of that
  vector, and the announcement of one daemon, received by another, relaxes the vector of the second with the
  routes of the first.
\<close>

section \<open>The abstract protocol\<close>

text \<open>An offer is a way to a destination with its cost; it is taken if it is new or cheaper.\<close>

definition dv_relax :: "'k \<times> nat \<Rightarrow> ('k \<rightharpoonup> nat) \<Rightarrow> ('k \<rightharpoonup> nat)" where
  "dv_relax offer v = (case v (fst offer) of
     None \<Rightarrow> v(fst offer \<mapsto> snd offer)
   | Some c \<Rightarrow> if snd offer < c then v(fst offer \<mapsto> snd offer) else v)"

text \<open>The costs that are known for a destination, and the best of them: the order of the offers does not matter.\<close>

definition dv_costs :: "('k \<times> nat) list \<Rightarrow> ('k \<rightharpoonup> nat) \<Rightarrow> 'k \<Rightarrow> nat set" where
  "dv_costs ocs v k = {c. (k, c) \<in> set ocs} \<union> set_option (v k)"

definition dv_best :: "nat set \<Rightarrow> nat option" where
  "dv_best C = (if C = {} then None else Some (Min C))"

lemma dv_costs_finite [simp]: "finite (dv_costs ocs v k)"
proof -
  have "{c. (k, c) \<in> set ocs} = snd ` {p \<in> set ocs. fst p = k}" by force
  then show ?thesis by (simp add: dv_costs_def)
qed

lemma set_map_filter_Some: "set (List.map_filter f xs) = {y. \<exists>x\<in>set xs. f x = Some y}"
  by (force simp: List.map_filter_def)

lemma dv_costs_snoc: "dv_costs (ocs @ [oc]) v k = (if fst oc = k then insert (snd oc) (dv_costs ocs v k) else dv_costs ocs v k)"
  by (cases oc) (auto simp: dv_costs_def)

lemma fold_relax_best:
  "fold dv_relax ocs v k = dv_best (dv_costs ocs v k)"
  unfolding dv_best_def
proof (induction ocs rule: rev_induct)
  case Nil
  show ?case by (cases "v k") (simp_all add: dv_costs_def)
next
  case (snoc oc ocs)
  then show ?case by (auto simp: dv_relax_def dv_costs_snoc min_def simp del: Min_gr_iff Min_ge_iff split: option.splits)
qed

text \<open>The cost over one more hop; 16 is infinity.\<close>

definition hop :: "nat \<Rightarrow> nat" where
  "hop c = min (c + 1) 16"

definition distances :: "rip_db \<Rightarrow> (route_id \<rightharpoonup> nat)" where
  "distances db = map_option (\<lambda>r. unat (host_metric r)) \<circ> ok_map db"

text \<open>What an entry of a response from the router \<open>s\<close>, received on interface \<open>i\<close>, offers.\<close>

definition offer :: "in_addr \<Rightarrow> int \<Rightarrow> rip2_entry \<Rightarrow> (route_id \<times> nat) option" where
  "offer s i e = (if is_entry_valid (rip2_entry_ntoh e) = Some True
     then Some ((word_of_int i, ip_address e, subnet_mask e, s), hop (unat (ntohl (metric e)))) else None)"

text \<open>The kernel takes every route and gives every route back, and there is memory.\<close>

definition adds_ok :: "('w, 'r, 'n, 'a) os \<Rightarrow> bool" where
  "adds_ok os \<longleftrightarrow> (\<forall>w r. wf_route r \<longrightarrow> (\<exists>w'. rip_route_add_route os w r = Some (w', 0)))"

definition calls_ok :: "('w, 'r, 'n, 'a) os \<Rightarrow> bool" where
  "calls_ok os \<longleftrightarrow> adds_ok os \<and> deletes_ok os \<and> memory_ok os"

section \<open>A response relaxes the vector\<close>

lemma incoming_key: "route_key (incoming e s i) = (word_of_int i, ip_address e, subnet_mask e, s)"
  by (simp add: route_key_def incoming_sel)

lemma incoming_cost:
  assumes "is_entry_valid (rip2_entry_ntoh e) = Some True"
  shows "unat (host_metric (incoming e s i)) = hop (unat (ntohl (metric e)))"
proof -
  have "is_metric_valid (ntohl (metric e))" using assms by (simp add: entry_valid_iff rip2_entry_ntoh_def)
  from update_metric_min(1) [OF this] show ?thesis by (simp add: incoming_sel hop_def)
qed

lemma distances_upd:
  "ok_map db' = (ok_map db)(k \<mapsto> r) \<Longrightarrow> distances db' = (distances db)(k \<mapsto> unat (host_metric r))"
  by (simp add: distances_def fun_eq_iff)

lemma installed_distances:
  assumes "calls_ok os" "wf_route nr" "installed os w db nr w' db' st"
  shows "st = 0" "distances db' = (distances db)(route_key nr \<mapsto> unat (host_metric nr))"
proof -
  from assms(1,2) have "wf_route (nr\<lparr>changed := True\<rparr>)" by simp
  with assms(1) have "\<exists>w'. rip_route_add_route os w (nr\<lparr>changed := True\<rparr>) = Some (w', 0)"
    unfolding calls_ok_def adds_ok_def by blast
  moreover have "os_malloc os w' n" for n using assms(1) by (simp add: calls_ok_def memory_ok_def)
  ultimately have i: "st = 0" "ok_map db' = (ok_map db)(route_key nr \<mapsto> nr\<lparr>changed := True\<rparr>)"
    using assms(3) unfolding installed_def by auto
  show "st = 0" by (rule i)
  show "distances db' = (distances db)(route_key nr \<mapsto> unat (host_metric nr))"
    using distances_upd [OF i(2)] by (simp add: host_metric_def)
qed

lemma entry_relaxes:
  assumes c: "calls_ok os" and ok: "routes_ok db" and sp: "db_space (n + 1) db" and m: "subnet_mask e \<noteq> 0xFFFFFFFF"
  shows "\<exists>w' db'. handle_ripv2_entry os w db e s i = Some (w', db', 0) \<and> routes_ok db' \<and> db_space n db' \<and>
    distances db' = (case offer s i e of None \<Rightarrow> distances db | Some oc \<Rightarrow> dv_relax oc (distances db))"
proof (cases "is_entry_valid (rip2_entry_ntoh e) = Some True")
  case False
  with invalid_entry_ignored [OF _ m, of os w db s i] ok db_space_le [OF sp, of n] show ?thesis
    by (simp add: offer_def)
next
  case v: True
  let ?in = "incoming e s i"
  note wf = incoming_wf [OF v, of s i]
  have o: "offer s i e = Some (route_key ?in, unat (host_metric ?in))"
    using v incoming_cost [OF v, of s i] by (simp add: offer_def incoming_key)
  show ?thesis
  proof (cases "ok_map db (route_key ?in)")
    case None
    from handle_entry_new [OF ok sp v None, of os w] obtain w' db' st where
      h: "handle_ripv2_entry os w db e s i = Some (w', db', st)" "routes_ok db'" "db_space n db'"
      "installed os w db ?in w' db' st" by blast
    with installed_distances [OF c wf h(4)] o None show ?thesis by (simp add: dv_relax_def distances_def)
  next
    case (Some old)
    have "wf_route old" by (rule routes_okD(3) [OF ok ok_route_in [OF Some]])
    with c obtain w1 where d: "rip_route_delete_route os w old = Some (w1, 0)"
      unfolding calls_ok_def deletes_ok_def by blast
    from handle_entry_known [OF ok sp v Some, of os w] d obtain w' db' st where
      h: "handle_ripv2_entry os w db e s i = Some (w', db', st)" "routes_ok db'" "db_space n db'"
      "if host_metric ?in < host_metric old then installed os w1 db ?in w' db' st else db' = db \<and> st = 0"
      by (auto split: if_splits)
    show ?thesis
    proof (cases "host_metric ?in < host_metric old")
      case True
      with h installed_distances [OF c wf, of w1 db w' db' st] o Some show ?thesis
        by (simp add: dv_relax_def distances_def word_less_nat_alt)
    next
      case False
      with h o Some show ?thesis by (simp add: dv_relax_def distances_def word_less_nat_alt)
    qed
  qed
qed

lemma entries_relax:
  assumes c: "calls_ok os"
  shows "routes_ok db \<Longrightarrow> db_space (n + length es) db \<Longrightarrow> \<forall>e\<in>set es. subnet_mask e \<noteq> 0xFFFFFFFF \<Longrightarrow>
    \<exists>w' db'. handle_entries os w db es s i ret = Some (w', db', ret) \<and> routes_ok db' \<and> db_space n db' \<and>
      distances db' = fold dv_relax (List.map_filter (offer s i) es) (distances db)"
proof (induction es arbitrary: w db)
  case (Cons e es)
  from entry_relaxes [OF c Cons.prems(1), of "n + length es" e w s i] Cons.prems(2,3) obtain w1 db1 where
    e: "handle_ripv2_entry os w db e s i = Some (w1, db1, 0)" "routes_ok db1" "db_space (n + length es) db1"
    "distances db1 = (case offer s i e of None \<Rightarrow> distances db | Some oc \<Rightarrow> dv_relax oc (distances db))" by auto
  from Cons.IH [OF e(2,3), of w1] Cons.prems(3) e show ?case
    by (auto simp: List.map_filter_simps split: option.splits)
qed (simp add: List.map_filter_simps)

section \<open>A machine for the examples\<close>

lemma sample_adds: "adds_ok sample_os"
  unfolding adds_ok_def
proof (intro allI impI)
  fix w r assume "wf_route r"
  then obtain n where "get_prefix_len (subnet_mask (entry r)) = Some n"
    using wf_mask get_prefix_len_None [of "route_mask r"] by auto
  from sample_create [OF this, of w] show "\<exists>w'. rip_route_add_route sample_os w r = Some (w', 0)"
    by (auto simp: rip_route_add_route_def sample_os_def)
qed

text \<open>The example machine on which a given message arrives at every read of a socket.\<close>

definition receiving_os :: "nat \<Rightarrow> msg_buffer \<Rightarrow> (sample_world, sample_route, sample_nexthop, sample_addr) os" where
  "receiving_os n b = sample_os\<lparr>os_recvfrom := \<lambda>w fd m. (w, int (sizeof_rip_header + n * sizeof_rip2_entry), 9, b)\<rparr>"

lemma receiving_calls: "calls_ok (receiving_os n b)"
proof -
  have "rip_route_delete_route (receiving_os n b) = rip_route_delete_route sample_os"
    "rip_route_add_route (receiving_os n b) = rip_route_add_route sample_os"
    unfolding rip_route_delete_route_def rip_route_add_route_def rip_rtnl_route_create_def rip_rtnl_route_create_alloc_def
      rip_fill_nl_addr_def rip_fill_next_hop_def rip_fill_route_def receiving_os_def
    by (simp_all cong: if_cong option.case_cong prod.case_cong)
  with sample_adds sample_deletes sample_memory show ?thesis
    by (simp add: calls_ok_def adds_ok_def deletes_ok_def memory_ok_def receiving_os_def)
qed

section \<open>Properties\<close>



text \<open>A datagram from the router \<open>s\<close> is delivered by the next read of the socket.\<close>

definition delivers :: "('w, 'r, 'n, 'a) os \<Rightarrow> 'w \<Rightarrow> int \<Rightarrow> 'w \<Rightarrow> in_addr \<Rightarrow> datagram \<Rightarrow> bool" where
  "delivers os w fd w1 s dg \<longleftrightarrow> (\<exists>buff. os_recvfrom os w fd sizeof_msg_buffer =
       (w1, int (sizeof_rip_header + length (dg_entries dg) * sizeof_rip2_entry), s, buff) \<and>
     header buff = dg_header dg \<and> length (entries buff) = msg_buffer_entries \<and>
     take (length (dg_entries dg)) (entries buff) = dg_entries dg)"

lemma delivered_response:
  assumes f: "rip_find_rx_socket_by_fd (da_items ifcs) fd = Some sock" and d: "delivers os w (sock_fd sock) w1 s dg"
    and "command (dg_header dg) = RIP_CMD_RESPONSE" "length (dg_entries dg) \<le> msg_buffer_entries"
  shows "rip_handle_message_event os w db ifcs fd = do {
    (w', db', ec) \<leftarrow> handle_entries os w1 db (dg_entries dg) s (sock_if_index sock) 0;
    Some (w', db', Returned ec) }"
proof -
  let ?n = "length (dg_entries dg)"
  let ?b = "sizeof_rip_header + ?n * sizeof_rip2_entry"
  from d obtain buff where b: "os_recvfrom os w (sock_fd sock) sizeof_msg_buffer = (w1, int ?b, s, buff)"
    "header buff = dg_header dg" "length (entries buff) = msg_buffer_entries" "take ?n (entries buff) = dg_entries dg"
    unfolding delivers_def by blast
  have "4 \<le> ?b" "?b \<le> sizeof_msg_buffer"
    using assms(4) by (simp_all add: sizeof_msg_buffer_def sizeof_rip_header_def sizeof_rip2_entry_def)
  from entries_count_whole [OF this] have n: "unat (calculate_entries_count (word_of_nat ?b)) = ?n"
    by (simp add: sizeof_rip_header_def sizeof_rip2_entry_def)
  have "rip_recvfrom os w (sock_fd sock) = (w1, Some (s, buff, word_of_nat ?b))"
    unfolding rip_recvfrom_def b(1) Let_def prod.case by (simp del: of_nat_add of_nat_mult)
  with f b n assms(3,4) show ?thesis
    by (simp add: rip_handle_message_event_def rip_handle_response_def Let_def del: of_nat_add of_nat_mult)
qed

lemma advert_offers:
  assumes "routes_ok db" "r \<in> db_routes db"
  shows "offer s i (advert r) = Some (k, c) \<longleftrightarrow> is_unicast_address (ip_address (entry r)) \<and>
    k = (word_of_int i, ip_address (entry r), route_mask r, s) \<and> c = hop (unat (host_metric r))"
proof -
  have "wf_route r" by (rule routes_okD(3) [OF assms])
  then have "is_entry_valid (rip2_entry_ntoh (advert r)) = Some True \<longleftrightarrow> is_unicast_address (ip_address (entry r))"
    by (simp add: wf_route_def entry_valid_iff rip2_entry_ntoh_def host_metric_def is_metric_valid_def INFINITY_METRIC_def)
  then show ?thesis by (auto simp: offer_def host_metric_def)
qed

text \<open>What the routes of one router are worth to a neighbour that hears them from \<open>s\<close> on interface \<open>i\<close>.\<close>

definition heard :: "u32 \<Rightarrow> bool \<Rightarrow> rip_db \<Rightarrow> in_addr \<Rightarrow> int \<Rightarrow> route_id \<Rightarrow> nat set" where
  "heard dest only_changed db s i k = {hop (unat (host_metric r)) | r. r \<in> db_routes db \<and>
     if_index r \<noteq> dest \<and> (only_changed \<longrightarrow> changed r) \<and> is_unicast_address (ip_address (entry r)) \<and>
     k = (word_of_int i, ip_address (entry r), subnet_mask (entry r), s)}"

lemma advertised_costs:
  assumes "routes_ok db"
  shows "dv_costs (List.map_filter (offer s i) (advertised d oc db)) v k = set_option (v k) \<union> heard d oc db s i k"
proof -
  have "{c. (k, c) \<in> set (List.map_filter (offer s i) (advertised d oc db))} =
      {c. \<exists>r \<in> db_routes db. eligible d oc r \<and> offer s i (advert r) = Some (k, c)}"
    unfolding set_map_filter_Some set_advertised [OF routes_okD(1) [OF assms]] by blast
  also have "\<dots> = heard d oc db s i k"
    unfolding heard_def eligible_def using advert_offers [OF assms, of _ s i k] by blast
  finally show ?thesis by (simp add: dv_costs_def Un_commute)
qed

lemma message_relaxes:
  assumes "routes_ok db_a" "length (entries b) = msg_buffer_entries" "command (header b) = RIP_CMD_RESPONSE"
    and f: "fill_buffer_with_entries dest db_a b policy = Some (b', n)"
    and os: "calls_ok os" and db: "routes_ok db" "db_space 500 db"
    and rx: "rip_find_rx_socket_by_fd (da_items ifcs) fd = Some sock"
    and dl: "delivers os w (sock_fd sock) w1 s \<lparr>dg_header = header b', dg_entries = take n (entries b')\<rparr>"
  shows "\<exists>w' db'. rip_handle_message_event os w db ifcs fd = Some (w', db', Returned 0) \<and> routes_ok db' \<and>
    (\<forall>k. distances db' k =
       dv_best (set_option (distances db k) \<union> heard dest (advertise_only_changed policy) db_a s (sock_if_index sock) k))"
proof -
  let ?es = "advertised dest (advertise_only_changed policy) db_a"
  note inv = routes_okD(1) [OF assms(1)]
  from fill_refines [OF inv assms(2), of dest policy] f have
    e: "take n (entries b') = ?es" "header b' = header b" "length ?es \<le> msg_buffer_entries" by (auto split: if_splits)
  from e dl have "delivers os w (sock_fd sock) w1 s \<lparr>dg_header = header b, dg_entries = ?es\<rparr>" by simp
  from delivered_response [OF rx this] e(3) assms(3) have h: "rip_handle_message_event os w db ifcs fd = do {
      (w', db', ec) \<leftarrow> handle_entries os w1 db ?es s (sock_if_index sock) 0; Some (w', db', Returned ec) }" by simp
  have "db_space (0 + length ?es) db" by (rule db_space_le [OF db(2)]) (use e(3) in \<open>simp add: msg_buffer_entries_def\<close>)
  moreover have "\<forall>x\<in>set ?es. subnet_mask x \<noteq> 0xFFFFFFFF"
    using set_advertised [OF inv] routes_okD(3) [OF assms(1)] wf_mask by fastforce
  ultimately obtain w' db' where "handle_entries os w1 db ?es s (sock_if_index sock) 0 = Some (w', db', 0)" "routes_ok db'"
    "distances db' = fold dv_relax (List.map_filter (offer s (sock_if_index sock)) ?es) (distances db)"
    using entries_relax [OF os db(1)] by blast
  with h show ?thesis by (simp add: fold_relax_best advertised_costs [OF assms(1)])
qed

text \<open>For the examples: a router that has learned one route prepares a message, and another one receives it.\<close>

lemma sample_exchange:
  "\<exists>(db :: rip_db) b b' n. routes_ok db \<and> db_routes db = {(incoming sample_entry 1 3)\<lparr>changed := True\<rparr>} \<and>
     length (entries b) = msg_buffer_entries \<and> command (header b) = RIP_CMD_RESPONSE \<and>
     fill_buffer_with_entries 5 db b \<lparr>neigbour_policy = rip_neighbour_split_horizon, advertise_only_changed = False\<rparr> = Some (b', n) \<and>
     delivers (receiving_os n b') {} 7 {} 9 \<lparr>dg_header = header b', dg_entries = take n (entries b')\<rparr>"
proof -
  from sample_learned obtain db where d: "routes_ok db" "garbage_map db = Map.empty"
    "ok_map db = [route_key (incoming sample_entry 1 3) \<mapsto> (incoming sample_entry 1 3)\<lparr>changed := True\<rparr>]" by blast
  let ?b = "zero_buffer\<lparr>header := \<lparr>command = RIP_CMD_RESPONSE, version = 2\<rparr>\<rparr>" and ?r = "(incoming sample_entry 1 3)\<lparr>changed := True\<rparr>"
  let ?p = "\<lparr>neigbour_policy = rip_neighbour_split_horizon, advertise_only_changed = False\<rparr>"
  have len: "length (entries ?b) = msg_buffer_entries" by (simp add: zero_buffer_length)
  have rs: "db_routes db = {?r}" by (simp add: db_routes_def d)
  have "card {r \<in> db_routes db. eligible 5 False r} \<le> card (db_routes db)" unfolding rs by (rule card_mono) auto
  then have "length (advertised 5 False db) \<le> msg_buffer_entries"
    by (simp add: length_advertised [OF routes_okD(1) [OF d(1)]] rs msg_buffer_entries_def)
  then obtain b' n where f: "fill_buffer_with_entries 5 db ?b ?p = Some (b', n)" "length (entries b') = msg_buffer_entries" "n \<le> msg_buffer_entries"
    using fill_refines [OF routes_okD(1) [OF d(1)] len, of 5 ?p] by auto
  then have "delivers (receiving_os n b') {} 7 {} 9 \<lparr>dg_header = header b', dg_entries = take n (entries b')\<rparr>"
    by (simp add: delivers_def receiving_os_def)
  with d(1) rs len f(1) show ?thesis by (intro exI [of _ db] exI [of _ ?b] exI [of _ b'] exI [of _ n]) simp
qed

text \<open>The interfaces of the receiver: one, with index 4.\<close>

definition sample_rx :: rip_socket where
  "sample_rx = zero_socket\<lparr>sock_fd := 7, sock_if_index := 4\<rparr>"

definition sample_ifcs :: "rip_ifc da_vec" where
  "sample_ifcs = \<lparr>da_items = [\<lparr>socket_rx = sample_rx, socket_tx = zero_socket\<rparr>], da_capacity = 1\<rparr>"

lemma sample_receiver:
  "rip_find_rx_socket_by_fd (da_items sample_ifcs) 7 = Some sample_rx" "sock_fd sample_rx = 7" "sock_if_index sample_rx = 4"
  "db_space 500 sample_db" "distances sample_db = Map.empty"
  by (simp_all add: sample_ifcs_def sample_rx_def distances_def sample_db_ok fun_eq_iff)

lemma sample_cost: "unat (host_metric ((incoming sample_entry 1 3)\<lparr>changed := True\<rparr>)) = 3"
  using incoming_cost [OF sample_entry_valid, of 1 3] by (simp add: host_metric_def) (simp add: hop_def sample_entry_def)



section \<open>Routes travel\<close>

text \<open>
  A route with the cost \<open>c\<close> to the network \<open>ip\<close> with the mask \<open>sm\<close> is announced from router to router: each prepares a message for
  the link \<open>dest\<close> from its database, and the next one, with any well-formed database, handles it. The routers may be in different
  states and know other routes. \<open>n\<close> counts the messages; \<open>dest\<close> is the link on which the last router would announce next, not
  the one on which it heard.
\<close>

inductive relayed :: "('w, 'r, 'n, 'a) os \<Rightarrow> in_addr \<Rightarrow> in_addr \<Rightarrow> nat \<Rightarrow> nat \<Rightarrow> rip_db \<Rightarrow> u32 \<Rightarrow> bool"
  for os ip sm c where
  origin: "routes_ok db \<Longrightarrow> r \<in> db_routes db \<Longrightarrow> ip_address (entry r) = ip \<Longrightarrow> subnet_mask (entry r) = sm \<Longrightarrow>
    unat (host_metric r) = c \<Longrightarrow> if_index r \<noteq> dest \<Longrightarrow> relayed os ip sm c 0 db dest"
| relay: "relayed os ip sm c n db_a dest \<Longrightarrow> length (entries b) = msg_buffer_entries \<Longrightarrow>
    command (header b) = RIP_CMD_RESPONSE \<Longrightarrow> \<not> advertise_only_changed policy \<Longrightarrow>
    fill_buffer_with_entries dest db_a b policy = Some (b', k) \<Longrightarrow> routes_ok db \<Longrightarrow> db_space 500 db \<Longrightarrow>
    rip_find_rx_socket_by_fd (da_items ifcs) fd = Some sock \<Longrightarrow>
    delivers os w (sock_fd sock) w1 s \<lparr>dg_header = header b', dg_entries = take k (entries b')\<rparr> \<Longrightarrow>
    rip_handle_message_event os w db ifcs fd = Some (w', db', rc) \<Longrightarrow> word_of_int (sock_if_index sock) \<noteq> dest' \<Longrightarrow>
    relayed os ip sm c (Suc n) db' dest'"

lemma dv_best_le: "finite C \<Longrightarrow> x \<in> C \<Longrightarrow> \<exists>d. dv_best C = Some d \<and> d \<le> x"
  by (auto simp: dv_best_def)

lemma heard_finite: "db_inv db \<Longrightarrow> finite (heard d oc db s i k)"
  unfolding heard_def set_db_list [symmetric]
  by (rule finite_subset [of _ "(\<lambda>r. hop (unat (host_metric r))) ` set (db_list db)"]) auto

lemma distances_route:
  assumes "db_inv db" "distances db k = Some d"
  shows "\<exists>r\<in>db_routes db. route_key r = k \<and> unat (host_metric r) = d"
proof -
  from assms(2) obtain r where r: "ok_map db k = Some r" "unat (host_metric r) = d" by (auto simp: distances_def)
  with ok_key [OF assms(1) r(1)] ok_route_in [OF r(1)] show ?thesis by blast
qed



end
