(* ===== verification/Rip_Expiry.thy ===== *)
theory Rip_Expiry
  imports Rip_Sync
begin

text \<open>
  Routes that are no longer announced go away. Each pass of the timeout timer adds 15 to the counter of
  every learned route that stays, so twelve passes without an announcement leave none in use.
\<close>

text \<open>The timers and the clock of the machine work.\<close>

definition timers_ok :: "('w, 'r, 'n, 'a) os \<Rightarrow> bool" where
  "timers_ok os \<longleftrightarrow> (\<forall>w fd. snd (os_read os w fd) \<noteq> - 1) \<and> (\<forall>w fd s n. snd (os_timerfd_settime os w fd s n) = 0) \<and>
     (\<forall>w. fst (snd (os_clock_gettime os w)) = 0)"

text \<open>The timeout handler \<open>n\<close> times, as long as it returns 0.\<close>

fun timeout_passes :: "('w, 'r, 'n, 'a) os \<Rightarrow> nat \<Rightarrow> 'w \<times> rip_context \<Rightarrow> ('w \<times> rip_context) option" where
  "timeout_passes os 0 ws = Some ws"
| "timeout_passes os (Suc n) ws = do {
     (ws, rc) \<leftarrow> rip_t_timeout_expired os ws;
     if rc = Returned 0 then timeout_passes os n ws else None
   }"

text \<open>Every learned route has at least the age \<open>c\<close>, and the local routes are those of \<open>m\<close>.\<close>

definition older :: "(route_id \<rightharpoonup> rip_route_description) \<Rightarrow> int \<Rightarrow> rip_db \<Rightarrow> bool" where
  "older m c db \<longleftrightarrow> (\<forall>k r. ok_map db k = Some r \<longrightarrow> (if is_local r then m k = Some r else c \<le> timeout_cnt r))"

definition only_local :: "(route_id \<rightharpoonup> rip_route_description) \<Rightarrow> route_id \<rightharpoonup> rip_route_description" where
  "only_local m k = (case m k of None \<Rightarrow> None | Some r \<Rightarrow> if is_local r then Some r else None)"

lemma map_all_upd: "\<forall>k r. m k = Some r \<longrightarrow> P k r \<Longrightarrow> P k y \<Longrightarrow> \<forall>k' r. (m(k \<mapsto> y)) k' = Some r \<longrightarrow> P k' r"
  by simp

lemma older_upd:
  assumes "older m c db" "\<not> is_local y" "c \<le> timeout_cnt y" "ok_map db' = (ok_map db)(k \<mapsto> y)"
  shows "older m c db'"
  unfolding older_def assms(4) by (rule map_all_upd) (use assms(1-3) in \<open>simp_all add: older_def\<close>)

lemma older_clear: "older m c db \<Longrightarrow> ok_map db' = (ok_map db)(k := None) \<Longrightarrow> older m c db'"
  unfolding older_def by (metis fun_upd_apply option.distinct(1))

text \<open>One pass: the routes that stay are older by 15, and it succeeds if the kernel deletes every route.\<close>

interpretation tx: timeout_pass os now "\<lambda>w db. older m c db" "\<lambda>r. c + 15 \<le> timeout_cnt r" "\<not> deletes_ok os" for os now m c
proof unfold_locales
  fix w db p assume o: "older m c db" and ok: "routes_ok db" and v: "hm_valid (ok_routes db) p"
    and nl: "\<not> is_local (item_at (ok_routes db) p)"
  let ?x = "item_at (ok_routes db) p"
  note inv = routes_okD(1) [OF ok]
  have st: "ok_map db (route_key ?x) = Some ?x" by (rule hm.valid_stored [OF db_inv_parts(1) [OF inv] v])
  have "db_valid db (In_ok p)" using v by simp
  from db_write_ok(2) [OF inv this, of age] have
    u: "ok_map (rip_db_write db (In_ok p) age) = (ok_map db)(route_key ?x \<mapsto> age ?x)" by simp
  have "c \<le> timeout_cnt ?x" using o st nl unfolding older_def by meson
  then show "older m c (rip_db_write db (In_ok p) age)"
    by (intro older_upd [OF o _ _ u]) (use nl in \<open>simp_all add: TIMEOUT_PERIOD_TIMER_def\<close>)
next
  fix w db p w' db' rc assume o: "older m c db" and ok: "routes_ok db" "db_space 1 db" and v: "hm_valid (ok_routes db) p"
    and e: "rip_route_timeout_expired os w db (In_ok p) now = Some (w', db', rc)"
  let ?x = "item_at (ok_routes db) p"
  from timeout_expired_refines [OF ok v, of os w now] e have
    u: "ok_map db' = (ok_map db)(route_key ?x := None)"
    and f: "rc = Returned 0 \<or> (\<exists>ec. rip_route_delete_route os w ?x = Some (w', ec) \<and> ec \<noteq> 0)" by auto
  show "older m c db'" by (rule older_clear [OF o u])
  have "ok_map db (route_key ?x) = Some ?x"
    by (rule hm.valid_stored [OF db_inv_parts(1) [OF routes_okD(1) [OF ok(1)]] v])
  then have "wf_route ?x" by (intro routes_okD(3) [OF ok(1)] ok_route_in)
  with f show "rc = Returned 0 \<or> \<not> deletes_ok os" unfolding deletes_ok_def by (metis option.inject prod.inject)
next
  fix w db k r assume "older m c db" "ok_map db k = Some r" "\<not> is_local r"
  then have "c \<le> timeout_cnt r" unfolding older_def by meson
  then show "c + 15 \<le> timeout_cnt (age r)" by (simp add: TIMEOUT_PERIOD_TIMER_def)
qed

lemma older_after:
  assumes "older m c db" "\<forall>r\<in>ran (ok_map db). is_local r \<or> d \<le> timeout_cnt r"
  shows "older m d db"
  using assms unfolding older_def by (metis ranI)

text \<open>What the passes relate: local routes stay, garbage stays, and what left the routes in use has expired.\<close>

definition lapsed :: "rip_db \<Rightarrow> rip_db \<Rightarrow> bool" where
  "lapsed db db' \<longleftrightarrow>
     (\<forall>k r. ok_map db k = Some r \<longrightarrow> is_local r \<longrightarrow> ok_map db' k = Some r) \<and>
     (\<forall>k r. garbage_map db k = Some r \<longrightarrow> garbage_map db' k = Some r) \<and>
     (\<forall>k r. ok_map db k = Some r \<longrightarrow> ok_map db' k = None \<longrightarrow> (\<exists>now r'. garbage_map db' k = Some r' \<and> expired_at now r'))"

lemma lapsed_refl: "lapsed db db"
  by (simp add: lapsed_def)

lemma lapsed_trans:
  assumes "lapsed db1 db2" "lapsed db2 db3" shows "lapsed db1 db3"
  unfolding lapsed_def
proof (intro conjI allI impI)
  fix k r assume k: "ok_map db1 k = Some r" "ok_map db3 k = None"
  show "\<exists>now r'. garbage_map db3 k = Some r' \<and> expired_at now r'"
  proof (cases "ok_map db2 k")
    case None
    with k(1) assms(1) obtain now r' where "garbage_map db2 k = Some r'" "expired_at now r'" unfolding lapsed_def by meson
    with assms(2) show ?thesis unfolding lapsed_def by meson
  next
    case (Some r2)
    with k(2) assms(2) show ?thesis unfolding lapsed_def by meson
  qed
qed (use assms in \<open>unfold lapsed_def, meson\<close>)+

lemma aged_lapsed: "aged True now db db' \<Longrightarrow> lapsed db db'"
  unfolding aged_def lapsed_def dom_def by blast

section \<open>A pass of the handler\<close>

lemma timeout_handler_returns:
  assumes t: "timers_ok os"
    and l: "\<And>now w. \<exists>w' db' g. timeout_loop os now w (ctx_db ctx) iter_zero False = Some (w', db', g, Returned 0) \<and> P now db'"
  shows "\<exists>w' ctx' now. rip_t_timeout_expired os (w, ctx) = Some ((w', ctx'), Returned 0) \<and>
    ticking (t_timeout (timers ctx')) \<and> P now (ctx_db ctx')"
proof -
  obtain w1 n where r: "os_read os w (timer_fd (t_timeout (timers ctx))) = (w1, n)" by fastforce
  obtain w2 ec now where c: "os_clock_gettime os w1 = (w2, ec, now)" by (metis prod_cases3)
  from t r c have "n \<noteq> - 1" "ec = 0" unfolding timers_ok_def by (metis fst_conv snd_conv)+
  with r c have m: "timer_clear os w (t_timeout (timers ctx)) = ((t_timeout (timers ctx))\<lparr>ticking := False\<rparr>, w1, 0)"
    "get_monotonic_time os w1 = (w2, Some now)"
    by (simp_all add: timer_clear_def get_monotonic_time_def)
  have s: "\<exists>w'. timer_start_oneshot os w t v = (t\<lparr>ticking := True\<rparr>, w', 0)" for w t v
    using assms(1) unfolding timers_ok_def timer_start_oneshot_def timer_set_def Let_def
    by (auto split: prod.splits) (metis snd_conv)
  from l [of now w2] obtain w3 db' g where
    l1: "timeout_loop os now w2 (ctx_db ctx) iter_zero False = Some (w3, db', g, Returned 0)" "P now db'" by blast
  obtain w4 where s4: "timer_start_oneshot os w3 (t_gc (timers ctx)) (of_int GC_PERIOD_TIMER) =
      ((t_gc (timers ctx))\<lparr>ticking := True\<rparr>, w4, 0)" using s by blast
  define w5 where "w5 = (if g \<and> \<not> timer_is_ticking (t_gc (timers ctx)) then w4 else w3)"
  obtain w6 where "timer_start_oneshot os w5 ((t_timeout (timers ctx))\<lparr>ticking := False\<rparr>) (of_int TIMEOUT_PERIOD_TIMER) =
      ((t_timeout (timers ctx))\<lparr>ticking := True\<rparr>, w6, 0)" using s [of w5 "(t_timeout (timers ctx))\<lparr>ticking := False\<rparr>" "of_int TIMEOUT_PERIOD_TIMER"] by auto
  with m l1 s4 show ?thesis unfolding rip_t_timeout_expired_def w5_def by (auto simp: Let_def)
qed

lemma pass_ages:
  assumes "timers_ok os" "deletes_ok os" "memory_ok os"
    and ok: "routes_ok (ctx_db ctx)" "db_space 1 (ctx_db ctx)" "older m c (ctx_db ctx)"
  shows "\<exists>w' ctx'. rip_t_timeout_expired os (w, ctx) = Some ((w', ctx'), Returned 0) \<and> ticking (t_timeout (timers ctx')) \<and>
    routes_ok (ctx_db ctx') \<and> db_space 1 (ctx_db ctx') \<and> older m (c + 15) (ctx_db ctx') \<and> lapsed (ctx_db ctx) (ctx_db ctx') \<and>
    (\<forall>r\<in>ran (ok_map (ctx_db ctx')). is_local r \<or> timeout_cnt r < 180)"
proof -
  define P where "P now db' \<longleftrightarrow> routes_ok db' \<and> db_space 1 db' \<and> older m (c + 15) db' \<and> lapsed (ctx_db ctx) db' \<and>
    (\<forall>r\<in>ran (ok_map db'). is_local r \<or> timeout_cnt r < 180)" for now :: timespec and db'
  have l: "\<exists>w' db' g. timeout_loop os now w (ctx_db ctx) iter_zero False = Some (w', db', g, Returned 0) \<and> P now db'" for now w
  proof -
    from tx.timeout_loop_refines [OF ok(1,2) passed_fresh_start [OF routes_okD(1) [OF ok(1)]] ok(3),
        of os now w False, unfolded tx.pass_done_def] assms(2)
    obtain w' db' g where "timeout_loop os now w (ctx_db ctx) iter_zero False = Some (w', db', g, Returned 0)"
      "timeout_post os now (ctx_db ctx) False w' db' g (Returned 0)" "older m c db'"
      "\<forall>r\<in>ran (ok_map db'). is_local r \<or> c + 15 \<le> timeout_cnt r" by blast
    with assms(3) aged_lapsed [of now "ctx_db ctx" db'] older_after [of m c db' "c + 15"] show ?thesis
      by (simp add: timeout_post_def P_def TIMEOUT_PERIOD_RFC_def)
  qed
  from timeout_handler_returns [OF assms(1) l] show ?thesis unfolding P_def by blast
qed

lemma passes_age:
  assumes "timers_ok os" "deletes_ok os" "memory_ok os"
  shows "routes_ok (ctx_db ctx) \<Longrightarrow> db_space 1 (ctx_db ctx) \<Longrightarrow> older m c (ctx_db ctx) \<Longrightarrow>
    \<exists>w' ctx'. timeout_passes os n (w, ctx) = Some (w', ctx') \<and> routes_ok (ctx_db ctx') \<and>
      older m (c + 15 * int n) (ctx_db ctx') \<and> lapsed (ctx_db ctx) (ctx_db ctx') \<and>
      (0 < n \<longrightarrow> ticking (t_timeout (timers ctx')) \<and> (\<forall>r\<in>ran (ok_map (ctx_db ctx')). is_local r \<or> timeout_cnt r < 180))"
proof (induction n arbitrary: w ctx c)
  case (Suc n)
  from pass_ages [OF assms Suc.prems, of w] obtain w1 ctx1 where
    p: "rip_t_timeout_expired os (w, ctx) = Some ((w1, ctx1), Returned 0)" "ticking (t_timeout (timers ctx1))"
    "routes_ok (ctx_db ctx1)" "db_space 1 (ctx_db ctx1)" "older m (c + 15) (ctx_db ctx1)"
    "lapsed (ctx_db ctx) (ctx_db ctx1)" "\<forall>r\<in>ran (ok_map (ctx_db ctx1)). is_local r \<or> timeout_cnt r < 180" by blast
  from Suc.IH [OF p(3-5), of w1] obtain w' ctx' where
    q: "timeout_passes os n (w1, ctx1) = Some (w', ctx')" "routes_ok (ctx_db ctx')"
    "older m (c + 15 + 15 * int n) (ctx_db ctx')" "lapsed (ctx_db ctx1) (ctx_db ctx')"
    "0 < n \<longrightarrow> ticking (t_timeout (timers ctx')) \<and> (\<forall>r\<in>ran (ok_map (ctx_db ctx')). is_local r \<or> timeout_cnt r < 180)" by blast
  have "ctx' = ctx1" if "n = 0" using q(1) that by simp
  then have "ticking (t_timeout (timers ctx')) \<and> (\<forall>r\<in>ran (ok_map (ctx_db ctx')). is_local r \<or> timeout_cnt r < 180)"
    using q(5) p(2,7) by (cases "n = 0") simp_all
  then show ?case using p(1) q lapsed_trans [OF p(6) q(4)] by (simp add: add.assoc)
qed (simp add: lapsed_refl)

lemma only_local_left:
  assumes "older (ok_map db) c db'" "\<forall>r\<in>ran (ok_map db'). is_local r \<or> timeout_cnt r < c" "lapsed db db'"
  shows "ok_map db' = only_local (ok_map db)"
proof
  fix k
  show "ok_map db' k = only_local (ok_map db) k"
  proof (cases "ok_map db' k")
    case None
    then have "\<not> is_local r" if "ok_map db k = Some r" for r using assms(3) that unfolding lapsed_def by fastforce
    with None show ?thesis by (simp add: only_local_def split: option.splits)
  next
    case (Some r)
    with assms(2) have "is_local r \<or> timeout_cnt r < c" by (blast intro: ranI)
    moreover have "if is_local r then ok_map db k = Some r else c \<le> timeout_cnt r"
      using assms(1) Some unfolding older_def by meson
    ultimately show ?thesis using Some by (simp add: only_local_def split: if_splits)
  qed
qed

section \<open>Properties\<close>

text \<open>
  C13: routes of silent neighbours expire. On a machine whose timers, clock and allocator work and whose kernel
  deletes the routes, twelve passes of the timeout handler (180 seconds) all return 0, each with its timer
  running again, and leave exactly the local routes in use, unchanged. Every learned route is then in the garbage as an
  expired route: metric 16, marked as changed, out of the kernel's table, stamped with the time of a pass.
\<close>

theorem silent_routes_expire:
  assumes "timers_ok os" "deletes_ok os" "memory_ok os" "routes_ok (ctx_db ctx)" "db_space 1 (ctx_db ctx)"
    and cnt: "\<forall>r\<in>ran (ok_map (ctx_db ctx)). 0 \<le> timeout_cnt r"
  shows "\<exists>w' ctx'. timeout_passes os 12 (w, ctx) = Some (w', ctx') \<and> routes_ok (ctx_db ctx') \<and>
    ticking (t_timeout (timers ctx')) \<and> ok_map (ctx_db ctx') = only_local (ok_map (ctx_db ctx)) \<and>
    (\<forall>k r. ok_map (ctx_db ctx) k = Some r \<and> \<not> is_local r \<longrightarrow>
       (\<exists>now r'. garbage_map (ctx_db ctx') k = Some r' \<and> expired_at now r'))"
proof -
  have "older (ok_map (ctx_db ctx)) 0 (ctx_db ctx)" using cnt unfolding older_def by (auto intro: ranI)
  from passes_age [OF assms(1-5) this, of 12 w] obtain w' ctx' where
    p: "timeout_passes os 12 (w, ctx) = Some (w', ctx')" "routes_ok (ctx_db ctx')"
    "older (ok_map (ctx_db ctx)) 180 (ctx_db ctx')" "lapsed (ctx_db ctx) (ctx_db ctx')" "ticking (t_timeout (timers ctx'))"
    "\<forall>r\<in>ran (ok_map (ctx_db ctx')). is_local r \<or> timeout_cnt r < 180" by auto
  note o = only_local_left [OF p(3,6,4)]
  have "\<exists>now r'. garbage_map (ctx_db ctx') k = Some r' \<and> expired_at now r'"
    if "ok_map (ctx_db ctx) k = Some r" "\<not> is_local r" for k r
  proof -
    have "ok_map (ctx_db ctx') k = None" unfolding o by (simp add: only_local_def that)
    with p(4) that(1) show ?thesis unfolding lapsed_def by meson
  qed
  with p o show ?thesis by blast
qed

theorem silent_routes_expire_witness:
  "\<exists>(ctx :: rip_context) w' ctx'. ok_map (ctx_db ctx) \<noteq> Map.empty \<and>
     timeout_passes sample_os 12 ({}, ctx) = Some (w', ctx') \<and> ok_map (ctx_db ctx') = Map.empty"
proof -
  from sample_learned obtain db where d: "routes_ok db" "db_space 99 db"
    "ok_map db = [route_key (incoming sample_entry 1 3) \<mapsto> (incoming sample_entry 1 3)\<lparr>changed := True\<rparr>]" by blast
  let ?ctx = "sample_ctx\<lparr>ctx_db := db\<rparr>"
  have t: "timers_ok sample_os" by (simp add: timers_ok_def sample_os_def)
  have ok: "routes_ok (ctx_db ?ctx)" "db_space 1 (ctx_db ?ctx)" using d(1) db_space_le [OF d(2), of 1] by simp_all
  have "\<forall>r\<in>ran (ok_map (ctx_db ?ctx)). 0 \<le> timeout_cnt r" by (simp add: d(3) incoming_sel)
  from silent_routes_expire [OF t sample_deletes sample_memory(1) ok this, of "{}"] obtain w' ctx' where
    "timeout_passes sample_os 12 ({}, ?ctx) = Some (w', ctx')" "ok_map (ctx_db ctx') = only_local (ok_map (ctx_db ?ctx))" by blast
  moreover have "only_local (ok_map (ctx_db ?ctx)) = Map.empty"
    by (simp add: fun_eq_iff only_local_def d(3) incoming_sel)
  ultimately show ?thesis using d(3) by (intro exI [of _ ?ctx] exI [of _ w'] exI [of _ ctx']) simp
qed

end
