(* ===== verification/Spec2Isabelle.thy ===== *)
theory Spec2Isabelle
  imports Ripd Rip_Cli Hashmap_Util Rip_Vector Rip_Expiry
begin

text \<open>
  Verification of ripd, a daemon for the routing protocol RIP version 2 (RFC 2453) on Linux, and of
  its command line client. The sources are under \<^verbatim>\<open>src/src\<close>; file names below are relative to
  \<^verbatim>\<open>src/src/librip\<close>.

  \<^bold>\<open>The program.\<close> \<^verbatim>\<open>rip.c\<close> reads a YAML configuration, creates a receive and a transmit socket per
  interface, connects to the kernel through libnl, fills a database with the networks it is to
  advertise, and enters a loop around \<^verbatim>\<open>poll\<close> that calls the handlers of sockets, timers, netlink
  notifications and requests of the client. Received responses (\<^verbatim>\<open>rip_recv.c\<close>) add and update routes
  in the database (\<^verbatim>\<open>rip_db.c\<close>, two hash maps: the routes in use and the garbage) and in the kernel's
  table (\<^verbatim>\<open>rip_route.c\<close>); timers send updates (\<^verbatim>\<open>rip_update.c\<close>), age routes and collect the garbage; at
  exit every route is announced as unreachable and taken out of the kernel.

  \<^bold>\<open>Theories and what they model.\<close>
  \<^item> \<open>Rip_Prelude\<close>: words, byte order, GCC's bit counting builtins, decimal output, shared lemmas.
  \<^item> \<open>Rip_Common\<close>: \<^verbatim>\<open>rip_common.h\<close>, \<^verbatim>\<open>rip_common.c\<close> (entries on the wire, masks, prefix lengths).
  \<^item> \<open>Rip_Os\<close>: the calls of the C library, the kernel and libnl as a record of functions over a state
    \<open>'w\<close> of the machine, and a concrete machine for the examples.
  \<^item> \<open>Rip_Config\<close>: \<^verbatim>\<open>utils/config/parse_rip_config.c\<close> over a libyaml document, with the contract
    of the callbacks of \<^verbatim>\<open>parse_sequence_of_mappings\<close> as the locales \<open>sequence_callback\<close> and \<open>sequence_parser\<close>.
  \<^item> \<open>Hashmap\<close>, \<open>Hashmap_Robin\<close>, \<open>Hashmap_Map\<close>: \<^verbatim>\<open>utils/hashmap.c\<close>, its Robin Hood invariant, and its
    contract as a finite map with a cursor (locales \<open>item_store\<close> and \<open>item_cursor\<close>, interpreted as \<open>hm\<close>).
    \<open>Hashmap_Util\<close>: its operations the daemon does not call (settings, clearing, releasing, scanning, probing).
  \<^item> \<open>Sip_Hash\<close>: the three hash functions of \<^verbatim>\<open>utils/hashmap.c\<close>, and SipHash-2-4 as it is published.
  \<^item> \<open>Rip_Db\<close>: \<^verbatim>\<open>rip_db.c\<close>, a client of that contract. \<open>Rip_Socket\<close>: \<^verbatim>\<open>rip_socket.c\<close>,
    \<^verbatim>\<open>utils/network/socket.c\<close>, \<^verbatim>\<open>utils/da_array.h\<close>. \<open>Rip_Ipc\<close>: the daemon's side of \<^verbatim>\<open>rip_ipc.c\<close>.
    \<open>Rip_Route\<close>: \<^verbatim>\<open>rip_route.c\<close>. \<open>Rip_Timer\<close>: \<^verbatim>\<open>utils/timer.c\<close>, \<^verbatim>\<open>utils/utils.c\<close>. \<open>Event_Dispatcher\<close>:
    \<^verbatim>\<open>utils/event_dispatcher.c\<close>, with the locales \<open>callbacks\<close> and \<open>polled_callbacks\<close> for what a round of
    \<^verbatim>\<open>poll\<close> needs of the handlers.
  \<^item> \<open>Rip_Update\<close>: \<^verbatim>\<open>rip_update.c\<close>. \<open>Rip_Recv\<close>: \<^verbatim>\<open>rip_recv.c\<close>. \<open>Rip_Main\<close>, \<open>Rip_Begin\<close>: \<^verbatim>\<open>rip.c\<close>.
  \<^item> \<open>Rip_Aging\<close> (the timeout and garbage passes; locale \<open>timeout_pass\<close>), \<open>Rip_Loop\<close> (the event loop),
    \<open>Rip_Sync\<close> (the kernel's table), \<open>Rip_Lifecycle\<close> (start and shutdown): proofs that span components.
  \<^item> \<open>Rip_Vector\<close>: the daemon as a distance vector protocol, with relaxation (\<open>dv_relax\<close>) as the abstract
    specification of received responses and of the exchange between two routers. \<open>Rip_Expiry\<close>: routes that are
    not announced any more.
  \<^item> \<open>Ripd\<close>: \<^verbatim>\<open>src/src/ripd.c\<close>, the process with its exit and signal handlers.
  \<^item> \<open>Rip_Cli\<close>: the client's side of \<^verbatim>\<open>rip_ipc.c\<close>, and \<^verbatim>\<open>src/src/rip_cli.c\<close>.

  \<^bold>\<open>Conventions.\<close> A struct is a record, an enum a datatype, a function a function that takes the
  record of outside calls and the state of the machine and returns the new state. A result \<open>None\<close>
  of the outermost option is undefined behaviour (a null or dangling pointer, an index out of
  range, a builtin outside its domain) or, for a loop that is a \<open>partial_function\<close>, not returning;
  \<open>Exited\<close> is \<^verbatim>\<open>exit\<close> or \<^verbatim>\<open>PANIC\<close>. A pointer into a map is the map and the index of the bucket.
  Unsigned integers of fixed width are words where their width matters: all fields on the wire,
  hashes, the 16 bits of a bucket's distance and the 48 bits of its hash, \<open>size_t\<close> in
  \<open>calculate_entries_count\<close>; sizes and counters that cannot overflow in memory are \<open>nat\<close>, timer
  counters are \<open>int\<close>. \<open>float\<close> is \<open>real\<close>. The host is little endian. The two thresholds of the hash map,
  products with a load factor, are quotients of integers. \<^verbatim>\<open>malloc\<close> is a function of the state and the
  size. Releasing memory and writing to the log have no counterpart, except that printing a mask
  may be undefined, and in \<open>hashmap_free\<close>, \<open>hashmap_clear\<close> and \<open>rip_configuration_destroy\<close>, whose work it is.

  \<^bold>\<open>What is assumed\<close> is a named hypothesis of the properties that need it, each with an example in
  which it holds: \<open>hm_inv\<close>/\<open>db_space\<close>/\<open>has_room\<close> (fewer than \<open>2 ^ 16\<close> entries, since the distance of a
  bucket has 16 bits; a message has at most 500 entries, so \<open>500\<close> per descriptor and turn is
  enough), \<open>buffer_law\<close> (\<^verbatim>\<open>recvfrom\<close> fills the buffer it is given), \<open>kernel_laws\<close> and \<open>frame_law\<close> (the
  kernel's table changes by the two netlink calls as they report, and by nothing else),
  \<open>blank_laws\<close> and \<open>kroute_law\<close> (libnl allocates blank objects and keeps different routes apart),
  \<open>deletes_ok\<close>, \<open>memory_ok\<close>, \<open>roomy\<close>, \<open>never_fails\<close>, \<open>messages_fit\<close> (an announcement has at most 500 entries),
  \<open>queue_laws\<close> (message queues deliver), \<open>adds_ok\<close>, \<open>calls_ok\<close> and \<open>timers_ok\<close> (for what the protocol achieves when
  no call fails), \<open>delivers\<close> (a datagram that was sent is received as it is).

  \<^bold>\<open>What is shown.\<close>
  \<^item> Hash map: get, set, delete and iteration implement a finite map and return, for every answer of
    the allocator; clearing frees each element once; SipHash is the published function, and known
    answers of the other hash functions.
  \<^item> Database: the effect of every operation on the two maps; a dump prints each route once.
  \<^item> Received entries: which are valid, and what a valid one does to database and kernel in every
    case; a response keeps the invariant of the database and relaxes the vector of distances; bounds of the entry count.
  \<^item> Two routers: after the announcement of one is received by the other, each distance there is the best of what was
    known and what was announced, plus one hop; a route relayed over \<open>n\<close> routers arrives with at most its metric plus \<open>n\<close>. Routes that are not announced any more are out of use after twelve passes of the timeout
    timer.
  \<^item> Announcements: split horizon, when the buffer overflows, what is sent on each interface, the
    announcement at shutdown; a request that is sent is recognised by its receiver and answered.
  \<^item> Timers: the timeout and garbage passes end, and which routes they age, move and remove; triggered
    updates, the period of updates, when a timer is started again.
  \<^item> The dispatcher runs the callbacks of the ready descriptors in order; registration.
  \<^item> Configuration: an accepted configuration is the one in the document; reading is free of
    undefined behaviour under stated conditions; its values fit the C types; numbers.
  \<^item> The daemon: what holds when the loop is entered; that in every turn the database is well formed
    and the kernel's table contains every learned route in use and, if no call fails, no other route of its own; why the loop ends and with
    which status;
    that a signal or a fatal error in a handler leaves the kernel's table as it was found; that \<^verbatim>\<open>rip-cli -r\<close> prints the dump.

  \<^bold>\<open>Not modelled.\<close> Logging and the functions that only print or release memory (\<^verbatim>\<open>rip_db_free\<close>,
  \<^verbatim>\<open>rip_route_free\<close>, \<^verbatim>\<open>event_dispatcher_free\<close>); a signal that arrives
  inside a handler rather than while the loop waits in \<^verbatim>\<open>poll\<close> (the exit handler then reads a database
  in the middle of an operation); the tests and benchmarks at the end of \<^verbatim>\<open>hashmap.c\<close> and
  \<^verbatim>\<open>hashmap_set_allocator\<close>; \<^verbatim>\<open>rip_route_entry_create\<close>, which nothing calls; libnl, libyaml and the C
  library, whose calls are parameters; the unit and integration tests.
\<close>

section \<open>The daemon from its start\<close>

text \<open>
  C2: the database of the running daemon. Once \<^verbatim>\<open>rip_begin\<close> has reached the event loop, at the
  start of every turn the hash maps are well formed, no key is both in use and garbage, masks and
  metrics are valid and a changed route is covered by the flag, whatever datagrams, timer events
  and requests have arrived and whichever calls of the kernel, the allocator and the network have
  failed. The number of routes is bounded by the 16 bits of the map's distance field
  (\<open>has_room\<close> in each turn of \<open>rip_reachable\<close>).
\<close>

theorem daemon_database_invariant:
  assumes "rip_setup os w malloc m src = Some (Inl (w', ctx, ri, ed))"
    and "advertised_networks_n (config ctx) < 2 ^ 16" "rip_interfaces_n (config ctx) + 10 < 2 ^ 16"
    and "buffer_law os" "rip_reachable os ri ed (w', ctx) ws"
  shows "routes_ok (ctx_db (snd ws))"
proof -
  from setup_refines [OF assms(1-3)] have "ed_inv ed" "routes_ok (ctx_db (snd (w', ctx)))" by (simp_all add: Let_def)
  from event_loop_invariant [OF this(1) assms(4) this(2) assms(5)] show ?thesis .
qed

theorem daemon_database_invariant_witness:
  "\<exists>w ctx ri ed. rip_setup start_os {} start_malloc () start_source = Some (Inl (w, ctx, ri, ed)) \<and> routes_ok (ctx_db (snd (w, ctx)))"
proof -
  from start_run obtain w ctx ri ed where
    s: "rip_setup start_os {} start_malloc () start_source = Some (Inl (w, ctx, ri, ed))" "config ctx = start_cfg"
    and r: "rip_reachable start_os ri ed (w, ctx) (w, ctx)" by blast
  from daemon_database_invariant [OF s(1) _ _ start_os_laws(2) r] s show ?thesis
    by (intro exI [of _ w] exI [of _ ctx] exI [of _ ri] exI [of _ ed]) (simp add: start_cfg_def)
qed

text \<open>
  C1: the kernel follows the database. At the start of every turn of a daemon started by
  \<^verbatim>\<open>rip_begin\<close>, every learned route in use is in the kernel's table, and every route the daemon cannot
  have made that was there when the loop was entered still is, for every sequence of messages
  and timer events and whichever calls fail. If moreover no deletion fails and there is memory, the table has
  nothing but what it had then and the learned routes in use. It is assumed that the table changes only by the two
  netlink calls of the daemon, as they report, and that libnl keeps different routes apart.
\<close>

theorem daemon_kernel_table:
  assumes "rip_setup os w malloc m src = Some (Inl (w', ctx, ri, ed))"
    and "advertised_networks_n (config ctx) < 2 ^ 16" "rip_interfaces_n (config ctx) + 10 < 2 ^ 16"
    and "machine_laws os table r0 n0 a0" "buffer_law os" "rip_reachable os ri ed (w', ctx) ws"
  shows "(\<forall>r\<in>ran (ok_map (ctx_db (snd ws))). is_local r \<or> (\<exists>x\<in>table (fst ws). kroute os r0 n0 a0 r = Some x)) \<and>
    table w' - own_routes os r0 n0 a0 \<subseteq> table (fst ws) \<and>
    (memory_ok os \<and> deletes_ok os \<longrightarrow>
      table (fst ws) \<subseteq> table w' \<union> learned_routes os r0 n0 a0 (ok_map (ctx_db (snd ws))))"
proof -
  note s = started_ok [OF assms(1-3)]
  from kernel_follows_database [OF assms(4,5) s(1,2,3) assms(6)] show ?thesis by (simp add: in_step_def synced_def owned_def)
qed

theorem daemon_kernel_table_witness:
  "\<exists>w ctx ri ed. rip_setup start_os {} start_malloc () start_source = Some (Inl (w, ctx, ri, ed)) \<and>
     (\<forall>r\<in>ran (ok_map (ctx_db (snd (w, ctx)))). is_local r \<or>
        (\<exists>x\<in>id (fst (w, ctx)). kroute start_os ([], [], (0, 0, 0)) ((0, 0, 0), 0, 0) (0, 0, 0) r = Some x))"
proof -
  from start_run obtain w ctx ri ed where
    s: "rip_setup start_os {} start_malloc () start_source = Some (Inl (w, ctx, ri, ed))" "config ctx = start_cfg"
    and r: "rip_reachable start_os ri ed (w, ctx) (w, ctx)" by blast
  have "advertised_networks_n (config ctx) < 2 ^ 16" "rip_interfaces_n (config ctx) + 10 < 2 ^ 16"
    using s(2) by (simp_all add: start_cfg_def)
  from daemon_kernel_table [OF s(1) this start_os_laws r] s(1) show ?thesis by auto
qed

end
